(* ===== verification/Xv6_Prelude.thy ===== *)
theory Xv6_Prelude
  imports Main "HOL-Library.Word"
begin

text \<open>
  Shared material of the development: the outcome of a piece of kernel code (a value, a
  panic, a wait, or undefined behaviour), its sequencing operator, the scan of a fixed
  size table from its first slot, the result of a call that may go to sleep, and the
  signed 32 bit wrap-around of C's \<open>int\<close> counters.
\<close>

section \<open>Outcomes of kernel code\<close>

type_synonym u8 = "8 word"
type_synonym u16 = "16 word"
type_synonym u32 = "32 word"

text \<open>
  \<open>Ok x\<close>: the code returned \<open>x\<close>. \<open>Panic m\<close>: it called \<open>panic(m)\<close>, which never
  returns. \<open>Block\<close>: it waits for another processor (a spin lock held elsewhere) or, in
  code that is modelled without a suspension point, for another process. \<open>Fault\<close>: the C
  program has no defined behaviour from here (a write outside an array, a null pointer).
\<close>

datatype 'a outcome = Ok 'a | Panic string | Block | Fault

fun andthen :: "'a outcome \<Rightarrow> ('a \<Rightarrow> 'b outcome) \<Rightarrow> 'b outcome" where
  "andthen (Ok x) f = f x"
| "andthen (Panic m) f = Panic m"
| "andthen Block f = Block"
| "andthen Fault f = Fault"

named_theorems sched_simps \<open>facts about the processor, lock and scheduler layer\<close>
named_theorems frame_simps \<open>what an operation leaves unchanged\<close>

lemma andthen_Ok_iff:
  "andthen m f = Ok y \<longleftrightarrow> (\<exists>x. m = Ok x \<and> f x = Ok y)"
  by (cases m) auto

lemma andthen_OkE:
  assumes "andthen m f = Ok y"
  obtains x where "m = Ok x" and "f x = Ok y"
  using assms by (auto simp: andthen_Ok_iff)

lemma andthen_assoc [simp]:
  "andthen (andthen m f) g = andthen m (\<lambda>x. andthen (f x) g)"
  by (cases m) simp_all

lemma andthen_cong [fundef_cong]:
  assumes "m = m'" and "\<And>x. m' = Ok x \<Longrightarrow> f x = f' x"
  shows "andthen m f = andthen m' f'"
  using assms by (cases m') simp_all

text \<open>A call that either returns or has put the process to sleep at a point of its own.\<close>

datatype ('r, 'k) blocking = Return 'r | Sleeps 'k

section \<open>Scanning a table\<close>

text \<open>
  The kernel's tables are arrays scanned from the first slot; the scan stops at the
  first slot that satisfies the test.
\<close>

primrec find_index :: "('a \<Rightarrow> bool) \<Rightarrow> 'a list \<Rightarrow> nat option" where
  "find_index P [] = None"
| "find_index P (x # xs) = (if P x then Some 0 else map_option Suc (find_index P xs))"

lemma find_index_None_iff: "find_index P xs = None \<longleftrightarrow> (\<forall>x\<in>set xs. \<not> P x)"
  by (induction xs) auto

lemma find_index_Some_iff:
  "find_index P xs = Some i \<longleftrightarrow>
     i < length xs \<and> P (xs ! i) \<and> (\<forall>j<i. \<not> P (xs ! j))"
proof (induction xs arbitrary: i)
  case Nil
  then show ?case by simp
next
  case (Cons x xs)
  then show ?case by (cases i) (auto simp: nth_Cons split: nat.splits)
qed

lemma find_index_SomeD:
  assumes "find_index P xs = Some i"
  shows "i < length xs" and "P (xs ! i)"
  using assms by (simp_all add: find_index_Some_iff)

lemma find_index_ex:
  assumes "i < length xs" and "P (xs ! i)"
  shows "\<exists>j. find_index P xs = Some j \<and> j \<le> i"
proof (cases "find_index P xs")
  case None
  with assms show ?thesis by (auto simp: find_index_None_iff)
next
  case (Some j)
  with assms show ?thesis by (auto simp: find_index_Some_iff not_less [symmetric])
qed

lemma find_index_cong_set:
  assumes "length xs = length ys" and "\<And>i. i < length xs \<Longrightarrow> P (xs ! i) = Q (ys ! i)"
  shows "find_index P xs = find_index Q ys"
  using assms
proof (induction xs ys rule: list_induct2)
  case Nil
  then show ?case by simp
next
  case (Cons x xs y ys)
  from Cons.prems [of 0] have "P x = Q y" by simp
  moreover have "find_index P xs = find_index Q ys"
    using Cons.prems [of "Suc _"] by (intro Cons.IH) force
  ultimately show ?case by simp
qed

text \<open>A write to a slot that keeps a field does not change what is read of that field.\<close>

lemma map_update_same: "f k = f (xs ! i) \<Longrightarrow> map f (xs[i := k]) = map f xs"
  by (cases "i < length xs") (simp_all add: map_update list_update_same_conv list_update_beyond)

lemma nth_update_same: "f k = f (xs ! i) \<Longrightarrow> f (xs[i := k] ! j) = f (xs ! j)"
  by (cases "i < length xs"; cases "i = j") (simp_all add: list_update_beyond)

section \<open>Counting slots\<close>

definition count_slots :: "('a \<Rightarrow> bool) \<Rightarrow> 'a list \<Rightarrow> nat" where
  "count_slots P xs = length (filter P xs)"

lemma count_slots_le: "count_slots P xs \<le> length xs"
  by (simp add: count_slots_def)

lemma count_slots_update:
  assumes "i < length xs"
  shows "count_slots P (xs[i := x]) + (if P (xs ! i) then 1 else 0) =
         count_slots P xs + (if P x then 1 else 0)"
  using assms
proof (induction xs arbitrary: i)
  case Nil
  then show ?case by simp
next
  case (Cons y ys)
  then show ?case
    by (cases i) (auto simp: count_slots_def nth_Cons split: if_splits)
qed

lemma count_slots_full_iff: "count_slots P xs = length xs \<longleftrightarrow> (\<forall>x\<in>set xs. P x)"
  unfolding count_slots_def
  by (metis filter_True filter_id_conv length_filter_less nat_neq_iff)

lemma count_slots_0_iff: "count_slots P xs = 0 \<longleftrightarrow> (\<forall>x\<in>set xs. \<not> P x)"
  by (auto simp: count_slots_def filter_empty_conv)

section \<open>C integers\<close>

text \<open>An \<open>int\<close> counter after an increment, on a machine that wraps at 32 bits.\<close>

definition wrap32 :: "int \<Rightarrow> int" where
  "wrap32 x = (x + 2147483648) mod 4294967296 - 2147483648"

lemma wrap32_id: "-2147483648 \<le> x \<Longrightarrow> x < 2147483648 \<Longrightarrow> wrap32 x = x"
  by (simp add: wrap32_def)

lemma wrap32_range: "-2147483648 \<le> wrap32 x" "wrap32 x < 2147483648"
proof -
  have "0 \<le> (x + 2147483648) mod 4294967296" "(x + 2147483648) mod 4294967296 < 4294967296"
    by simp_all
  then show "-2147483648 \<le> wrap32 x" "wrap32 x < 2147483648"
    unfolding wrap32_def by linarith+
qed

lemma wrap32_sint: "wrap32 (sint (w :: u32)) = sint w"
  using sint_range_size [of w] by (intro wrap32_id) (simp_all add: word_size)

end
