(* ===== verification/Spinlock.thy ===== *)
theory Spinlock
  imports Xv6_Prelude
begin

text \<open>
  Processors and spin locks: \<open>spinlock.c\<close>, and \<open>mycpu\<close> of \<open>proc.c\<close>. The state is the
  array \<open>cpus\<close>, the local APIC id of the processor that executes the code, the interrupt
  flag of every processor, and every spin lock of the kernel by the object it protects.
  The debugging fields of a lock (its name and the recorded call stack) are not modelled.

  Spinning is \<open>Block\<close>: the \<open>xchg\<close> loop repeats a write that changes nothing until
  another processor releases the lock. The second half proves that nested sections
  restore the interrupt state and that at most one processor holds a lock, and gives the
  equations by which the other theories execute \<open>acquire\<close> and \<open>release\<close> symbolically.
\<close>

section \<open>State\<close>

text \<open>The spin locks of the kernel, by the object that contains them.\<close>

datatype sleeplock_id = InodeLock nat | BufLock nat

datatype lockid = PtableLock | StableLock | KmemLock | TicksLock | ConsLock | IdeLock
  | BcacheLock | IcacheLock | FtableLock | LogLock | PipeLock u32 | SleepLk sleeplock_id

text \<open>\<open>struct spinlock\<close> (\<open>spinlock.h\<close>): \<open>locked\<close>, and the holder as an index into \<open>cpus\<close>.\<close>

record spinlock =
  locked :: bool
  lcpu :: "nat option"

text \<open>\<open>struct cpu\<close> (\<open>proc.h\<close>); \<open>cproc\<close> is \<open>proc\<close>, an index into the process table.\<close>

record cpu =
  apicid :: u8
  ncli :: int
  intena :: bool
  cproc :: "nat option"

record mach =
  cpus :: "cpu list"
  hwid :: u8
  intr :: "u8 \<Rightarrow> bool"
  locks :: "lockid \<Rightarrow> spinlock"

section \<open>Operations\<close>

text \<open>\<open>readeflags() & FL_IF\<close>, \<open>cli\<close> and \<open>sti\<close> on the executing processor.\<close>

definition readeflags :: "'a mach_scheme \<Rightarrow> bool" where
  "readeflags s = intr s (hwid s)"

definition cli :: "'a mach_scheme \<Rightarrow> 'a mach_scheme" where
  "cli s = s\<lparr>intr := (intr s)(hwid s := False)\<rparr>"

definition sti :: "'a mach_scheme \<Rightarrow> 'a mach_scheme" where
  "sti s = s\<lparr>intr := (intr s)(hwid s := True)\<rparr>"

definition mycpu :: "'a mach_scheme \<Rightarrow> nat outcome" where
  "mycpu s =
     (if readeflags s then Panic ''mycpu called with interrupts enabled''
      else case find_index (\<lambda>c. apicid c = hwid s) (cpus s) of
             Some i \<Rightarrow> Ok i
           | None \<Rightarrow> Panic ''unknown apicid'')"

definition cpuid :: "'a mach_scheme \<Rightarrow> nat outcome" where
  "cpuid s = mycpu s"

definition initlock :: "lockid \<Rightarrow> 'a mach_scheme \<Rightarrow> 'a mach_scheme" where
  "initlock l s = s\<lparr>locks := (locks s)(l := \<lparr>locked = False, lcpu = None\<rparr>)\<rparr>"

definition pushcli :: "'a mach_scheme \<Rightarrow> 'a mach_scheme outcome" where
  "pushcli s =
     (let eflags = readeflags s; s1 = cli s in
      andthen (mycpu s1) (\<lambda>c.
        let k = cpus s1 ! c;
            k1 = (if ncli k = 0 then k\<lparr>intena := eflags\<rparr> else k)
        in Ok (s1\<lparr>cpus := (cpus s1)[c := k1\<lparr>ncli := ncli k1 + 1\<rparr>]\<rparr>)))"

definition popcli :: "'a mach_scheme \<Rightarrow> 'a mach_scheme outcome" where
  "popcli s =
     (if readeflags s then Panic ''popcli - interruptible''
      else andthen (mycpu s) (\<lambda>c.
        let k = cpus s ! c;
            k1 = k\<lparr>ncli := ncli k - 1\<rparr>;
            s1 = s\<lparr>cpus := (cpus s)[c := k1]\<rparr>
        in if ncli k1 < 0 then Panic ''popcli''
           else if ncli k1 = 0 \<and> intena k1 then Ok (sti s1)
           else Ok s1))"

definition holding :: "lockid \<Rightarrow> 'a mach_scheme \<Rightarrow> (bool \<times> 'a mach_scheme) outcome" where
  "holding l s =
     andthen (pushcli s) (\<lambda>s1.
     andthen (mycpu s1) (\<lambda>c.
       let r = (locked (locks s1 l) \<and> lcpu (locks s1 l) = Some c) in
     andthen (popcli s1) (\<lambda>s2. Ok (r, s2))))"

definition acquire :: "lockid \<Rightarrow> 'a mach_scheme \<Rightarrow> 'a mach_scheme outcome" where
  "acquire l s =
     andthen (pushcli s) (\<lambda>s1.
     andthen (holding l s1) (\<lambda>(h, s2).
       if h then Panic ''acquire''
       else if locked (locks s2 l) then Block
       else let s3 = s2\<lparr>locks := (locks s2)(l := (locks s2 l)\<lparr>locked := True\<rparr>)\<rparr> in
     andthen (mycpu s3) (\<lambda>c.
       Ok (s3\<lparr>locks := (locks s3)(l := (locks s3 l)\<lparr>lcpu := Some c\<rparr>)\<rparr>))))"

definition release :: "lockid \<Rightarrow> 'a mach_scheme \<Rightarrow> 'a mach_scheme outcome" where
  "release l s =
     andthen (holding l s) (\<lambda>(h, s1).
       if \<not> h then Panic ''release''
       else let s2 = s1\<lparr>locks := (locks s1)(l := (locks s1 l)\<lparr>lcpu := None\<rparr>)\<rparr>;
                s3 = s2\<lparr>locks := (locks s2)(l := (locks s2 l)\<lparr>locked := False\<rparr>)\<rparr>
            in popcli s3)"

text \<open>\<open>myproc\<close> of \<open>proc.c\<close>: the process the executing processor runs, if any.\<close>

definition myproc :: "'a mach_scheme \<Rightarrow> (nat option \<times> 'a mach_scheme) outcome" where
  "myproc s =
     andthen (pushcli s) (\<lambda>s1.
     andthen (mycpu s1) (\<lambda>c.
       let p = cproc (cpus s1 ! c) in
     andthen (popcli s1) (\<lambda>s2. Ok (p, s2))))"


section \<open>The executing processor\<close>

definition cur :: "'a mach_scheme \<Rightarrow> nat" where
  "cur s = (case find_index (\<lambda>c. apicid c = hwid s) (cpus s) of Some c \<Rightarrow> c | None \<Rightarrow> 0)"

abbreviation curcpu :: "'a mach_scheme \<Rightarrow> cpu" where
  "curcpu s \<equiv> cpus s ! cur s"

definition curproc :: "'a mach_scheme \<Rightarrow> nat option" where
  "curproc s = cproc (curcpu s)"

text \<open>
  What holds of the executing processor outside \<open>pushcli\<close> and \<open>popcli\<close>: it is listed in
  \<open>cpus\<close>, its nesting depth is not negative, and interrupts are off inside a section.
\<close>

definition cpu_ok :: "'a mach_scheme \<Rightarrow> bool" where
  "cpu_ok s \<longleftrightarrow> find_index (\<lambda>c. apicid c = hwid s) (cpus s) \<noteq> None \<and>
     0 \<le> ncli (curcpu s) \<and> (readeflags s \<longrightarrow> ncli (curcpu s) = 0)"

definition lock_free :: "lockid \<Rightarrow> 'a mach_scheme \<Rightarrow> bool" where
  "lock_free l s \<longleftrightarrow> locks s l = \<lparr>locked = False, lcpu = None\<rparr>"

definition held :: "lockid \<Rightarrow> 'a mach_scheme \<Rightarrow> bool" where
  "held l s \<longleftrightarrow> locked (locks s l) \<and> lcpu (locks s l) = Some (cur s)"

definition in_section :: "'a mach_scheme \<Rightarrow> bool" where
  "in_section s \<longleftrightarrow> 0 < ncli (curcpu s) \<and> \<not> readeflags s"

definition saved_intena :: "'a mach_scheme \<Rightarrow> bool" where
  "saved_intena s = (if ncli (curcpu s) = 0 then readeflags s else intena (curcpu s))"

text \<open>The state after a successful \<open>acquire\<close>, after \<open>release\<close>, and after the two.\<close>

definition acquired :: "lockid \<Rightarrow> 'a mach_scheme \<Rightarrow> 'a mach_scheme" where
  "acquired l s =
     s\<lparr>cpus := (cpus s)[cur s := (curcpu s)\<lparr>ncli := ncli (curcpu s) + 1, intena := saved_intena s\<rparr>],
       intr := (intr s)(hwid s := False),
       locks := (locks s)(l := \<lparr>locked = True, lcpu = Some (cur s)\<rparr>)\<rparr>"

definition released :: "lockid \<Rightarrow> 'a mach_scheme \<Rightarrow> 'a mach_scheme" where
  "released l s =
     s\<lparr>cpus := (cpus s)[cur s := (curcpu s)\<lparr>ncli := ncli (curcpu s) - 1\<rparr>],
       intr := (if ncli (curcpu s) = 1 \<and> intena (curcpu s)
                then (intr s)(hwid s := True) else intr s),
       locks := (locks s)(l := \<lparr>locked = False, lcpu = None\<rparr>)\<rparr>"

definition touched :: "'a mach_scheme \<Rightarrow> 'a mach_scheme" where
  "touched s = s\<lparr>cpus := (cpus s)[cur s := (curcpu s)\<lparr>intena := saved_intena s\<rparr>]\<rparr>"

lemma find_index_update_apicid:
  assumes "i < length cs" and "apicid k = apicid (cs ! i)"
  shows "find_index (\<lambda>c. apicid c = h) (cs[i := k]) = find_index (\<lambda>c. apicid c = h) cs"
  using assms by (intro find_index_cong_set) (auto simp: nth_list_update)

lemma cur_less: "cpu_ok s \<Longrightarrow> cur s < length (cpus s)"
  by (auto simp: cpu_ok_def cur_def dest: find_index_SomeD)

lemma find_cur: "cpu_ok s \<Longrightarrow> find_index (\<lambda>c. apicid c = hwid s) (cpus s) = Some (cur s)"
  by (auto simp: cpu_ok_def cur_def)

text \<open>Writing back the executing processor with the same APIC id does not move it.\<close>

lemma cur_update:
  assumes "cpu_ok s" and "apicid k = apicid (curcpu s)"
  shows "cur (s\<lparr>cpus := (cpus s)[cur s := k]\<rparr>) = cur s"
  using find_index_update_apicid [OF cur_less [OF assms(1)] assms(2), of "hwid s"]
  by (simp add: cur_def)

lemma cur_cong:
  "cur (s\<lparr>intr := x\<rparr>) = cur s" "cur (s\<lparr>locks := y\<rparr>) = cur s"
  by (simp_all add: cur_def)

lemma hw_fields [simp]:
  "hwid (acquired l s) = hwid s" "hwid (released l s) = hwid s" "hwid (touched s) = hwid s"
  "locks (touched s) = locks s" "intr (touched s) = intr s"
  by (simp_all add: acquired_def released_def touched_def)


section \<open>Nesting of \<open>pushcli\<close> and \<open>popcli\<close>\<close>

definition pushed :: "'a mach_scheme \<Rightarrow> 'a mach_scheme" where
  "pushed s =
     s\<lparr>cpus := (cpus s)[cur s := (curcpu s)\<lparr>ncli := ncli (curcpu s) + 1, intena := saved_intena s\<rparr>],
       intr := (intr s)(hwid s := False)\<rparr>"

definition popped :: "'a mach_scheme \<Rightarrow> 'a mach_scheme" where
  "popped s =
     s\<lparr>cpus := (cpus s)[cur s := (curcpu s)\<lparr>ncli := ncli (curcpu s) - 1\<rparr>],
       intr := (if ncli (curcpu s) = 1 \<and> intena (curcpu s)
                then (intr s)(hwid s := True) else intr s)\<rparr>"

lemma mycpu_ok: "cpu_ok s \<Longrightarrow> \<not> readeflags s \<Longrightarrow> mycpu s = Ok (cur s)"
  by (simp add: mycpu_def find_cur)

lemma find_updated:
  "cpu_ok s \<Longrightarrow> apicid k = apicid (curcpu s) \<Longrightarrow>
   find_index (\<lambda>c. apicid c = hwid s) ((cpus s)[cur s := k]) = Some (cur s)"
  using find_index_update_apicid [OF cur_less, of s k "hwid s"] by (simp add: find_cur)

lemma cur_pushed [simp]: "cpu_ok s \<Longrightarrow> cur (pushed s) = cur s"
  using find_updated [of s] by (simp add: cur_def [of "pushed s"]) (simp add: pushed_def)

lemma cur_popped [simp]: "cpu_ok s \<Longrightarrow> cur (popped s) = cur s"
  using find_updated [of s] by (simp add: cur_def [of "popped s"]) (simp add: popped_def)

lemma cur_touched [simp]: "cpu_ok s \<Longrightarrow> cur (touched s) = cur s"
  using find_updated [of s] by (simp add: cur_def [of "touched s"]) (simp add: touched_def)

lemma curcpu_pushed:
  "cpu_ok s \<Longrightarrow> curcpu (pushed s) = (curcpu s)\<lparr>ncli := ncli (curcpu s) + 1, intena := saved_intena s\<rparr>"
  by (simp add: cur_less) (simp add: pushed_def cur_less)

lemma curcpu_popped:
  "cpu_ok s \<Longrightarrow> curcpu (popped s) = (curcpu s)\<lparr>ncli := ncli (curcpu s) - 1\<rparr>"
  by (simp add: cur_less) (simp add: popped_def cur_less)

lemma curcpu_touched:
  "cpu_ok s \<Longrightarrow> curcpu (touched s) = (curcpu s)\<lparr>intena := saved_intena s\<rparr>"
  by (simp add: cur_less) (simp add: touched_def cur_less)

lemma section_pushed: "cpu_ok s \<Longrightarrow> in_section (pushed s)"
  using curcpu_pushed [of s]
  by (simp add: in_section_def cpu_ok_def readeflags_def) (simp add: pushed_def)

lemma cpu_ok_pushed: "cpu_ok s \<Longrightarrow> cpu_ok (pushed s)"
  using section_pushed [of s] find_updated [of s]
  by (simp add: cpu_ok_def in_section_def) (simp add: pushed_def)

lemma cpu_upd_comm: "(k :: cpu)\<lparr>intena := a, ncli := b\<rparr> = k\<lparr>ncli := b, intena := a\<rparr>"
  by (cases k) simp

lemma pushcli_ok: "cpu_ok s \<Longrightarrow> pushcli s = Ok (pushed s)"
proof -
  assume ok: "cpu_ok s"
  have m: "mycpu (cli s) = Ok (cur s)"
    using find_cur [OF ok] by (simp add: mycpu_def cli_def readeflags_def)
  show ?thesis
    using m by (simp add: pushcli_def Let_def cli_def pushed_def saved_intena_def cpu_upd_comm)
qed

lemma popcli_ok:
  assumes "cpu_ok s" and "in_section s"
  shows "popcli s = Ok (popped s)"
proof -
  from assms have m: "mycpu s = Ok (cur s)"
    by (simp add: mycpu_ok in_section_def)
  have "0 < ncli (curcpu s)" and "\<not> readeflags s"
    using assms(2) by (simp_all add: in_section_def)
  then show ?thesis
    by (simp add: popcli_def m Let_def popped_def sti_def)
qed

text \<open>It takes one \<open>popcli\<close> to undo one \<open>pushcli\<close>, whatever the depth.\<close>

lemma popped_pushed: "cpu_ok s \<Longrightarrow> popped (pushed s) = touched s"
proof -
  assume ok: "cpu_ok s"
  have on: "ncli (curcpu s) = 0 \<and> saved_intena s \<Longrightarrow> (intr s)(hwid s := True) = intr s"
    by (auto simp: saved_intena_def readeflags_def fun_eq_iff)
  have off: "\<not> (ncli (curcpu s) = 0 \<and> saved_intena s) \<Longrightarrow> (intr s)(hwid s := False) = intr s"
    using ok by (auto simp: cpu_ok_def saved_intena_def readeflags_def fun_eq_iff)
  show ?thesis
    using ok cur_less [OF ok] curcpu_pushed [OF ok] on off
    by (simp add: popped_def) (simp add: pushed_def touched_def)
qed

lemma touched_section: "cpu_ok s \<Longrightarrow> in_section s \<Longrightarrow> touched s = s"
  by (simp add: touched_def in_section_def saved_intena_def cur_less)

lemma saved_intena_touched [simp]: "cpu_ok s \<Longrightarrow> saved_intena (touched s) = saved_intena s"
  using curcpu_touched [of s] by (simp add: saved_intena_def readeflags_def)

lemma touched_touched: "cpu_ok s \<Longrightarrow> touched (touched s) = touched s"
  using curcpu_touched [of s] cur_less [of s]
  by (simp add: touched_def [of "touched s"]) (simp add: touched_def)

lemma cpu_ok_touched [simp]: "cpu_ok s \<Longrightarrow> cpu_ok (touched s)"
  using curcpu_touched [of s] find_updated [of s]
  by (simp add: cpu_ok_def readeflags_def) (simp add: touched_def)


lemma cpu_ok_popped: "cpu_ok s \<Longrightarrow> in_section s \<Longrightarrow> cpu_ok (popped s)"
  using curcpu_popped [of s] find_updated [of s]
  by (simp add: cpu_ok_def readeflags_def in_section_def)
    (auto simp: popped_def readeflags_def)

section \<open>Acquiring and releasing\<close>

lemma acquired_pushed:
  "acquired l s = (pushed s)\<lparr>locks := (locks s)(l := \<lparr>locked = True, lcpu = Some (cur s)\<rparr>)\<rparr>"
  by (simp add: acquired_def pushed_def)

lemma released_popped:
  "released l s = (popped s)\<lparr>locks := (locks s)(l := \<lparr>locked = False, lcpu = None\<rparr>)\<rparr>"
  by (simp add: released_def popped_def)

lemma locks_pushed [simp]: "locks (pushed s) = locks s" "locks (popped s) = locks s"
  by (simp_all add: pushed_def popped_def)

lemma cpu_ok_locks [simp]: "cpu_ok (s\<lparr>locks := x\<rparr>) = cpu_ok s"
  by (simp add: cpu_ok_def cur_cong readeflags_def)

lemma in_section_locks [simp]: "in_section (s\<lparr>locks := x\<rparr>) = in_section s"
  by (simp add: in_section_def cur_cong readeflags_def)

lemma spinlock_all [simp]:
  "(k :: spinlock)\<lparr>locked := a, lcpu := b\<rparr> = \<lparr>locked = a, lcpu = b\<rparr>"
  "(k :: spinlock)\<lparr>lcpu := b, locked := a\<rparr> = \<lparr>locked = a, lcpu = b\<rparr>"
  by (cases k; simp)+

lemma holding_ok:
  assumes "cpu_ok s"
  shows "holding l s = Ok (held l s, touched s)"
proof -
  have "mycpu (pushed s) = Ok (cur s)"
    using assms section_pushed [OF assms] by (simp add: mycpu_ok cpu_ok_pushed in_section_def)
  moreover have "popcli (pushed s) = Ok (touched s)"
    using assms by (simp add: popcli_ok cpu_ok_pushed section_pushed popped_pushed)
  ultimately show ?thesis
    by (simp add: holding_def pushcli_ok assms held_def Let_def)
qed

lemma myproc_ok:
  assumes "cpu_ok s"
  shows "myproc s = Ok (curproc s, touched s)"
proof -
  have "mycpu (pushed s) = Ok (cur s)"
    using assms section_pushed [OF assms] by (simp add: mycpu_ok cpu_ok_pushed in_section_def)
  moreover have "popcli (pushed s) = Ok (touched s)"
    using assms by (simp add: popcli_ok cpu_ok_pushed section_pushed popped_pushed)
  moreover have "cproc (cpus (pushed s) ! cur s) = cproc (curcpu s)"
    using curcpu_pushed [OF assms] assms by simp
  ultimately show ?thesis
    by (simp add: myproc_def pushcli_ok assms curproc_def)
qed

lemma acquire_cases:
  assumes "cpu_ok s"
  shows "acquire l s =
    (if held l s then Panic ''acquire''
     else if locked (locks s l) then Block
     else Ok (acquired l s))"
proof -
  have p: "cpu_ok (pushed s)" "in_section (pushed s)" "touched (pushed s) = pushed s"
    using assms cpu_ok_pushed section_pushed touched_section by blast+
  have h: "holding l (pushed s) = Ok (held l s, pushed s)"
    using p assms by (simp add: holding_ok held_def)
  have "mycpu ((pushed s)\<lparr>locks := x\<rparr>) = Ok (cur s)" for x
    using p assms by (subst mycpu_ok) (simp_all add: in_section_def cur_cong readeflags_def)
  then show ?thesis
    by (simp add: acquire_def pushcli_ok assms h Let_def acquired_pushed)
qed

lemma acquire_free: "cpu_ok s \<Longrightarrow> lock_free l s \<Longrightarrow> acquire l s = Ok (acquired l s)"
  by (simp add: acquire_cases held_def lock_free_def)

lemma release_held:
  assumes "cpu_ok s" and "in_section s" and "held l s"
  shows "release l s = Ok (released l s)"
proof -
  have "popcli (s\<lparr>locks := x\<rparr>) = Ok ((popped s)\<lparr>locks := x\<rparr>)" for x
    using assms by (subst popcli_ok) (simp_all add: popped_def cur_cong)
  then show ?thesis
    using assms by (simp add: release_def holding_ok touched_section Let_def released_popped)
qed

lemma release_not_held:
  "cpu_ok s \<Longrightarrow> \<not> held l s \<Longrightarrow> release l s = Panic ''release''"
  by (simp add: release_def holding_ok)


section \<open>Symbolic execution of critical sections\<close>

text \<open>
  The equations below normalise a run of \<open>acquire\<close>, \<open>release\<close> and \<open>myproc\<close>: a matched
  pair leaves \<open>touched s\<close>, which differs from \<open>s\<close> in the saved \<open>intena\<close> at most, and
  handing over from one lock to another (as \<open>sleep\<close> does) leaves the second lock only.
\<close>

lemma cpu_ok_acquired [simp]: "cpu_ok s \<Longrightarrow> cpu_ok (acquired l s)"
  by (simp add: acquired_pushed cpu_ok_pushed)

lemma in_section_acquired [simp]: "cpu_ok s \<Longrightarrow> in_section (acquired l s)"
  by (simp add: acquired_pushed section_pushed)

lemma cur_acquired [simp]: "cpu_ok s \<Longrightarrow> cur (acquired l s) = cur s"
  by (simp add: acquired_pushed cur_cong)

lemma cur_released [simp]: "cpu_ok s \<Longrightarrow> cur (released l s) = cur s"
  by (simp add: released_popped cur_cong)

lemma curcpu_acquired:
  "cpu_ok s \<Longrightarrow> curcpu (acquired l s) = (curcpu s)\<lparr>ncli := ncli (curcpu s) + 1, intena := saved_intena s\<rparr>"
  using curcpu_pushed [of s] by (simp add: acquired_pushed cur_cong)

lemma cpus_acquired: "cpu_ok s \<Longrightarrow> cpus (acquired l s) = (cpus s)[cur s := curcpu (acquired l s)]"
  using curcpu_acquired [of s l] by simp (simp add: acquired_def)

lemma curcpu_released:
  "cpu_ok s \<Longrightarrow> curcpu (released l s) = (curcpu s)\<lparr>ncli := ncli (curcpu s) - 1\<rparr>"
  using curcpu_popped [of s] by (simp add: released_popped cur_cong)

lemma cpu_ok_released [simp]: "cpu_ok s \<Longrightarrow> in_section s \<Longrightarrow> cpu_ok (released l s)"
  by (simp add: released_popped cpu_ok_popped)

lemma locks_acquired:
  "locks (acquired l s) = (locks s)(l := \<lparr>locked = True, lcpu = Some (cur s)\<rparr>)"
  by (simp add: acquired_def)

lemma locks_released:
  "locks (released l s) = (locks s)(l := \<lparr>locked = False, lcpu = None\<rparr>)"
  by (simp add: released_def)

lemma intr_acquired: "intr (acquired l s) = (intr s)(hwid s := False)"
  by (simp add: acquired_def)

lemma more_acquired: "mach.more (acquired l s) = mach.more s"
  by (simp add: acquired_def)

lemma more_released: "mach.more (released l s) = mach.more s"
  by (simp add: released_def)

lemma held_acquired [simp]:
  "cpu_ok s \<Longrightarrow> held l' (acquired l s) = (l' = l \<or> held l' s)"
  by (auto simp: held_def locks_acquired)

lemma held_released:
  "cpu_ok s \<Longrightarrow> held l' (released l s) = (l' \<noteq> l \<and> held l' s)"
  by (auto simp: held_def locks_released)

lemma lock_free_acquired [simp]:
  "lock_free l' (acquired l s) = (l' \<noteq> l \<and> lock_free l' s)"
  by (auto simp: lock_free_def locks_acquired)

lemma lock_free_released:
  "lock_free l' (released l s) = (l' = l \<or> lock_free l' s)"
  by (auto simp: lock_free_def locks_released)

lemma lock_free_touched [simp]: "lock_free l (touched s) = lock_free l s"
  by (simp add: lock_free_def)

lemma held_touched [simp]: "cpu_ok s \<Longrightarrow> held l (touched s) = held l s"
  by (simp add: held_def)

lemma held_not_free: "held l s \<Longrightarrow> \<not> lock_free l s"
  by (auto simp: held_def lock_free_def)

lemma in_section_touched [simp]: "cpu_ok s \<Longrightarrow> in_section (touched s) = in_section s"
  using curcpu_touched [of s] by (simp add: in_section_def readeflags_def)

lemma curproc_acquired [simp]: "cpu_ok s \<Longrightarrow> curproc (acquired l s) = curproc s"
  using curcpu_acquired [of s l] by (simp add: curproc_def)

lemma curproc_released [simp]: "cpu_ok s \<Longrightarrow> curproc (released l s) = curproc s"
  using curcpu_released [of s l] by (simp add: curproc_def)

lemma curproc_touched [simp]: "cpu_ok s \<Longrightarrow> curproc (touched s) = curproc s"
  using curcpu_touched [of s] by (simp add: curproc_def)

lemma touched_acquired [simp]: "cpu_ok s \<Longrightarrow> touched (acquired l s) = acquired l s"
  by (simp add: touched_section)

lemma acquired_touched [simp]: "cpu_ok s \<Longrightarrow> acquired l (touched s) = acquired l s"
  using curcpu_touched [of s] cur_less [of s]
  by (simp add: acquired_def [of l "touched s"]) (simp add: acquired_def touched_def)

lemma released_acquired:
  assumes "cpu_ok s" and "lock_free l s"
  shows "released l (acquired l s) = touched s"
proof -
  have "popped ((pushed s)\<lparr>locks := x\<rparr>) = (touched s)\<lparr>locks := x\<rparr>" for x
  proof -
    have "popped ((pushed s)\<lparr>locks := x\<rparr>) = (popped (pushed s))\<lparr>locks := x\<rparr>"
      by (simp add: popped_def cur_cong)
    then show ?thesis by (simp add: popped_pushed assms)
  qed
  moreover have "(locks s)(l := \<lparr>locked = False, lcpu = None\<rparr>) = locks s"
    using assms(2) by (auto simp: lock_free_def fun_eq_iff)
  ultimately show ?thesis
    by (simp add: released_popped locks_acquired) (simp add: acquired_pushed touched_def)
qed

text \<open>The hand-over of \<open>sleep\<close>: take the second lock, then drop the first.\<close>

lemma released_handover:
  assumes "cpu_ok s" and "lock_free l s" and "l \<noteq> l'"
  shows "released l (acquired l' (acquired l s)) = acquired l' s"
proof -
  let ?a = "acquired l' (acquired l s)"
  have len: "cur s < length (cpus s)" using assms(1) by (rule cur_less)
  have n: "0 \<le> ncli (curcpu s)" using assms(1) by (simp add: cpu_ok_def)
  have k: "curcpu ?a = (curcpu s)\<lparr>ncli := ncli (curcpu s) + 2, intena := saved_intena s\<rparr>"
    using assms n curcpu_acquired [of "acquired l s" l'] curcpu_acquired [of s l]
    by (simp add: saved_intena_def [of "acquired l s"])
  have "cpus ?a = (cpus s)[cur s := curcpu ?a]"
    using assms(1)
    by (metis cpu_ok_acquired cpus_acquired cur_acquired list_update_overwrite)
  then have c: "cpus (released l ?a) = (cpus s)[cur s := (curcpu ?a)\<lparr>ncli := ncli (curcpu ?a) - 1\<rparr>]"
    using assms by (simp add: released_def) (metis list_update_overwrite)
  show ?thesis
  proof (rule mach.equality)
    show "cpus (released l ?a) = cpus (acquired l' s)"
      using c k by (simp add: acquired_def [of l' s] add.commute cpu_upd_comm)
    show "intr (released l ?a) = intr (acquired l' s)"
      using k n by (simp add: released_def intr_acquired)
    show "locks (released l ?a) = locks (acquired l' s)"
      using assms by (auto simp: locks_released locks_acquired lock_free_def fun_eq_iff)
  qed (simp_all add: more_acquired more_released)
qed


section \<open>Several processors\<close>

text \<open>
  Any processor of the machine may execute next. \<open>crit\<close> records who is between its
  \<open>acquire\<close> and its \<open>release\<close> of which lock; it is not part of the kernel's state.
\<close>

inductive spin_step :: "mach \<times> (nat \<times> lockid) set \<Rightarrow> mach \<times> (nat \<times> lockid) set \<Rightarrow> bool" where
  switch: "k \<in> set (cpus m) \<Longrightarrow> spin_step (m, crit) (m\<lparr>hwid := apicid k\<rparr>, crit)"
| acq: "acquire l m = Ok m' \<Longrightarrow> spin_step (m, crit) (m', insert (cur m, l) crit)"
| rel: "release l m = Ok m' \<Longrightarrow> spin_step (m, crit) (m', crit - {(cur m, l)})"

inductive spin_reachable :: "mach \<times> (nat \<times> lockid) set \<Rightarrow> bool" where
  boot: "distinct (map apicid (cpus m)) \<Longrightarrow> hwid m \<in> apicid ` set (cpus m) \<Longrightarrow>
    (\<And>l. lock_free l m) \<Longrightarrow> (\<And>k. k \<in> set (cpus m) \<Longrightarrow> ncli k = 0) \<Longrightarrow> spin_reachable (m, {})"
| more: "spin_reachable x \<Longrightarrow> spin_step x y \<Longrightarrow> spin_reachable y"

definition spin_inv :: "mach \<times> (nat \<times> lockid) set \<Rightarrow> bool" where
  "spin_inv x \<longleftrightarrow>
     (let m = fst x; crit = snd x in
      distinct (map apicid (cpus m)) \<and> hwid m \<in> apicid ` set (cpus m) \<and> finite crit \<and>
      (\<forall>c l. (c, l) \<in> crit \<longleftrightarrow> c < length (cpus m) \<and> locked (locks m l) \<and> lcpu (locks m l) = Some c) \<and>
      (\<forall>c<length (cpus m). ncli (cpus m ! c) = int (card {l. (c, l) \<in> crit}) \<and>
         (0 < ncli (cpus m ! c) \<longrightarrow> \<not> intr m (apicid (cpus m ! c)))))"

lemma spin_inv_cpu_ok:
  assumes "spin_inv (m, crit)"
  shows "cpu_ok m" and "hwid m = apicid (curcpu m)"
proof -
  from assms have "find_index (\<lambda>c. apicid c = hwid m) (cpus m) \<noteq> None"
    by (force simp: spin_inv_def find_index_None_iff Let_def)
  then obtain c where c: "find_index (\<lambda>k. apicid k = hwid m) (cpus m) = Some c"
    by blast
  then have cc: "cur m = c" "c < length (cpus m)" "apicid (cpus m ! c) = hwid m"
    by (auto simp: cur_def dest: find_index_SomeD)
  then show "hwid m = apicid (curcpu m)" by simp
  show "cpu_ok m"
    using assms c cc by (auto simp: cpu_ok_def spin_inv_def readeflags_def Let_def)
qed


lemma finite_section: "finite crit \<Longrightarrow> finite {l. (c, l) \<in> crit}"
  by (rule finite_subset [of _ "snd ` crit"]) force+

lemma spin_acquire_inv:
  assumes inv: "spin_inv (m, crit)" and ok: "acquire l m = Ok m'"
  shows "spin_inv (m', insert (cur m, l) crit)"
proof -
  note c = spin_inv_cpu_ok [OF inv]
  have len: "cur m < length (cpus m)" using c(1) by (rule cur_less)
  from ok c(1) have m': "m' = acquired l m" and free: "\<not> locked (locks m l)"
    by (auto simp: acquire_cases split: if_splits)
  have cp: "cpus m' = (cpus m)[cur m := (curcpu m)\<lparr>ncli := ncli (curcpu m) + 1, intena := saved_intena m\<rparr>]"
    by (simp add: m' acquired_def)
  have im: "intr m' = (intr m)(hwid m := False)" by (simp add: m' intr_acquired)
  have ap: "map apicid (cpus m') = map apicid (cpus m)"
    using len by (simp add: cp map_update list_update_same_conv)
  have new: "(cur m, l) \<notin> crit" and fin: "finite crit"
    using inv free by (auto simp: spin_inv_def Let_def)
  have "{l'. (cur m, l') \<in> insert (cur m, l) crit} = insert l {l'. (cur m, l') \<in> crit}" by auto
  moreover have "finite {l'. (cur m, l') \<in> crit}"
    using fin by (rule finite_section)
  ultimately have card: "card {l'. (cur m, l') \<in> insert (cur m, l) crit} = Suc (card {l'. (cur m, l') \<in> crit})"
    using new by simp
  have other: "c \<noteq> cur m \<Longrightarrow> {l'. (c, l') \<in> insert (cur m, l) crit} = {l'. (c, l') \<in> crit}" for c
    by auto
  have "ncli (cpus m' ! i) = int (card {l'. (i, l') \<in> insert (cur m, l) crit}) \<and>
         (0 < ncli (cpus m' ! i) \<longrightarrow> \<not> intr m' (apicid (cpus m' ! i)))" if "i < length (cpus m)" for i
    using inv that card other [of i] c
    by (cases "i = cur m") (auto simp: spin_inv_def Let_def cp im)
  moreover have "hwid m' \<in> apicid ` set (cpus m')"
  proof -
    have "hwid m' \<in> set (map apicid (cpus m'))"
      unfolding ap using inv by (simp add: m' spin_inv_def Let_def)
    then show ?thesis by simp
  qed
  ultimately show ?thesis
    using inv fin free ap len cp
    by (auto simp: spin_inv_def Let_def m' locks_acquired)
qed

lemma spin_release_inv:
  assumes inv: "spin_inv (m, crit)" and ok: "release l m = Ok m'"
  shows "spin_inv (m', crit - {(cur m, l)})"
proof -
  note c = spin_inv_cpu_ok [OF inv]
  have len: "cur m < length (cpus m)" using c(1) by (rule cur_less)
  have h: "held l m" using ok c(1) by (rule_tac ccontr) (simp add: release_not_held)
  have fin: "finite crit" and old: "(cur m, l) \<in> crit"
    using inv h len by (auto simp: spin_inv_def Let_def held_def)
  have fin': "finite {l'. (cur m, l') \<in> crit}"
    using fin by (rule finite_section)
  have n: "ncli (curcpu m) = int (card {l'. (cur m, l') \<in> crit})"
    using inv len by (simp add: spin_inv_def Let_def)
  have pos: "0 < card {l'. (cur m, l') \<in> crit}"
    using fin' old by (auto simp: card_gt_0_iff)
  have sec: "in_section m"
    using inv len n pos c(2) by (auto simp: in_section_def readeflags_def spin_inv_def Let_def)
  from ok have m': "m' = released l m" using release_held [OF c(1) sec h] by simp
  have cp: "cpus m' = (cpus m)[cur m := (curcpu m)\<lparr>ncli := ncli (curcpu m) - 1\<rparr>]"
    by (simp add: m' released_def)
  have im: "intr m' = (if ncli (curcpu m) = 1 \<and> intena (curcpu m)
      then (intr m)(hwid m := True) else intr m)"
    by (simp add: m' released_def)
  have ap: "map apicid (cpus m') = map apicid (cpus m)"
    using len by (simp add: cp map_update list_update_same_conv)
  have "{l'. (cur m, l') \<in> crit - {(cur m, l)}} = {l'. (cur m, l') \<in> crit} - {l}" by auto
  then have card: "int (card {l'. (cur m, l') \<in> crit - {(cur m, l)}}) = int (card {l'. (cur m, l') \<in> crit}) - 1"
    using old fin' pos by simp
  have other: "i \<noteq> cur m \<Longrightarrow> {l'. (i, l') \<in> crit - {(cur m, l)}} = {l'. (i, l') \<in> crit}" for i
    by auto
  have apic: "i < length (cpus m) \<Longrightarrow> i \<noteq> cur m \<Longrightarrow> apicid (cpus m ! i) \<noteq> hwid m" for i
    using inv len c(2) by (auto simp: spin_inv_def Let_def distinct_conv_nth)
  have "ncli (cpus m' ! i) = int (card {l'. (i, l') \<in> crit - {(cur m, l)}}) \<and>
         (0 < ncli (cpus m' ! i) \<longrightarrow> \<not> intr m' (apicid (cpus m' ! i)))" if i: "i < length (cpus m)" for i
  proof (cases "i = cur m")
    case True
    then show ?thesis
      using i inv card n c by (auto simp: cp im spin_inv_def Let_def)
  next
    case False
    then show ?thesis
      using i inv other [of i] apic [of i] by (auto simp: cp im spin_inv_def Let_def)
  qed
  moreover have "hwid m' \<in> apicid ` set (cpus m')"
  proof -
    have "hwid m' \<in> set (map apicid (cpus m'))"
      unfolding ap using inv by (simp add: m' spin_inv_def Let_def)
    then show ?thesis by simp
  qed
  ultimately show ?thesis
    using inv fin ap len cp h
    by (auto simp: spin_inv_def Let_def m' locks_released held_def)
qed

lemma spin_reachable_inv: "spin_reachable x \<Longrightarrow> spin_inv x"
proof (induction rule: spin_reachable.induct)
  case (boot m)
  then show ?case by (auto simp: spin_inv_def Let_def lock_free_def)
next
  case (more x y)
  from more.hyps(2) more.IH show ?case
  proof cases
    case (switch k m crit)
    then show ?thesis using more.IH by (auto simp: spin_inv_def Let_def)
  qed (auto intro: spin_acquire_inv spin_release_inv)
qed

section \<open>What the lock operations leave alone\<close>

text \<open>Whatever the state, a lock operation that returns has changed locks and processors only.\<close>

lemma pushcli_more: "pushcli s = Ok s' \<Longrightarrow> mach.more s' = mach.more s"
  by (auto simp: pushcli_def cli_def Let_def andthen_Ok_iff)

lemma popcli_more: "popcli s = Ok s' \<Longrightarrow> mach.more s' = mach.more s"
  by (auto simp: popcli_def sti_def Let_def andthen_Ok_iff split: if_splits)

lemma holding_more: "holding l s = Ok (h, s') \<Longrightarrow> mach.more s' = mach.more s"
  by (auto simp: holding_def Let_def andthen_Ok_iff dest!: pushcli_more popcli_more)

lemma myproc_more: "myproc s = Ok (p, s') \<Longrightarrow> mach.more s' = mach.more s"
  by (auto simp: myproc_def Let_def andthen_Ok_iff dest!: pushcli_more popcli_more)

lemma acquire_more: "acquire l s = Ok s' \<Longrightarrow> mach.more s' = mach.more s"
  by (auto simp: acquire_def Let_def andthen_Ok_iff dest!: pushcli_more holding_more split: if_splits)

lemma release_more: "release l s = Ok s' \<Longrightarrow> mach.more s' = mach.more s"
  by (auto simp: release_def Let_def andthen_Ok_iff dest!: holding_more popcli_more split: if_splits)

lemmas lock_ops_more = acquire_more release_more myproc_more holding_more


lemmas lock_layer_defs = cur_def cpu_ok_def readeflags_def lock_free_def held_def in_section_def
  curproc_def saved_intena_def acquired_def released_def touched_def

section \<open>Properties\<close>

text \<open>
  C10: Mutual exclusion: in every state that any interleaving of \<open>acquire\<close> and \<open>release\<close> calls of any
  number of processors can reach, at most one processor is inside the section of a lock, the
  lock records that processor, and interrupts are off on it, so that no handler can ask for
  the lock again.
\<close>

theorem spinlock_mutual_exclusion:
  assumes "spin_reachable (m, crit)" and "(c, l) \<in> crit" and "(d, l) \<in> crit"
  shows "c = d \<and> locked (locks m l) \<and> lcpu (locks m l) = Some c \<and> \<not> intr m (apicid (cpus m ! c))"
proof -
  have inv: "spin_inv (m, crit)" using assms(1) by (rule spin_reachable_inv)
  have c: "c < length (cpus m)" "locked (locks m l)" "lcpu (locks m l) = Some c" "lcpu (locks m l) = Some d"
    using inv assms(2,3) unfolding spin_inv_def Let_def fst_conv snd_conv by blast+
  have "finite crit" using inv by (simp add: spin_inv_def Let_def)
  then have "finite {l'. (c, l') \<in> crit}" "l \<in> {l'. (c, l') \<in> crit}"
    using assms(2) finite_section [of crit c] by simp_all
  then have "0 < card {l'. (c, l') \<in> crit}" by (auto simp: card_gt_0_iff)
  moreover have "ncli (cpus m ! c) = int (card {l'. (c, l') \<in> crit}) \<and>
      (0 < ncli (cpus m ! c) \<longrightarrow> \<not> intr m (apicid (cpus m ! c)))"
    using inv c(1) unfolding spin_inv_def Let_def fst_conv snd_conv by blast
  ultimately have "\<not> intr m (apicid (cpus m ! c))" by linarith
  then show ?thesis using c by simp
qed

definition demo_cpu :: "u8 \<Rightarrow> cpu" where
  "demo_cpu a = \<lparr>apicid = a, ncli = 0, intena = False, cproc = None\<rparr>"

definition demo_mach :: mach where
  "demo_mach = \<lparr>cpus = [demo_cpu 0, demo_cpu 1], hwid = 1, intr = (\<lambda>_. True),
     locks = (\<lambda>_. \<lparr>locked = False, lcpu = None\<rparr>)\<rparr>"

lemma demo_mach_ok: "cpu_ok demo_mach" "cur demo_mach = 1" "lock_free l demo_mach"
  by (simp_all add: cpu_ok_def demo_mach_def demo_cpu_def cur_def lock_free_def readeflags_def)

theorem spinlock_mutual_exclusion_witness:
  "spin_reachable (acquired PtableLock demo_mach, {(1, PtableLock)}) \<and>
   lcpu (locks (acquired PtableLock demo_mach) PtableLock) = Some 1"
proof -
  have "spin_reachable (demo_mach, {})"
    by (rule spin_reachable.boot) (auto simp: demo_mach_def demo_cpu_def lock_free_def)
  moreover have "spin_step (demo_mach, {}) (acquired PtableLock demo_mach, {(1, PtableLock)})"
    using spin_step.acq [of PtableLock demo_mach "acquired PtableLock demo_mach" "{}"] demo_mach_ok
    by (simp add: acquire_free)
  ultimately have "spin_reachable (acquired PtableLock demo_mach, {(1, PtableLock)})"
    by (rule spin_reachable.more)
  then show ?thesis
    using spinlock_mutual_exclusion [of "acquired PtableLock demo_mach" "{(1, PtableLock)}" 1 PtableLock 1] by simp
qed

text \<open>
  C19: A section entered with the lock free and left again puts the machine back as it was: the
  locks, the interrupt flag of every processor and the nesting depth are those from before, at
  any depth of nesting; a second \<open>acquire\<close> inside panics instead of waiting for itself.
\<close>

theorem section_restores_machine:
  assumes "cpu_ok s" and "lock_free l s"
  shows "\<exists>s1 s2. acquire l s = Ok s1 \<and> acquire l s1 = Panic ''acquire'' \<and> \<not> readeflags s1 \<and>
    release l s1 = Ok s2 \<and> release l s2 = Panic ''release'' \<and> locks s2 = locks s \<and> intr s2 = intr s \<and>
    ncli (curcpu s2) = ncli (curcpu s) \<and> curproc s2 = curproc s \<and> mach.more s2 = mach.more s"
proof -
  have a: "acquire l s = Ok (acquired l s)" "release l (acquired l s) = Ok (touched s)"
    using assms by (simp_all add: acquire_free release_held released_acquired)
  have "acquire l (acquired l s) = Panic ''acquire''" "release l (touched s) = Panic ''release''"
    using assms held_not_free [of l s] by (simp_all add: acquire_cases) (auto intro: release_not_held)
  moreover have "\<not> readeflags (acquired l s)"
    using in_section_acquired [OF assms(1)] by (simp add: in_section_def)
  moreover have "ncli (curcpu (touched s)) = ncli (curcpu s)" "mach.more (touched s) = mach.more s"
    using curcpu_touched [OF assms(1)] by simp (simp add: touched_def)
  ultimately show ?thesis using a assms(1) by (intro exI [of _ "acquired l s"] exI [of _ "touched s"]) simp
qed

theorem section_restores_machine_witness:
  "\<exists>s1 s2. acquire PtableLock demo_mach = Ok s1 \<and> release PtableLock s1 = Ok s2 \<and> intr s2 = intr demo_mach"
  using section_restores_machine [OF demo_mach_ok(1,3), of PtableLock] by blast

end
