(* ===== verification/Proc_Table.thy ===== *)
theory Proc_Table
  imports Spinlock
begin

text \<open>
  The process table, sleep and wakeup, and the scheduler: the part of \<open>proc.c\<close> that the
  other components call. A function that sleeps is cut at its call of \<open>sched\<close>: the first
  half ends when the processor switches to the scheduler, the second half starts when the
  scheduler has switched back to the process. Pointers to processes are indices into
  \<open>ptable.proc\<close>; a wait channel is the kernel object whose address \<open>sleep\<close> is given.
\<close>

section \<open>State\<close>

datatype procstate = UNUSED | EMBRYO | SLEEPING | RUNNABLE | RUNNING | ZOMBIE

text \<open>Kernel objects whose addresses are used as wait channels.\<close>

datatype chan = SockChan nat | ProcChan nat | PipeReadChan u32 | PipeWriteChan u32
  | TicksChan | LogChan | BufChan nat | SleepLockChan sleeplock_id | InputChan

text \<open>\<open>struct trapframe\<close> (\<open>x86.h\<close>) without its padding.\<close>

record trapframe =
  tf_edi :: u32
  tf_esi :: u32
  tf_ebp :: u32
  tf_oesp :: u32
  tf_ebx :: u32
  tf_edx :: u32
  tf_ecx :: u32
  tf_eax :: u32
  tf_gs :: u16
  tf_fs :: u16
  tf_es :: u16
  tf_ds :: u16
  tf_trapno :: u32
  tf_err :: u32
  tf_eip :: u32
  tf_cs :: u16
  tf_eflags :: u32
  tf_esp :: u32
  tf_ss :: u16

text \<open>\<open>struct context\<close> (\<open>proc.h\<close>).\<close>

record context_regs =
  ctx_edi :: u32
  ctx_esi :: u32
  ctx_ebx :: u32
  ctx_ebp :: u32
  ctx_eip :: u32

text \<open>
  \<open>struct proc\<close> (\<open>proc.h\<close>). \<open>tf\<close> and \<open>context\<close> point into the kernel stack page of the
  process; the model holds what they point to. \<open>ofile\<close> and \<open>cwd\<close> point into the file
  table and the inode cache.
\<close>

record proc =
  sz :: u32
  pgdir :: u32
  kstack :: u32
  pstate :: procstate
  pid :: int
  parent :: "nat option"
  tf :: trapframe
  pcontext :: context_regs
  chan :: "chan option"
  killed :: bool
  ofile :: "nat option list"
  cwd :: "nat option"
  pname :: "u8 list"

abbreviation NPROC :: nat where "NPROC \<equiv> 64"
abbreviation NOFILE :: nat where "NOFILE \<equiv> 16"
abbreviation KERNBASE :: u32 where "KERNBASE \<equiv> 0x80000000"

text \<open>
  The process table and what goes with it: the next process id, the first process, the
  page table register of the executing processor, the kernel's own page table, the clock,
  and the user half of the address space of every process.
\<close>

record pt = mach +
  ptable :: "proc list"
  nextpid :: int
  initproc :: "nat option"
  cr3 :: u32
  kpgdir :: u32
  ticks :: u32
  umem :: "nat \<Rightarrow> u32 \<Rightarrow> u8"

definition upd_proc :: "nat \<Rightarrow> (proc \<Rightarrow> proc) \<Rightarrow> 'a pt_scheme \<Rightarrow> 'a pt_scheme" where
  "upd_proc i f s = s\<lparr>ptable := (ptable s)[i := f (ptable s ! i)]\<rparr>"

definition upd_cpu :: "nat \<Rightarrow> (cpu \<Rightarrow> cpu) \<Rightarrow> 'a mach_scheme \<Rightarrow> 'a mach_scheme" where
  "upd_cpu c f s = s\<lparr>cpus := (cpus s)[c := f (cpus s ! c)]\<rparr>"

text \<open>
  The bytes \<open>a, \<dots>, a + n - 1\<close> are user memory of process \<open>p\<close>. Below \<open>sz\<close> every page is
  mapped; an access of the kernel above it faults or hits the kernel's own memory.
\<close>

definition in_uvm :: "nat \<Rightarrow> u32 \<Rightarrow> nat \<Rightarrow> 'a pt_scheme \<Rightarrow> bool" where
  "in_uvm p a n s \<longleftrightarrow> n = 0 \<or> unat a + n \<le> unat (sz (ptable s ! p))"

section \<open>Wakeup\<close>

definition pinit :: "'a pt_scheme \<Rightarrow> 'a pt_scheme" where
  "pinit s = initlock PtableLock s"

definition wakeup1 :: "chan \<Rightarrow> 'a pt_scheme \<Rightarrow> 'a pt_scheme" where
  "wakeup1 c s =
     s\<lparr>ptable := map (\<lambda>p. if pstate p = SLEEPING \<and> chan p = Some c
                          then p\<lparr>pstate := RUNNABLE\<rparr> else p) (ptable s)\<rparr>"

definition wakeup :: "chan \<Rightarrow> 'a pt_scheme \<Rightarrow> 'a pt_scheme outcome" where
  "wakeup c s =
     andthen (acquire PtableLock s) (\<lambda>s1.
     release PtableLock (wakeup1 c s1))"

section \<open>Switching between a process and the scheduler\<close>

text \<open>
  \<open>sched\<close> up to \<open>swtch\<close>: the four checks, then the saved \<open>intena\<close>, which the process
  keeps on its kernel stack while it is switched out.
\<close>

definition sched :: "'a pt_scheme \<Rightarrow> (bool \<times> 'a pt_scheme) outcome" where
  "sched s =
     andthen (myproc s) (\<lambda>(p, s1).
     andthen (holding PtableLock s1) (\<lambda>(h, s2).
       if \<not> h then Panic ''sched ptable.lock''
       else andthen (mycpu s2) (\<lambda>c.
         if ncli (cpus s2 ! c) \<noteq> 1 then Panic ''sched locks''
         else case p of
             None \<Rightarrow> Fault
           | Some i \<Rightarrow>
               if pstate (ptable s2 ! i) = RUNNING then Panic ''sched running''
               else if readeflags s2 then Panic ''sched interruptible''
               else Ok (intena (cpus s2 ! c), s2))))"

text \<open>The rest of \<open>sched\<close>, after the scheduler has switched back.\<close>

definition sched_return :: "bool \<Rightarrow> 'a pt_scheme \<Rightarrow> 'a pt_scheme outcome" where
  "sched_return ie s =
     andthen (mycpu s) (\<lambda>c. Ok (upd_cpu c (\<lambda>k. k\<lparr>intena := ie\<rparr>) s))"

definition switchkvm :: "'a pt_scheme \<Rightarrow> 'a pt_scheme" where
  "switchkvm s = s\<lparr>cr3 := kpgdir s - KERNBASE\<rparr>"

definition switchuvm :: "nat option \<Rightarrow> 'a pt_scheme \<Rightarrow> 'a pt_scheme outcome" where
  "switchuvm p s =
     (case p of
        None \<Rightarrow> Panic ''switchuvm: no process''
      | Some i \<Rightarrow>
          if kstack (ptable s ! i) = 0 then Panic ''switchuvm: no kstack''
          else if pgdir (ptable s ! i) = 0 then Panic ''switchuvm: no pgdir''
          else andthen (pushcli s) (\<lambda>s1.
            popcli (s1\<lparr>cr3 := pgdir (ptable s ! i) - KERNBASE\<rparr>)))"

text \<open>
  The scheduler loop of one processor in four pieces: the start of a round, the choice of
  the next runnable process from slot \<open>k\<close> on, the return from a process, the end of a round.
\<close>

definition scheduler_round :: "'a pt_scheme \<Rightarrow> 'a pt_scheme outcome" where
  "scheduler_round s = acquire PtableLock (sti s)"

definition scheduler_pick :: "nat \<Rightarrow> 'a pt_scheme \<Rightarrow> (nat option \<times> 'a pt_scheme) outcome" where
  "scheduler_pick k s =
     (case find_index (\<lambda>p. pstate p = RUNNABLE) (drop k (ptable s)) of
        None \<Rightarrow> Ok (None, s)
      | Some j \<Rightarrow>
          let i = k + j in
          andthen (mycpu s) (\<lambda>c.
          andthen (switchuvm (Some i) (upd_cpu c (\<lambda>q. q\<lparr>cproc := Some i\<rparr>) s)) (\<lambda>s1.
            Ok (Some i, upd_proc i (\<lambda>p. p\<lparr>pstate := RUNNING\<rparr>) s1))))"

definition scheduler_back :: "'a pt_scheme \<Rightarrow> 'a pt_scheme outcome" where
  "scheduler_back s =
     andthen (mycpu s) (\<lambda>c. Ok (upd_cpu c (\<lambda>q. q\<lparr>cproc := None\<rparr>) (switchkvm s)))"

definition scheduler_end :: "'a pt_scheme \<Rightarrow> 'a pt_scheme outcome" where
  "scheduler_end s = release PtableLock s"

section \<open>Sleep and yield\<close>

definition sleep :: "chan \<Rightarrow> lockid option \<Rightarrow> 'a pt_scheme \<Rightarrow> (bool \<times> 'a pt_scheme) outcome" where
  "sleep ch lk s =
     andthen (myproc s) (\<lambda>(p, s1).
       case p of
         None \<Rightarrow> Panic ''sleep''
       | Some i \<Rightarrow>
          (case lk of
             None \<Rightarrow> Panic ''sleep without lk''
           | Some l \<Rightarrow>
               andthen (if l \<noteq> PtableLock
                        then andthen (acquire PtableLock s1) (release l)
                        else Ok s1) (\<lambda>s2.
               sched (upd_proc i (\<lambda>q. q\<lparr>chan := Some ch, pstate := SLEEPING\<rparr>) s2))))"

definition sleep_return :: "bool \<Rightarrow> nat \<Rightarrow> lockid \<Rightarrow> 'a pt_scheme \<Rightarrow> 'a pt_scheme outcome" where
  "sleep_return ie i l s =
     andthen (sched_return ie s) (\<lambda>s1.
       let s2 = upd_proc i (\<lambda>q. q\<lparr>chan := None\<rparr>) s1 in
       if l \<noteq> PtableLock
       then andthen (release PtableLock s2) (acquire l)
       else Ok s2)"

definition yield :: "'a pt_scheme \<Rightarrow> (bool \<times> 'a pt_scheme) outcome" where
  "yield s =
     andthen (acquire PtableLock s) (\<lambda>s1.
     andthen (myproc s1) (\<lambda>(p, s2).
       case p of
         None \<Rightarrow> Fault
       | Some i \<Rightarrow> sched (upd_proc i (\<lambda>q. q\<lparr>pstate := RUNNABLE\<rparr>) s2)))"

definition yield_return :: "bool \<Rightarrow> 'a pt_scheme \<Rightarrow> 'a pt_scheme outcome" where
  "yield_return ie s = andthen (sched_return ie s) (release PtableLock)"


section \<open>Processes and the lock layer\<close>

text \<open>
  The lock operations leave the process table alone, and updates of the process table
  move inside them: a state inside a critical section is written as a lock operation
  applied to an update of the state before the section.
\<close>

lemma mach_ptable [simp]:
  "cur (ptable_update f s) = cur s"
  "cpu_ok (ptable_update f s) = cpu_ok s"
  "readeflags (ptable_update f s) = readeflags s"
  "lock_free l (ptable_update f s) = lock_free l s"
  "held l (ptable_update f s) = held l s"
  "in_section (ptable_update f s) = in_section s"
  "curproc (ptable_update f s) = curproc s"
  "saved_intena (ptable_update f s) = saved_intena s"
  "ptable_update f (acquired l s) = acquired l (ptable_update f s)"
  "ptable_update f (released l s) = released l (ptable_update f s)"
  "ptable_update f (touched s) = touched (ptable_update f s)"
  "ptable (acquired l s) = ptable s"
  "ptable (released l s) = ptable s"
  "ptable (touched s) = ptable s"
  by (simp_all add: lock_layer_defs)

lemma mach_nextpid [simp]:
  "cur (nextpid_update f s) = cur s"
  "cpu_ok (nextpid_update f s) = cpu_ok s"
  "readeflags (nextpid_update f s) = readeflags s"
  "lock_free l (nextpid_update f s) = lock_free l s"
  "held l (nextpid_update f s) = held l s"
  "in_section (nextpid_update f s) = in_section s"
  "curproc (nextpid_update f s) = curproc s"
  "saved_intena (nextpid_update f s) = saved_intena s"
  "nextpid_update f (acquired l s) = acquired l (nextpid_update f s)"
  "nextpid_update f (released l s) = released l (nextpid_update f s)"
  "nextpid_update f (touched s) = touched (nextpid_update f s)"
  "nextpid (acquired l s) = nextpid s"
  "nextpid (released l s) = nextpid s"
  "nextpid (touched s) = nextpid s"
  by (simp_all add: lock_layer_defs)

lemma mach_initproc [simp]:
  "cur (initproc_update f s) = cur s"
  "cpu_ok (initproc_update f s) = cpu_ok s"
  "readeflags (initproc_update f s) = readeflags s"
  "lock_free l (initproc_update f s) = lock_free l s"
  "held l (initproc_update f s) = held l s"
  "in_section (initproc_update f s) = in_section s"
  "curproc (initproc_update f s) = curproc s"
  "saved_intena (initproc_update f s) = saved_intena s"
  "initproc_update f (acquired l s) = acquired l (initproc_update f s)"
  "initproc_update f (released l s) = released l (initproc_update f s)"
  "initproc_update f (touched s) = touched (initproc_update f s)"
  "initproc (acquired l s) = initproc s"
  "initproc (released l s) = initproc s"
  "initproc (touched s) = initproc s"
  by (simp_all add: lock_layer_defs)

lemma mach_cr3 [simp]:
  "cur (cr3_update f s) = cur s"
  "cpu_ok (cr3_update f s) = cpu_ok s"
  "readeflags (cr3_update f s) = readeflags s"
  "lock_free l (cr3_update f s) = lock_free l s"
  "held l (cr3_update f s) = held l s"
  "in_section (cr3_update f s) = in_section s"
  "curproc (cr3_update f s) = curproc s"
  "saved_intena (cr3_update f s) = saved_intena s"
  "cr3_update f (acquired l s) = acquired l (cr3_update f s)"
  "cr3_update f (released l s) = released l (cr3_update f s)"
  "cr3_update f (touched s) = touched (cr3_update f s)"
  "cr3 (acquired l s) = cr3 s"
  "cr3 (released l s) = cr3 s"
  "cr3 (touched s) = cr3 s"
  by (simp_all add: lock_layer_defs)

lemma mach_kpgdir [simp]:
  "cur (kpgdir_update f s) = cur s"
  "cpu_ok (kpgdir_update f s) = cpu_ok s"
  "readeflags (kpgdir_update f s) = readeflags s"
  "lock_free l (kpgdir_update f s) = lock_free l s"
  "held l (kpgdir_update f s) = held l s"
  "in_section (kpgdir_update f s) = in_section s"
  "curproc (kpgdir_update f s) = curproc s"
  "saved_intena (kpgdir_update f s) = saved_intena s"
  "kpgdir_update f (acquired l s) = acquired l (kpgdir_update f s)"
  "kpgdir_update f (released l s) = released l (kpgdir_update f s)"
  "kpgdir_update f (touched s) = touched (kpgdir_update f s)"
  "kpgdir (acquired l s) = kpgdir s"
  "kpgdir (released l s) = kpgdir s"
  "kpgdir (touched s) = kpgdir s"
  by (simp_all add: lock_layer_defs)

lemma mach_ticks [simp]:
  "cur (ticks_update f s) = cur s"
  "cpu_ok (ticks_update f s) = cpu_ok s"
  "readeflags (ticks_update f s) = readeflags s"
  "lock_free l (ticks_update f s) = lock_free l s"
  "held l (ticks_update f s) = held l s"
  "in_section (ticks_update f s) = in_section s"
  "curproc (ticks_update f s) = curproc s"
  "saved_intena (ticks_update f s) = saved_intena s"
  "ticks_update f (acquired l s) = acquired l (ticks_update f s)"
  "ticks_update f (released l s) = released l (ticks_update f s)"
  "ticks_update f (touched s) = touched (ticks_update f s)"
  "ticks (acquired l s) = ticks s"
  "ticks (released l s) = ticks s"
  "ticks (touched s) = ticks s"
  by (simp_all add: lock_layer_defs)

lemma mach_umem [simp]:
  "cur (umem_update f s) = cur s"
  "cpu_ok (umem_update f s) = cpu_ok s"
  "readeflags (umem_update f s) = readeflags s"
  "lock_free l (umem_update f s) = lock_free l s"
  "held l (umem_update f s) = held l s"
  "in_section (umem_update f s) = in_section s"
  "curproc (umem_update f s) = curproc s"
  "saved_intena (umem_update f s) = saved_intena s"
  "umem_update f (acquired l s) = acquired l (umem_update f s)"
  "umem_update f (released l s) = released l (umem_update f s)"
  "umem_update f (touched s) = touched (umem_update f s)"
  "umem (acquired l s) = umem s"
  "umem (released l s) = umem s"
  "umem (touched s) = umem s"
  by (simp_all add: lock_layer_defs)

lemma upd_proc_simps [simp]:
  "upd_proc i f (acquired l s) = acquired l (upd_proc i f s)"
  "upd_proc i f (released l s) = released l (upd_proc i f s)"
  "upd_proc i f (touched s) = touched (upd_proc i f s)"
  "cpu_ok (upd_proc i f s) = cpu_ok s" "cur (upd_proc i f s) = cur s"
  "lock_free l (upd_proc i f s) = lock_free l s" "held l (upd_proc i f s) = held l s"
  "in_section (upd_proc i f s) = in_section s" "curproc (upd_proc i f s) = curproc s"
  "readeflags (upd_proc i f s) = readeflags s" "saved_intena (upd_proc i f s) = saved_intena s"
  "cpus (upd_proc i f s) = cpus s" "locks (upd_proc i f s) = locks s"
  "umem (upd_proc i f s) = umem s"
  "length (ptable (upd_proc i f s)) = length (ptable s)"
  by (simp_all add: upd_proc_def)

lemma ptable_upd_proc: "ptable (upd_proc i f s) = (ptable s)[i := f (ptable s ! i)]"
  by (simp add: upd_proc_def)

lemma wakeup1_simps [simp]:
  "wakeup1 c (acquired l s) = acquired l (wakeup1 c s)"
  "wakeup1 c (released l s) = released l (wakeup1 c s)"
  "wakeup1 c (touched s) = touched (wakeup1 c s)"
  "cpu_ok (wakeup1 c s) = cpu_ok s" "cur (wakeup1 c s) = cur s"
  "lock_free l (wakeup1 c s) = lock_free l s" "held l (wakeup1 c s) = held l s"
  "in_section (wakeup1 c s) = in_section s" "curproc (wakeup1 c s) = curproc s"
  "readeflags (wakeup1 c s) = readeflags s" "saved_intena (wakeup1 c s) = saved_intena s"
  "cpus (wakeup1 c s) = cpus s" "locks (wakeup1 c s) = locks s"
  "umem (wakeup1 c s) = umem s"
  "length (ptable (wakeup1 c s)) = length (ptable s)"
  by (simp_all add: wakeup1_def)

text \<open>Wakeup takes and drops the table lock, so it must not be held by the caller.\<close>

lemma wakeup_ok:
  "cpu_ok s \<Longrightarrow> lock_free PtableLock s \<Longrightarrow> wakeup c s = Ok (touched (wakeup1 c s))"
  by (simp add: wakeup_def acquire_free release_held released_acquired)

lemma wakeup_deadlock:
  "cpu_ok s \<Longrightarrow> held PtableLock s \<Longrightarrow> wakeup c s = Panic ''acquire''"
  by (simp add: wakeup_def acquire_cases)

text \<open>
  Going to sleep with exactly one other lock held: that lock is dropped, the table lock is
  taken, and the process is marked, in this order, so no wakeup can fall in between.
\<close>

lemma sched_ok:
  assumes "cpu_ok s" "lock_free PtableLock s" "ncli (curcpu s) = 0" "curproc s = Some i"
    and "pstate (ptable s ! i) \<noteq> RUNNING"
  shows "sched (acquired PtableLock s) = Ok (saved_intena s, acquired PtableLock s)"
proof -
  have k: "curcpu (acquired PtableLock s) = (curcpu s)\<lparr>ncli := ncli (curcpu s) + 1, intena := saved_intena s\<rparr>"
    using assms(1) by (rule curcpu_acquired)
  have "\<not> readeflags (acquired PtableLock s)"
    using in_section_acquired [OF assms(1)] by (simp add: in_section_def)
  then show ?thesis
    using assms k by (simp add: sched_def myproc_ok holding_ok mycpu_ok)
qed

lemma sleep_ok:
  assumes "cpu_ok s" "lock_free PtableLock s" "lock_free l s" "l \<noteq> PtableLock"
    and "ncli (curcpu s) = 0" "curproc s = Some i" "i < length (ptable s)"
  shows "sleep ch (Some l) (acquired l s) =
    Ok (saved_intena s,
        acquired PtableLock (upd_proc i (\<lambda>q. q\<lparr>chan := Some ch, pstate := SLEEPING\<rparr>) s))"
  using assms
  by (simp add: sleep_def myproc_ok acquire_free release_held released_handover
      sched_ok ptable_upd_proc)

text \<open>What \<open>wakeup\<close>, \<open>sleep\<close> and its second half leave alone, whatever the state.\<close>

lemma pt_more_mach: "mach.more s' = mach.more s \<Longrightarrow> ptable s' = ptable s \<and> umem s' = umem s \<and> pt.more s' = pt.more s"
  by (cases s; cases s') simp

lemma upd_proc_more [simp]: "pt.more (upd_proc i f s) = pt.more s"
  by (simp add: upd_proc_def)

lemma upd_cpu_more [simp]: "mach.more (upd_cpu i f s) = mach.more s"
  by (simp add: upd_cpu_def)

lemma wakeup_frame:
  "wakeup c s = Ok s' \<Longrightarrow> ptable s' = ptable (wakeup1 c s) \<and> umem s' = umem s \<and> pt.more s' = pt.more s"
  by (auto simp: wakeup_def andthen_Ok_iff wakeup1_def dest!: lock_ops_more pt_more_mach)

lemma sched_frame:
  "sched s = Ok (ie, s') \<Longrightarrow> ptable s' = ptable s \<and> umem s' = umem s \<and> pt.more s' = pt.more s"
  by (auto simp: sched_def andthen_Ok_iff split: if_splits option.splits
      dest!: lock_ops_more pt_more_mach)

lemma sleep_frame:
  "sleep c l s = Ok (ie, s') \<Longrightarrow> umem s' = umem s \<and> pt.more s' = pt.more s"
  by (auto simp: sleep_def elim!: andthen_OkE split: if_split_asm option.split_asm
      dest!: lock_ops_more pt_more_mach sched_frame)

lemma sleep_return_frame:
  "sleep_return ie i l s = Ok s' \<Longrightarrow> umem s' = umem s \<and> pt.more s' = pt.more s"
  by (auto simp: sleep_return_def sched_return_def Let_def elim!: andthen_OkE
      split: if_split_asm dest!: lock_ops_more pt_more_mach)
    (auto simp: upd_cpu_def)

section \<open>Coming back from sleep\<close>

text \<open>
  The state a process finds when it has left the table lock after a switch: interrupts as
  they were when it went to sleep.
\<close>

definition resumed :: "bool \<Rightarrow> 'a mach_scheme \<Rightarrow> 'a mach_scheme" where
  "resumed ie s = s\<lparr>cpus := (cpus s)[cur s := (curcpu s)\<lparr>intena := ie\<rparr>],
                    intr := (intr s)(hwid s := ie)\<rparr>"

lemma cur_resumed [simp]: "cpu_ok s \<Longrightarrow> cur (resumed ie s) = cur s"
  using find_updated [of s] by (simp add: cur_def [of "resumed ie s"]) (simp add: resumed_def)

lemma curcpu_resumed: "cpu_ok s \<Longrightarrow> curcpu (resumed ie s) = (curcpu s)\<lparr>intena := ie\<rparr>"
  using cur_less [of s] by simp (simp add: resumed_def)

lemma ncli_resumed [simp]: "cpu_ok s \<Longrightarrow> ncli (cpus (resumed ie s) ! cur s) = ncli (curcpu s)"
  using curcpu_resumed [of s ie] by simp

lemma curproc_resumed [simp]: "cpu_ok s \<Longrightarrow> curproc (resumed ie s) = curproc s"
  using curcpu_resumed [of s ie] by (simp add: curproc_def)

lemma lock_free_resumed [simp]: "lock_free l (resumed ie s) = lock_free l s"
  by (simp add: lock_free_def resumed_def)

lemma more_resumed [simp]: "mach.more (resumed ie s) = mach.more s"
  by (simp add: resumed_def)

lemma cpu_ok_resumed [simp]: "cpu_ok s \<Longrightarrow> ncli (curcpu s) = 0 \<Longrightarrow> cpu_ok (resumed ie s)"
  using find_updated [of s] curcpu_resumed [of s ie]
  by (simp add: cpu_ok_def) (simp add: resumed_def)

lemma pt_resumed [simp]:
  "ptable (resumed ie s) = ptable s" "umem (resumed ie s) = umem s"
  "upd_proc i f (resumed ie s) = resumed ie (upd_proc i f s)"
  by (simp_all add: resumed_def upd_proc_def cur_def)

lemma released_resumed:
  assumes "cpu_ok s" "ncli (curcpu s) = 0" "lock_free l s"
  shows "released l (upd_cpu (cur s) (\<lambda>k. k\<lparr>intena := ie\<rparr>) (acquired l s)) = resumed ie s"
proof -
  let ?a = "upd_cpu (cur s) (\<lambda>k. k\<lparr>intena := ie\<rparr>) (acquired l s)"
  have len: "cur s < length (cpus s)" using assms(1) by (rule cur_less)
  have ncli_same: "(curcpu s)\<lparr>ncli := 0, intena := ie\<rparr> = (curcpu s)\<lparr>intena := ie\<rparr>"
    using assms(2) by (cases "curcpu s") simp
  have cp: "cpus ?a = (cpus s)[cur s := (curcpu s)\<lparr>ncli := 1, intena := ie\<rparr>]"
    using len assms(2) by (simp add: upd_cpu_def acquired_def)
  have cu: "cur ?a = cur s"
    using find_updated [OF assms(1), of "(curcpu s)\<lparr>ncli := 1, intena := ie\<rparr>"] cp
    by (simp add: cur_def [of ?a]) (simp add: upd_cpu_def)
  show ?thesis
  proof (rule mach.equality)
    show "cpus (released l ?a) = cpus (resumed ie s)"
      using len ncli_same by (simp add: released_def cu cp resumed_def) (simp add: cpu_upd_comm)
    show "intr (released l ?a) = intr (resumed ie s)"
      using len by (simp add: released_def cu cp resumed_def) (simp add: upd_cpu_def intr_acquired)
    show "locks (released l ?a) = locks (resumed ie s)"
      using assms(3) by (auto simp: locks_released resumed_def upd_cpu_def locks_acquired lock_free_def fun_eq_iff)
  qed (simp_all add: more_released more_acquired upd_cpu_def resumed_def)
qed

lemma upd_proc_upd_cpu: "upd_proc i f (upd_cpu c g s) = upd_cpu c g (upd_proc i f s)"
  by (simp add: upd_proc_def upd_cpu_def)

lemma in_section_upd_cpu_intena:
  assumes "cpu_ok s"
  shows "cpu_ok (upd_cpu (cur s) (\<lambda>k. k\<lparr>intena := ie\<rparr>) s)"
    and "in_section (upd_cpu (cur s) (\<lambda>k. k\<lparr>intena := ie\<rparr>) s) = in_section s"
    and "held l (upd_cpu (cur s) (\<lambda>k. k\<lparr>intena := ie\<rparr>) s) = held l s"
proof -
  let ?a = "upd_cpu (cur s) (\<lambda>k. k\<lparr>intena := ie\<rparr>) s"
  have f: "find_index (\<lambda>c. apicid c = hwid s) (cpus ?a) = Some (cur s)"
    using find_updated [OF assms] by (simp add: upd_cpu_def)
  then have cu: "cur ?a = cur s" by (simp add: cur_def [of ?a]) (simp add: upd_cpu_def)
  have k: "curcpu ?a = (curcpu s)\<lparr>intena := ie\<rparr>"
    using cur_less [OF assms] by (simp add: cu) (simp add: upd_cpu_def)
  have r: "readeflags ?a = readeflags s" by (simp add: readeflags_def upd_cpu_def)
  have h: "hwid ?a = hwid s" by (simp add: upd_cpu_def)
  show "cpu_ok ?a" using assms f k r by (simp add: cpu_ok_def h)
  show "in_section ?a = in_section s" using k r by (simp add: in_section_def)
  show "held l ?a = held l s" using cu by (simp add: held_def) (simp add: upd_cpu_def)
qed

lemma sleep_return_ok:
  assumes "cpu_ok s" "ncli (curcpu s) = 0" "lock_free PtableLock s" "lock_free l s" "l \<noteq> PtableLock"
  shows "sleep_return ie i l (acquired PtableLock s) =
    Ok (acquired l (resumed ie (upd_proc i (\<lambda>q. q\<lparr>chan := None\<rparr>) s)))"
proof -
  let ?s = "upd_proc i (\<lambda>q. q\<lparr>chan := None\<rparr>) s"
  have "\<not> readeflags (acquired PtableLock s)"
    using in_section_acquired [OF assms(1)] by (simp add: in_section_def)
  then have m: "mycpu (acquired PtableLock s) = Ok (cur s)"
    using assms(1) by (simp add: mycpu_ok)
  have "release PtableLock (upd_cpu (cur s) (\<lambda>k. k\<lparr>intena := ie\<rparr>) (acquired PtableLock ?s)) = Ok (resumed ie ?s)"
    using released_resumed [of ?s PtableLock ie]
      in_section_upd_cpu_intena [of "acquired PtableLock ?s"] assms
    by (simp add: release_held)
  then show ?thesis
    using assms by (simp add: sleep_return_def sched_return_def m Let_def upd_proc_upd_cpu acquire_free)
qed

section \<open>The scheduler\<close>

text \<open>The processor takes up or leaves a process.\<close>

definition set_cproc :: "nat option \<Rightarrow> 'a mach_scheme \<Rightarrow> 'a mach_scheme" where
  "set_cproc x s = upd_cpu (cur s) (\<lambda>k. k\<lparr>cproc := x\<rparr>) s"

lemma set_cproc_basic:
  "hwid (set_cproc x s) = hwid s" "intr (set_cproc x s) = intr s" "locks (set_cproc x s) = locks s"
  "mach.more (set_cproc x s) = mach.more s"
  "cpus (set_cproc x s) = (cpus s)[cur s := (curcpu s)\<lparr>cproc := x\<rparr>]"
  by (simp_all add: set_cproc_def upd_cpu_def)

lemma cur_set_cproc [simp]: "cpu_ok s \<Longrightarrow> cur (set_cproc x s) = cur s"
  using find_updated [of s] by (simp add: cur_def [of "set_cproc x s"] set_cproc_basic)

lemma curcpu_set_cproc: "cpu_ok s \<Longrightarrow> curcpu (set_cproc x s) = (curcpu s)\<lparr>cproc := x\<rparr>"
  using cur_less [of s] by (simp add: set_cproc_basic)

lemma cpu_ok_set_cproc [simp]: "cpu_ok s \<Longrightarrow> cpu_ok (set_cproc x s)"
  using find_updated [of s] curcpu_set_cproc [of s x]
  by (simp add: cpu_ok_def readeflags_def set_cproc_basic)

lemma curproc_set_cproc [simp]: "cpu_ok s \<Longrightarrow> curproc (set_cproc x s) = x"
  using curcpu_set_cproc [of s x] by (simp add: curproc_def)

lemma ncli_set_cproc [simp]: "cpu_ok s \<Longrightarrow> ncli (curcpu (set_cproc x s)) = ncli (curcpu s)"
  using curcpu_set_cproc [of s x] by simp

lemma lock_free_set_cproc [simp]: "lock_free l (set_cproc x s) = lock_free l s"
  by (simp add: lock_free_def set_cproc_basic)

lemma pt_set_cproc [simp]:
  "ptable (set_cproc x s) = ptable s" "umem (set_cproc x s) = umem s" "kpgdir (set_cproc x s) = kpgdir s"
  "set_cproc x (cr3_update f s) = cr3_update f (set_cproc x s)"
  "set_cproc x (upd_proc i g s) = upd_proc i g (set_cproc x s)"
  by (simp_all add: set_cproc_def upd_cpu_def upd_proc_def)

lemma acquired_set_cproc:
  assumes "cpu_ok s"
  shows "set_cproc x (acquired l s) = acquired l (set_cproc x s)"
proof (rule mach.equality)
  let ?k = "(curcpu s)\<lparr>ncli := ncli (curcpu s) + 1, intena := saved_intena s\<rparr>"
  have c: "cpus (acquired l s) = (cpus s)[cur s := ?k]"
    by (simp add: acquired_def)
  have si: "saved_intena (set_cproc x s) = saved_intena s"
    using curcpu_set_cproc [OF assms, of x] by (simp add: saved_intena_def readeflags_def set_cproc_basic)
  have "cpus (set_cproc x (acquired l s)) = (cpus s)[cur s := ?k\<lparr>cproc := x\<rparr>]"
    using assms cur_less [OF assms] by (simp add: set_cproc_basic(5) c)
  also have "?k\<lparr>cproc := x\<rparr> = (curcpu s)\<lparr>cproc := x, ncli := ncli (curcpu s) + 1, intena := saved_intena s\<rparr>"
    by (cases "curcpu s") simp
  also have "(cpus s)[cur s := \<dots>] = cpus (acquired l (set_cproc x s))"
    using assms curcpu_set_cproc [OF assms, of x] si cur_less [OF assms]
    by (simp add: acquired_def set_cproc_basic(5))
  finally show "cpus (set_cproc x (acquired l s)) = cpus (acquired l (set_cproc x s))" .
qed (use assms in \<open>simp_all add: set_cproc_basic intr_acquired locks_acquired more_acquired\<close>)

lemma mycpu_acquired: "cpu_ok s \<Longrightarrow> mycpu (acquired l s) = Ok (cur s)"
  using in_section_acquired [of s l] by (simp add: mycpu_ok in_section_def)

lemma pushed_cr3: "(pushed s)\<lparr>cr3 := v\<rparr> = pushed (s\<lparr>cr3 := v\<rparr>)"
  by (simp add: pushed_def)

lemma switchuvm_ok:
  assumes "cpu_ok s" "kstack (ptable s ! i) \<noteq> 0" "pgdir (ptable s ! i) \<noteq> 0"
  shows "switchuvm (Some i) (acquired l s) = Ok (acquired l (s\<lparr>cr3 := pgdir (ptable s ! i) - KERNBASE\<rparr>))"
proof -
  let ?a = "acquired l s" and ?v = "pgdir (ptable s ! i) - KERNBASE"
  have c: "cpu_ok ?a" "in_section ?a" using assms(1) by simp_all
  have "popcli (pushed (?a\<lparr>cr3 := ?v\<rparr>)) = Ok (touched (?a\<lparr>cr3 := ?v\<rparr>))"
    using assms(1) by (subst popcli_ok) (simp_all add: cpu_ok_pushed section_pushed popped_pushed)
  then show ?thesis
    using assms c by (simp add: switchuvm_def pushcli_ok pushed_cr3)
qed

lemma scheduler_pick_Some:
  assumes "cpu_ok s" and "scheduler_pick k (acquired PtableLock s) = Ok (Some i, s')"
  shows "k \<le> i" "i < length (ptable s)" "pstate (ptable s ! i) = RUNNABLE"
    and "s' = acquired PtableLock (upd_proc i (\<lambda>p. p\<lparr>pstate := RUNNING\<rparr>)
           (set_cproc (Some i) (s\<lparr>cr3 := pgdir (ptable s ! i) - KERNBASE\<rparr>)))"
proof -
  obtain j where f: "find_index (\<lambda>p. pstate p = RUNNABLE) (drop k (ptable s)) = Some j" and i: "i = k + j"
    and w: "\<exists>s1. switchuvm (Some i) (set_cproc (Some i) (acquired PtableLock s)) = Ok s1 \<and>
       s' = upd_proc i (\<lambda>p. p\<lparr>pstate := RUNNING\<rparr>) s1"
    using assms by (auto simp: scheduler_pick_def mycpu_acquired Let_def set_cproc_def
        split: option.split_asm elim!: andthen_OkE)
  show "k \<le> i" "i < length (ptable s)" "pstate (ptable s ! i) = RUNNABLE"
    using find_index_SomeD [OF f] i by (auto simp: nth_drop)
  from w have "kstack (ptable s ! i) \<noteq> 0" "pgdir (ptable s ! i) \<noteq> 0"
    by (auto simp: switchuvm_def split: if_split_asm)
  then show "s' = acquired PtableLock (upd_proc i (\<lambda>p. p\<lparr>pstate := RUNNING\<rparr>)
           (set_cproc (Some i) (s\<lparr>cr3 := pgdir (ptable s ! i) - KERNBASE\<rparr>)))"
    using w assms(1) by (auto simp: acquired_set_cproc switchuvm_ok)
qed

lemma scheduler_pick_None:
  "scheduler_pick k s = Ok (None, s') \<Longrightarrow> s' = s"
  by (auto simp: scheduler_pick_def Let_def split: option.split_asm elim!: andthen_OkE)

lemma scheduler_back_ok:
  assumes "cpu_ok s"
  shows "scheduler_back (acquired PtableLock s) =
    Ok (acquired PtableLock (set_cproc None (s\<lparr>cr3 := kpgdir s - KERNBASE\<rparr>)))"
proof -
  let ?s = "s\<lparr>cr3 := kpgdir s - KERNBASE\<rparr>"
  have "upd_cpu (cur s) (\<lambda>q. q\<lparr>cproc := None\<rparr>) (acquired PtableLock ?s) = acquired PtableLock (set_cproc None ?s)"
    using acquired_set_cproc [of ?s None PtableLock] assms by (simp add: set_cproc_def)
  then show ?thesis
    using assms by (simp add: scheduler_back_def mycpu_acquired switchkvm_def)
qed

lemma scheduler_end_ok:
  "cpu_ok s \<Longrightarrow> lock_free PtableLock s \<Longrightarrow> scheduler_end (acquired PtableLock s) = Ok (touched s)"
  by (simp add: scheduler_end_def release_held released_acquired)

lemma yield_ok:
  assumes "cpu_ok s" "lock_free PtableLock s" "ncli (curcpu s) = 0" "curproc s = Some i"
    "i < length (ptable s)"
  shows "yield s = Ok (saved_intena s, acquired PtableLock (upd_proc i (\<lambda>q. q\<lparr>pstate := RUNNABLE\<rparr>) s))"
  using assms by (simp add: yield_def acquire_free myproc_ok sched_ok ptable_upd_proc)

lemma yield_return_ok:
  assumes "cpu_ok s" "ncli (curcpu s) = 0" "lock_free PtableLock s"
  shows "yield_return ie (acquired PtableLock s) = Ok (resumed ie s)"
  using assms released_resumed [OF assms] in_section_upd_cpu_intena [of "acquired PtableLock s"]
  by (simp add: yield_return_def sched_return_def mycpu_acquired release_held)

end
