(* ===== verification/Cstring.thy ===== *)
theory Cstring
  imports Xv6_Prelude
begin

text \<open>
  The kernel's string and memory functions (\<open>string.c\<close>). Functions that only read take
  each pointer as the function from offsets to bytes that it denotes. Functions that write
  work on one byte-addressed memory, so that overlapping arguments are covered. A loop
  that counts \<open>n\<close> down is recursion on the number of iterations left; \<open>strlen\<close>, which has
  no bound, is a partial function. The second half gives each function its specification.
\<close>

section \<open>Definitions\<close>

type_synonym memory = "u32 \<Rightarrow> u8"
type_synonym reader = "nat \<Rightarrow> u8"

text \<open>Writing \<open>n\<close> bytes (\<open>stosb\<close>) or words (\<open>stosl\<close>) from \<open>d\<close> on.\<close>

fun stosb :: "memory \<Rightarrow> u32 \<Rightarrow> u8 \<Rightarrow> nat \<Rightarrow> memory" where
  "stosb m d c 0 = m"
| "stosb m d c (Suc n) = stosb (m(d := c)) (d + 1) c n"

definition store32 :: "memory \<Rightarrow> u32 \<Rightarrow> u32 \<Rightarrow> memory" where
  "store32 m a w = m(a := ucast w, a + 1 := ucast (drop_bit 8 w),
     a + 2 := ucast (drop_bit 16 w), a + 3 := ucast (drop_bit 24 w))"

definition load32 :: "memory \<Rightarrow> u32 \<Rightarrow> u32" where
  "load32 m a = or (or (or (ucast (m a)) (push_bit 8 (ucast (m (a + 1)))))
     (push_bit 16 (ucast (m (a + 2))))) (push_bit 24 (ucast (m (a + 3))))"

fun stosl :: "memory \<Rightarrow> u32 \<Rightarrow> u32 \<Rightarrow> nat \<Rightarrow> memory" where
  "stosl m d w 0 = m"
| "stosl m d w (Suc n) = stosl (store32 m d w) (d + 4) w n"

text \<open>\<open>(c<<24)|(c<<16)|(c<<8)|c\<close> for a byte \<open>c\<close>.\<close>

definition rep_byte :: "u8 \<Rightarrow> u32" where
  "rep_byte c = (let w = ucast c in
     or (or (or (push_bit 24 w) (push_bit 16 w)) (push_bit 8 w)) w)"

definition memset :: "memory \<Rightarrow> u32 \<Rightarrow> u8 \<Rightarrow> u32 \<Rightarrow> memory" where
  "memset m dst c n =
     (if dst mod 4 = 0 \<and> n mod 4 = 0
      then stosl m dst (rep_byte c) (unat (n div 4))
      else stosb m dst c (unat n))"

fun memcmp :: "reader \<Rightarrow> reader \<Rightarrow> nat \<Rightarrow> int" where
  "memcmp s1 s2 0 = 0"
| "memcmp s1 s2 (Suc n) =
     (if s1 0 \<noteq> s2 0 then uint (s1 0) - uint (s2 0)
      else memcmp (\<lambda>i. s1 (Suc i)) (\<lambda>i. s2 (Suc i)) n)"

fun copy_up :: "memory \<Rightarrow> u32 \<Rightarrow> u32 \<Rightarrow> nat \<Rightarrow> memory" where
  "copy_up m d s 0 = m"
| "copy_up m d s (Suc n) = copy_up (m(d := m s)) (d + 1) (s + 1) n"

fun copy_down :: "memory \<Rightarrow> u32 \<Rightarrow> u32 \<Rightarrow> nat \<Rightarrow> memory" where
  "copy_down m d s 0 = m"
| "copy_down m d s (Suc n) = copy_down (m(d - 1 := m (s - 1))) (d - 1) (s - 1) n"

definition memmove :: "memory \<Rightarrow> u32 \<Rightarrow> u32 \<Rightarrow> u32 \<Rightarrow> memory" where
  "memmove m dst src n =
     (if src < dst \<and> src + n > dst
      then copy_down m (dst + n) (src + n) (unat n)
      else copy_up m dst src (unat n))"

definition memcpy :: "memory \<Rightarrow> u32 \<Rightarrow> u32 \<Rightarrow> u32 \<Rightarrow> memory" where
  "memcpy m dst src n = memmove m dst src n"

fun strncmp :: "reader \<Rightarrow> reader \<Rightarrow> nat \<Rightarrow> int" where
  "strncmp p q 0 = 0"
| "strncmp p q (Suc n) =
     (if p 0 \<noteq> 0 \<and> p 0 = q 0 then strncmp (\<lambda>i. p (Suc i)) (\<lambda>i. q (Suc i)) n
      else uint (p 0) - uint (q 0))"

fun strncpy_loop :: "memory \<Rightarrow> u32 \<Rightarrow> u32 \<Rightarrow> nat \<Rightarrow> memory" where
  "strncpy_loop m s t 0 = m"
| "strncpy_loop m s t (Suc n) =
     (let c = m t; m1 = m(s := c) in
      if c \<noteq> 0 then strncpy_loop m1 (s + 1) (t + 1) n
      else stosb m1 (s + 1) 0 n)"

text \<open>
  For a length that is not positive \<open>strncpy\<close> still decrements it twice; at the two smallest
  numbers of type \<open>int\<close> this overflows, which the language leaves undefined.
\<close>

definition strncpy_overflows :: "int \<Rightarrow> bool" where
  "strncpy_overflows n \<longleftrightarrow> n - 2 < - 2147483648"

definition strncpy :: "memory \<Rightarrow> u32 \<Rightarrow> u32 \<Rightarrow> int \<Rightarrow> memory outcome" where
  "strncpy m s t n = (if strncpy_overflows n then Fault else Ok (strncpy_loop m s t (nat n)))"

fun safestrcpy_loop :: "memory \<Rightarrow> u32 \<Rightarrow> u32 \<Rightarrow> nat \<Rightarrow> memory" where
  "safestrcpy_loop m s t 0 = m(s := 0)"
| "safestrcpy_loop m s t (Suc n) =
     (let c = m t; m1 = m(s := c) in
      if c \<noteq> 0 then safestrcpy_loop m1 (s + 1) (t + 1) n
      else m1(s + 1 := 0))"

definition safestrcpy :: "memory \<Rightarrow> u32 \<Rightarrow> u32 \<Rightarrow> int \<Rightarrow> memory" where
  "safestrcpy m s t n = (if n \<le> 0 then m else safestrcpy_loop m s t (nat (n - 1)))"

partial_function (option) strlen_from :: "reader \<Rightarrow> nat \<Rightarrow> nat option" where
  "strlen_from s n = (if s n = 0 then Some n else strlen_from s (Suc n))"

definition strlen :: "reader \<Rightarrow> nat option" where
  "strlen s = strlen_from s 0"

section \<open>Readers\<close>

text \<open>A byte array as a reader; the bytes of a string literal are followed by zeros.\<close>

definition reader_of :: "u8 list \<Rightarrow> reader" where
  "reader_of xs i = (if i < length xs then xs ! i else 0)"

definition bytes_of :: "string \<Rightarrow> u8 list" where
  "bytes_of s = map (\<lambda>c. word_of_nat (of_char c)) s"

definition at :: "memory \<Rightarrow> u32 \<Rightarrow> reader" where
  "at m a i = m (a + word_of_nat i)"

definition read_bytes :: "memory \<Rightarrow> u32 \<Rightarrow> nat \<Rightarrow> u8 list" where
  "read_bytes m a n = map (at m a) [0..<n]"

text \<open>
  What \<open>strncpy\<close> writes when the destination does not overlap the source: \<open>n\<close> bytes, the
  source up to and including its first zero byte, and zeros after it; and how many bytes of
  the source it reads.
\<close>

fun strncpy_out :: "reader \<Rightarrow> nat \<Rightarrow> u8 list" where
  "strncpy_out t 0 = []"
| "strncpy_out t (Suc n) =
     (if t 0 \<noteq> 0 then t 0 # strncpy_out (\<lambda>i. t (Suc i)) n else replicate (Suc n) 0)"

fun strncpy_reads :: "reader \<Rightarrow> nat \<Rightarrow> nat" where
  "strncpy_reads t 0 = 0"
| "strncpy_reads t (Suc n) = (if t 0 \<noteq> 0 then Suc (strncpy_reads (\<lambda>i. t (Suc i)) n) else 1)"

fun write_bytes :: "memory \<Rightarrow> u32 \<Rightarrow> u8 list \<Rightarrow> memory" where
  "write_bytes m a [] = m"
| "write_bytes m a (b # bs) = write_bytes (m(a := b)) (a + 1) bs"


section \<open>Reading functions\<close>

lemma strlen_from_Some:
  assumes "s (n + k) = 0" and "\<forall>i<k. s (n + i) \<noteq> 0"
  shows "strlen_from s n = Some (n + k)"
  using assms
proof (induction k arbitrary: n)
  case 0
  then show ?case by (simp add: strlen_from.simps)
next
  case (Suc k)
  have "s n \<noteq> 0" using Suc.prems(2) [rule_format, of 0] by simp
  moreover have "\<forall>i<k. s (Suc n + i) \<noteq> 0"
    using Suc.prems(2) [rule_format, of "Suc _"] by simp
  ultimately show ?case
    using Suc.IH [of "Suc n"] Suc.prems(1) by (subst strlen_from.simps) simp
qed

lemma strlen_from_SomeD:
  assumes "strlen_from s n = Some r"
  shows "n \<le> r \<and> s r = 0 \<and> (\<forall>i. n \<le> i \<and> i < r \<longrightarrow> s i \<noteq> 0)"
proof (rule strlen_from.raw_induct [where P = "\<lambda>s n r. n \<le> r \<and> s r = 0 \<and> (\<forall>i. n \<le> i \<and> i < r \<longrightarrow> s i \<noteq> 0)", OF _ assms])
  fix f s n r
  assume IH: "\<And>s n r. f s n = Some r \<Longrightarrow> n \<le> r \<and> s r = 0 \<and> (\<forall>i. n \<le> i \<and> i < r \<longrightarrow> s i \<noteq> 0)"
    and eq: "(if s n = 0 then Some n else f s (Suc n)) = Some r"
  show "n \<le> r \<and> s r = 0 \<and> (\<forall>i. n \<le> i \<and> i < r \<longrightarrow> s i \<noteq> 0)"
  proof (cases "s n = 0")
    case True
    with eq show ?thesis by auto
  next
    case False
    with eq have "f s (Suc n) = Some r" by simp
    note r = IH [OF this]
    have "s i \<noteq> 0" if "n \<le> i" "i < r" for i
      using r that False by (cases "i = n") auto
    with r show ?thesis by auto
  qed
qed

lemma strlen_Some_iff: "strlen s = Some n \<longleftrightarrow> s n = 0 \<and> (\<forall>i<n. s i \<noteq> 0)"
proof
  assume "strlen s = Some n"
  then show "s n = 0 \<and> (\<forall>i<n. s i \<noteq> 0)"
    using strlen_from_SomeD [of s 0 n] by (simp add: strlen_def)
next
  assume "s n = 0 \<and> (\<forall>i<n. s i \<noteq> 0)"
  then show "strlen s = Some n"
    using strlen_from_Some [of s 0 n] unfolding strlen_def add_0 by blast
qed

text \<open>\<open>strlen\<close> returns exactly when there is a zero byte to find.\<close>

lemma strlen_returns_iff: "(\<exists>n. strlen s = Some n) \<longleftrightarrow> (\<exists>n. s n = 0)"
proof
  assume "\<exists>n. s n = 0"
  then have "s (LEAST n. s n = 0) = 0" by (rule LeastI_ex)
  moreover have "\<forall>i<(LEAST n. s n = 0). s i \<noteq> 0" by (blast dest: not_less_Least)
  ultimately show "\<exists>n. strlen s = Some n" unfolding strlen_Some_iff by blast
next
  assume "\<exists>n. strlen s = Some n"
  then show "\<exists>n. s n = 0" unfolding strlen_Some_iff by blast
qed

text \<open>\<open>strncmp\<close> is zero exactly when the strings agree up to \<open>n\<close> bytes or a common end.\<close>

lemma strncmp_0_iff:
  "strncmp p q n = 0 \<longleftrightarrow> (\<forall>i<n. (\<forall>j<i. p j \<noteq> 0) \<longrightarrow> p i = q i)"
proof (induction n arbitrary: p q)
  case 0
  then show ?case by simp
next
  case (Suc n)
  show ?case
  proof (cases "p 0 \<noteq> 0 \<and> p 0 = q 0")
    case True
    have "(\<forall>i<Suc n. (\<forall>j<i. p j \<noteq> 0) \<longrightarrow> p i = q i) \<longleftrightarrow>
        (\<forall>i<n. (\<forall>j<Suc i. p j \<noteq> 0) \<longrightarrow> p (Suc i) = q (Suc i))"
      using True by (auto simp: less_Suc_eq_0_disj)
    also have "\<dots> \<longleftrightarrow> (\<forall>i<n. (\<forall>j<i. p (Suc j) \<noteq> 0) \<longrightarrow> p (Suc i) = q (Suc i))"
      using True by (auto simp: less_Suc_eq_0_disj)
    also have "\<dots> \<longleftrightarrow> strncmp p q (Suc n) = 0"
    proof -
      have "strncmp p q (Suc n) = strncmp (\<lambda>i. p (Suc i)) (\<lambda>i. q (Suc i)) n"
        using True by (subst strncmp.simps) (rule if_P)
      then show ?thesis by (simp only: Suc.IH)
    qed
    finally show ?thesis by (rule sym)
  next
    case False
    show ?thesis
    proof (cases "p 0 = q 0")
      case True
      with False have "\<forall>i<Suc n. (\<forall>j<i. p j \<noteq> 0) \<longrightarrow> p i = q i"
        by (metis gr0I)
      moreover have "strncmp p q (Suc n) = 0" using True False by simp
      ultimately show ?thesis by blast
    next
      case ne: False
      then have "\<not> (\<forall>i<Suc n. (\<forall>j<i. p j \<noteq> 0) \<longrightarrow> p i = q i)" by blast
      moreover have "strncmp p q (Suc n) \<noteq> 0" using ne by (simp add: word_uint_eq_iff)
      ultimately show ?thesis by blast
    qed
  qed
qed

lemma strncpy_out_length [simp]: "length (strncpy_out t n) = n"
  by (induction t n rule: strncpy_out.induct) simp_all

lemma strncpy_out_nth:
  "i < n \<Longrightarrow> strncpy_out t n ! i = (if \<forall>j<i. t j \<noteq> 0 then t i else 0)"
proof (induction n arbitrary: t i)
  case 0
  then show ?case by simp
next
  case (Suc n)
  then show ?case
    by (cases i) (auto simp: less_Suc_eq_0_disj)
qed

lemma strncpy_reads_less_iff:
  "i < strncpy_reads t n \<longleftrightarrow> i < n \<and> (\<forall>j<i. t j \<noteq> 0)"
proof (induction n arbitrary: t i)
  case 0
  then show ?case by simp
next
  case (Suc n)
  then show ?case
    by (cases i) (auto simp: less_Suc_eq_0_disj)
qed

lemma strncpy_reads_le: "strncpy_reads t n \<le> n"
  by (induction t n rule: strncpy_reads.induct) auto

text \<open>A string that fits is copied whole, with its end marker.\<close>

lemma strncpy_out_strlen:
  assumes "strlen t = Some k" and "k < n"
  shows "strncpy_out t n = map t [0..<k] @ replicate (n - k) 0"
proof (rule nth_equalityI)
  show "length (strncpy_out t n) = length (map t [0..<k] @ replicate (n - k) 0)"
    using assms(2) by simp
next
  fix i
  assume "i < length (strncpy_out t n)"
  then have i: "i < n" by simp
  have z: "t k = 0" "\<forall>j<k. t j \<noteq> 0" using assms(1) by (simp_all add: strlen_Some_iff)
  show "strncpy_out t n ! i = (map t [0..<k] @ replicate (n - k) 0) ! i"
  proof (cases "i < k")
    case True
    with i z show ?thesis by (simp add: strncpy_out_nth nth_append)
  next
    case False
    then have "(if \<forall>j<i. t j \<noteq> 0 then t i else 0) = 0"
      using z(1) by (metis linorder_neqE_nat)
    then have "strncpy_out t n ! i = 0" using i by (simp only: strncpy_out_nth)
    with False i assms(2) show ?thesis by (simp add: nth_append)
  qed
qed


section \<open>Writing functions\<close>

text \<open>Addresses are compared by their distance from the start of the region written.\<close>

lemma unat_minus_Suc: "(w :: u32) \<noteq> 0 \<Longrightarrow> unat w = Suc (unat (w - 1))"
  by (simp add: unat_minus_one unat_gt_0)

lemma unat_diff_step: "(x :: u32) \<noteq> a \<Longrightarrow> unat (x - a) = Suc (unat (x - (a + 1)))"
  using unat_minus_Suc [of "x - a"] by (simp add: algebra_simps)

lemma unat_max: "unat (- 1 :: u32) = 4294967295"
  by (simp add: unsigned_minus_1_eq_mask mask_eq_exp_minus_1)

lemma unat_lt2p_u32: "unat (w :: u32) \<le> 4294967295"
  using word_le_nat_alt [of w "- 1"] unat_max by simp

lemma write_bytes_spec:
  assumes "length bs \<le> 4294967296"
  shows "write_bytes m a bs x = (if unat (x - a) < length bs then bs ! unat (x - a) else m x)"
  using assms
proof (induction bs arbitrary: m a)
  case Nil
  then show ?case by simp
next
  case (Cons b bs)
  show ?case
  proof (cases "x = a")
    case True
    then have "\<not> unat (x - (a + 1)) < length bs"
      using Cons.prems by (simp add: unat_max)
    with True Cons show ?thesis by simp
  next
    case False
    with Cons show ?thesis by (simp add: unat_diff_step [of x a])
  qed
qed

lemma stosb_write_bytes: "stosb m d c n = write_bytes m d (replicate n c)"
  by (induction n arbitrary: m d) simp_all

lemma write_bytes_append:
  "write_bytes m a (xs @ ys) = write_bytes (write_bytes m a xs) (a + word_of_nat (length xs)) ys"
  by (induction xs arbitrary: m a) (simp_all add: algebra_simps)

text \<open>The word loop of \<open>memset\<close> writes the same bytes as the byte loop.\<close>

lemma ucast_rep_byte:
  assumes "k \<in> {0, 8, 16, 24}"
  shows "ucast (drop_bit k (rep_byte c)) = c"
proof (rule bit_word_eqI)
  fix n
  assume "n < LENGTH(8)"
  then have n: "n < 8" by simp
  have "\<not> bit c i" if "8 \<le> i" for i
    using bit_imp_le_length [of c i] that by auto
  then have "\<not> bit c (8 + n)" "\<not> bit c (16 + n)" "\<not> bit c (24 + n)" by simp_all
  moreover have "k = 0 \<or> k = 8 \<or> k = 16 \<or> k = 24" using assms by simp
  ultimately show "bit (ucast (drop_bit k (rep_byte c)) :: u8) n = bit c n"
    using n by (elim disjE) (simp_all add: rep_byte_def Let_def bit_simps)
qed

lemma store32_rep_byte: "store32 m a (rep_byte c) = write_bytes m a (replicate 4 c)"
proof -
  have "replicate 4 c = [c, c, c, c]" by (simp add: numeral_eq_Suc)
  then show ?thesis
    using ucast_rep_byte [of 0 c] by (simp add: store32_def ucast_rep_byte add.assoc)
qed

lemma stosl_write_bytes: "stosl m d (rep_byte c) n = write_bytes m d (replicate (4 * n) c)"
proof (induction n arbitrary: m d)
  case 0
  then show ?case by simp
next
  case (Suc n)
  have "replicate (4 * Suc n) c = replicate 4 c @ replicate (4 * n) c"
    by (simp add: replicate_add [symmetric])
  with Suc show ?case
    by (simp add: store32_rep_byte write_bytes_append del: replicate.simps)
qed

lemma memset_write_bytes: "memset m d c n = write_bytes m d (replicate (unat n) c)"
proof -
  have "n mod 4 = 0 \<Longrightarrow> 4 * unat (n div 4) = unat n"
  proof -
    assume "n mod 4 = 0"
    then have "unat n mod 4 = 0"
      using unat_mod [of n 4] by simp
    moreover have "unat (n div 4) = unat n div 4" by (simp add: unat_div)
    ultimately show ?thesis by presburger
  qed
  then show ?thesis
    by (simp add: memset_def stosl_write_bytes stosb_write_bytes)
qed


text \<open>
  The two copy loops, as long as no byte is overwritten before it has been read: going up,
  no later source byte is the first destination byte; going down, no earlier one the last.
\<close>

lemma copy_up_spec:
  assumes "\<And>k. 0 < k \<Longrightarrow> k < n \<Longrightarrow> s + word_of_nat k \<noteq> d" and "n \<le> 4294967296"
  shows "copy_up m d s n x = (if unat (x - d) < n then m (s + (x - d)) else m x)"
  using assms
proof (induction n arbitrary: m d s)
  case 0
  then show ?case by simp
next
  case (Suc n)
  have "(s + 1) + word_of_nat k \<noteq> d + 1" if "0 < k" "k < n" for k
    using Suc.prems(1) [of k] that by (simp add: algebra_simps)
  then have IH: "copy_up (m(d := m s)) (d + 1) (s + 1) n x =
      (if unat (x - (d + 1)) < n then (m(d := m s)) (s + 1 + (x - (d + 1))) else (m(d := m s)) x)"
    using Suc.prems(2) by (intro Suc.IH) simp_all
  show ?case
  proof (cases "x = d")
    case True
    with Suc.prems(2) IH show ?thesis by (simp add: unat_max)
  next
    case False
    note u = unat_diff_step [OF False]
    have "s + (x - d) \<noteq> d" if "unat (x - (d + 1)) < n"
      using Suc.prems(1) [of "unat (x - d)"] u that by simp
    with False IH u show ?thesis by simp
  qed
qed

lemma copy_down_spec:
  assumes "\<And>k. 0 < k \<Longrightarrow> k < n \<Longrightarrow> s - word_of_nat k \<noteq> d" and "n \<le> 4294967296"
  shows "copy_down m d s n x = (if unat (d - 1 - x) < n then m (s - (d - x)) else m x)"
  using assms
proof (induction n arbitrary: m d s)
  case 0
  then show ?case by simp
next
  case (Suc n)
  have "(s - 1) - word_of_nat k \<noteq> d - 1" if "0 < k" "k < n" for k
    using Suc.prems(1) [of k] that by (simp add: algebra_simps)
  then have IH: "copy_down (m(d - 1 := m (s - 1))) (d - 1) (s - 1) n x =
      (if unat (d - 1 - 1 - x) < n then (m(d - 1 := m (s - 1))) (s - 1 - (d - 1 - x))
       else (m(d - 1 := m (s - 1))) x)"
    using Suc.prems(2) by (intro Suc.IH) simp_all
  show ?case
  proof (cases "x = d - 1")
    case True
    with Suc.prems(2) IH show ?thesis by (simp add: unat_max)
  next
    case False
    then have u: "unat (d - 1 - x) = Suc (unat (d - 1 - 1 - x))"
      using unat_minus_Suc [of "d - 1 - x"] by (simp add: algebra_simps)
    have "s - (d - x) \<noteq> d - 1" if "unat (d - 1 - 1 - x) < n"
      using Suc.prems(1) [of "unat (d - 1 - x)"] u that by (simp add: algebra_simps)
    with False IH u show ?thesis by (simp add: algebra_simps)
  qed
qed

lemma unat_reverse_less: "unat (n - 1 - w) < unat n \<longleftrightarrow> unat (w :: u32) < unat n"
proof -
  have "unat (n - 1 - v) < unat n" if "unat v < unat n" for v :: u32
  proof -
    have "v \<le> n - 1"
      using that by (metis leD not_less order_less_irrefl unat_1 unat_minus_Suc word_le_nat_alt
          less_Suc_eq_le unat_eq_zero zero_order(3))
    then have "unat (n - 1 - v) = unat (n - 1) - unat v" by (rule unat_sub)
    moreover have "unat n = Suc (unat (n - 1))"
      using that by (intro unat_minus_Suc) auto
    ultimately show ?thesis by simp
  qed
  from this [of w] this [of "n - 1 - w"] show ?thesis by (auto simp: algebra_simps)
qed

lemma memmove_spec:
  assumes "unat s + unat n < 4294967296" and "unat d + unat n \<le> 4294967296"
  shows "memmove m d s n x = (if unat (x - d) < unat n then m (s + (x - d)) else m x)"
proof (cases "s < d \<and> s + n > d")
  case True
  have "(s + n) - word_of_nat k \<noteq> d + n" if k: "0 < k" "k < unat n" for k
  proof
    assume "(s + n) - word_of_nat k = d + n"
    then have e: "s = d + word_of_nat k" by (simp add: algebra_simps)
    have "unat (d + word_of_nat k) = unat d + k"
      using k assms by (simp add: unat_word_ariths unat_of_nat)
    with e True show False by (simp add: word_less_nat_alt)
  qed
  then have "memmove m d s n x =
      (if unat (d + n - 1 - x) < unat n then m (s + n - (d + n - x)) else m x)"
    using True assms by (simp add: memmove_def copy_down_spec)
  moreover have "unat (d + n - 1 - x) < unat n \<longleftrightarrow> unat (x - d) < unat n"
    using unat_reverse_less [of n "x - d"] by (simp add: algebra_simps)
  ultimately show ?thesis by (simp add: algebra_simps)
next
  case False
  have "s + word_of_nat k \<noteq> d" if k: "0 < k" "k < unat n" for k
  proof
    assume e: "s + word_of_nat k = d"
    have sk: "unat (s + word_of_nat k) = unat s + k"
      using k assms by (simp add: unat_word_ariths unat_of_nat)
    have "unat (s + n) = unat s + unat n"
      using assms by (simp add: unat_word_ariths)
    with False e sk k show False by (auto simp: word_less_nat_alt)
  qed
  then show ?thesis
    using False assms by (auto simp: memmove_def copy_up_spec)
qed


lemma strncpy_out_cong: "(\<And>i. i < n \<Longrightarrow> f i = g i) \<Longrightarrow> strncpy_out f n = strncpy_out g n"
proof (induction n arbitrary: f g)
  case 0
  then show ?case by simp
next
  case (Suc n)
  have "f 0 = g 0" using Suc.prems [of 0] by simp
  moreover have "strncpy_out (\<lambda>i. f (Suc i)) n = strncpy_out (\<lambda>i. g (Suc i)) n"
    using Suc.prems [of "Suc _"] by (intro Suc.IH) simp
  ultimately show ?case by simp
qed

lemma at_Suc: "at m a (Suc i) = at m (a + 1) i"
  by (simp add: at_def algebra_simps)

text \<open>
  \<open>strncpy\<close> and \<open>safestrcpy\<close> when no destination byte is a later source byte: the bytes
  written are those of \<open>strncpy_out\<close>, and of \<open>safestrcpy_out\<close>.
\<close>

lemma strncpy_loop_spec:
  assumes "\<And>k. k < n \<Longrightarrow> 0 < k \<Longrightarrow> t + word_of_nat k \<noteq> s"
  shows "strncpy_loop m s t n = write_bytes m s (strncpy_out (at m t) n)"
  using assms
proof (induction n arbitrary: m s t)
  case 0
  then show ?case by simp
next
  case (Suc n)
  have "(t + 1) + word_of_nat k \<noteq> s + 1" if "k < n" "0 < k" for k
    using Suc.prems [of k] that by (simp add: algebra_simps)
  then have IH: "strncpy_loop (m(s := m t)) (s + 1) (t + 1) n =
      write_bytes (m(s := m t)) (s + 1) (strncpy_out (at (m(s := m t)) (t + 1)) n)"
    by (rule Suc.IH)
  have "at (m(s := m t)) (t + 1) i = at m t (Suc i)" if "i < n" for i
    using Suc.prems [of "Suc i"] that by (simp add: at_def algebra_simps)
  then have "strncpy_out (at (m(s := m t)) (t + 1)) n = strncpy_out (\<lambda>i. at m t (Suc i)) n"
    by (rule strncpy_out_cong)
  with IH show ?case
    by (simp add: Let_def at_def [of m t 0] stosb_write_bytes)
qed

lemma strncpy_spec:
  assumes "\<And>k. k < nat n \<Longrightarrow> 0 < k \<Longrightarrow> t + word_of_nat k \<noteq> s" "\<not> strncpy_overflows n"
  shows "strncpy m s t n = Ok (write_bytes m s (strncpy_out (at m t) (nat n)))"
  using assms by (simp add: strncpy_def strncpy_loop_spec)

lemma strncpy_no_overflow: "0 \<le> n \<Longrightarrow> \<not> strncpy_overflows n"
  by (simp add: strncpy_overflows_def)

fun safestrcpy_out :: "reader \<Rightarrow> nat \<Rightarrow> u8 list" where
  "safestrcpy_out t 0 = [0]"
| "safestrcpy_out t (Suc n) =
     (if t 0 \<noteq> 0 then t 0 # safestrcpy_out (\<lambda>i. t (Suc i)) n else [0, 0])"

lemma safestrcpy_out_cong: "(\<And>i. i < n \<Longrightarrow> f i = g i) \<Longrightarrow> safestrcpy_out f n = safestrcpy_out g n"
proof (induction n arbitrary: f g)
  case 0
  then show ?case by simp
next
  case (Suc n)
  have "f 0 = g 0" using Suc.prems [of 0] by simp
  moreover have "safestrcpy_out (\<lambda>i. f (Suc i)) n = safestrcpy_out (\<lambda>i. g (Suc i)) n"
    using Suc.prems [of "Suc _"] by (intro Suc.IH) simp
  ultimately show ?case by simp
qed

lemma safestrcpy_loop_spec:
  assumes "\<And>k. k < n \<Longrightarrow> 0 < k \<Longrightarrow> t + word_of_nat k \<noteq> s"
  shows "safestrcpy_loop m s t n = write_bytes m s (safestrcpy_out (at m t) n)"
  using assms
proof (induction n arbitrary: m s t)
  case 0
  then show ?case by simp
next
  case (Suc n)
  have "(t + 1) + word_of_nat k \<noteq> s + 1" if "k < n" "0 < k" for k
    using Suc.prems [of k] that by (simp add: algebra_simps)
  then have IH: "safestrcpy_loop (m(s := m t)) (s + 1) (t + 1) n =
      write_bytes (m(s := m t)) (s + 1) (safestrcpy_out (at (m(s := m t)) (t + 1)) n)"
    by (rule Suc.IH)
  have "at (m(s := m t)) (t + 1) i = at m t (Suc i)" if "i < n" for i
    using Suc.prems [of "Suc i"] that by (simp add: at_def algebra_simps)
  then have "safestrcpy_out (at (m(s := m t)) (t + 1)) n = safestrcpy_out (\<lambda>i. at m t (Suc i)) n"
    by (rule safestrcpy_out_cong)
  with IH show ?case
    by (cases "m t = 0") (simp_all add: Let_def at_def [of m t 0] fun_upd_def)
qed

lemma safestrcpy_out_has_zero: "\<exists>i<length (safestrcpy_out t n). safestrcpy_out t n ! i = 0"
proof (induction n arbitrary: t)
  case 0
  then show ?case by simp
next
  case (Suc n)
  then obtain i where "i < length (safestrcpy_out (\<lambda>i. t (Suc i)) n)" "safestrcpy_out (\<lambda>i. t (Suc i)) n ! i = 0"
    by blast
  then show ?case
    by (cases "t 0 = 0") (auto intro: exI [of _ "Suc i"] exI [of _ 0])
qed

lemma strlen_Suc:
  assumes "s 0 \<noteq> 0"
  shows "strlen s = Some (Suc k) \<longleftrightarrow> strlen (\<lambda>i. s (Suc i)) = Some k"
proof -
  have "(\<forall>i<Suc k. s i \<noteq> 0) \<longleftrightarrow> (\<forall>i<k. s (Suc i) \<noteq> 0)"
    using assms unfolding All_less_Suc2 by blast
  then show ?thesis unfolding strlen_Some_iff by blast
qed

lemma reader_of_Cons_Suc: "(\<lambda>i. reader_of (x # xs) (Suc i)) = reader_of xs"
  by (simp add: reader_of_def fun_eq_iff)

text \<open>The copy ends within its bound, and is a prefix of the source.\<close>

lemma safestrcpy_out_terminated:
  "\<exists>k\<le>n. strlen (reader_of (safestrcpy_out t n)) = Some k \<and>
     take k (safestrcpy_out t n) = map t [0..<k] \<and> length (safestrcpy_out t n) \<le> Suc n"
proof (induction n arbitrary: t)
  case 0
  then show ?case by (simp add: strlen_Some_iff reader_of_def)
next
  case (Suc n)
  show ?case
  proof (cases "t 0 = 0")
    case True
    then have "strlen (reader_of (safestrcpy_out t (Suc n))) = Some 0"
      by (simp add: strlen_Some_iff reader_of_def)
    with True show ?thesis by (intro exI [of _ 0]) simp
  next
    case False
    from Suc.IH [of "\<lambda>i. t (Suc i)"] obtain k where k: "k \<le> n"
      "strlen (reader_of (safestrcpy_out (\<lambda>i. t (Suc i)) n)) = Some k"
      "take k (safestrcpy_out (\<lambda>i. t (Suc i)) n) = map (\<lambda>i. t (Suc i)) [0..<k]"
      "length (safestrcpy_out (\<lambda>i. t (Suc i)) n) \<le> Suc n" by blast
    have "strlen (reader_of (safestrcpy_out t (Suc n))) = Some (Suc k)"
      using k(2) False by (simp add: strlen_Suc reader_of_Cons_Suc reader_of_def [of _ 0])
    moreover have "take (Suc k) (safestrcpy_out t (Suc n)) = map t [0..<Suc k]"
      using k(3) False by (simp add: map_upt_Suc del: upt_Suc)
    ultimately show ?thesis using k(1,4) False by (intro exI [of _ "Suc k"]) simp
  qed
qed

section \<open>Words in memory\<close>

lemma bytes_of_word:
  "or (or (or (ucast (ucast w :: u8)) (push_bit 8 (ucast (ucast (drop_bit 8 w) :: u8))))
     (push_bit 16 (ucast (ucast (drop_bit 16 w) :: u8)))) (push_bit 24 (ucast (ucast (drop_bit 24 w) :: u8))) = (w :: u32)"
proof (rule bit_word_eqI)
  fix n assume "n < LENGTH(32)"
  then have n: "n < 32" by simp
  consider "n < 8" | "8 \<le> n" "n < 16" | "16 \<le> n" "n < 24" | "24 \<le> n" by linarith
  then show "bit (or (or (or (ucast (ucast w :: u8)) (push_bit 8 (ucast (ucast (drop_bit 8 w) :: u8))))
     (push_bit 16 (ucast (ucast (drop_bit 16 w) :: u8)))) (push_bit 24 (ucast (ucast (drop_bit 24 w) :: u8))) :: u32) n = bit w n"
    using n by cases (auto simp: bit_simps)
qed

lemma load_store32: "load32 (store32 m a w) a = w"
  using bytes_of_word [of w] by (simp add: load32_def store32_def)

text \<open>A word is not touched by a write of a word, or of bytes, that does not overlap it.\<close>

lemma load32_cong: "m a = m' a \<Longrightarrow> m (a + 1) = m' (a + 1) \<Longrightarrow> m (a + 2) = m' (a + 2) \<Longrightarrow> m (a + 3) = m' (a + 3) \<Longrightarrow>
  load32 m a = load32 m' a"
  by (simp add: load32_def)

lemma store32_other:
  assumes "4 \<le> unat (x - a)"
  shows "store32 m a w x = m x"
proof -
  have "x \<noteq> a + of_nat k" if "k < 4" for k
    using assms that by (auto simp: unat_of_nat)
  from this [of 0] this [of 1] this [of 2] this [of 3] show ?thesis
    by (simp add: store32_def)
qed

section \<open>Properties\<close>

text \<open>
  C27: \<open>memmove\<close> copies \<open>n\<close> bytes as they were before the call, also when source and destination
  overlap in either direction, and changes no other byte, for regions inside the address space.
\<close>

theorem memmove_correct:
  assumes "unat src + unat n < 4294967296" and "unat dst + unat n \<le> 4294967296"
  shows "memmove m dst src n x = (if unat (x - dst) < unat n then m (src + (x - dst)) else m x)"
  by (rule memmove_spec [OF assms])

theorem memmove_correct_witness:
  "memmove (\<lambda>a. if a = 100 then 7 else if a = 101 then 8 else 0) 101 100 2 102 = 8"
  by (subst memmove_correct) simp_all

text \<open>
  C28: \<open>memset\<close> writes whole words when address and length are multiples of four; the result is the
  same memory as writing the bytes one at a time, for every address, byte and length.
\<close>

theorem memset_word_fill: "memset m dst c n = stosb m dst c (unat n)"
  by (simp add: memset_write_bytes stosb_write_bytes)

text \<open>
  C29: \<open>safestrcpy\<close> with \<open>n > 0\<close> leaves at the destination a string that ends within \<open>n\<close> bytes and is a
  prefix of the source, and writes nothing outside those \<open>n\<close> bytes, when no destination byte is a
  later source byte.
\<close>

theorem safestrcpy_terminated:
  assumes n: "0 < n" "n < 2147483648"
    and apart: "\<And>k. k < nat (n - 1) \<Longrightarrow> 0 < k \<Longrightarrow> t + word_of_nat k \<noteq> s"
  shows "\<exists>k<nat n. (\<forall>i<k. at (safestrcpy m s t n) s i = at m t i \<and> at m t i \<noteq> 0) \<and> at (safestrcpy m s t n) s k = 0 \<and>
    (\<forall>x. nat n \<le> unat (x - s) \<longrightarrow> safestrcpy m s t n x = m x)"
proof -
  let ?o = "safestrcpy_out (at m t) (nat (n - 1))"
  have w: "safestrcpy m s t n = write_bytes m s ?o"
    using n safestrcpy_loop_spec [OF apart] by (simp add: safestrcpy_def)
  obtain k where k: "k \<le> nat (n - 1)" "strlen (reader_of ?o) = Some k" "take k ?o = map (at m t) [0..<k]"
    "length ?o \<le> Suc (nat (n - 1))"
    using safestrcpy_out_terminated by blast
  have len: "length ?o \<le> nat n" "nat n < 4294967296" using k(4) n by simp_all
  have rd: "at (safestrcpy m s t n) s i = reader_of ?o i" if "i < length ?o" for i
    using that len by (simp add: w at_def write_bytes_spec reader_of_def unat_of_nat)
  have z: "reader_of ?o k = 0" "\<forall>i<k. reader_of ?o i \<noteq> 0"
    using k(2) by (simp_all add: strlen_Some_iff)
  have kl: "k < length ?o"
  proof (rule ccontr)
    assume "\<not> k < length ?o"
    moreover have "length (take k ?o) = k" using k(3) by simp
    ultimately have "length ?o = k" by simp
    moreover have "\<exists>i<length ?o. ?o ! i = 0"
      using safestrcpy_out_has_zero by blast
    ultimately show False using z(2) by (auto simp: reader_of_def)
  qed
  have pre: "at (safestrcpy m s t n) s i = at m t i \<and> at m t i \<noteq> 0" if "i < k" for i
  proof -
    have "?o ! i = at m t i" using k(3) that kl by (metis (no_types, lifting) add_0 diff_zero length_upt nth_map nth_take nth_upt)
    moreover have "reader_of ?o i \<noteq> 0" using z(2) that by blast
    ultimately show ?thesis using rd [of i] that kl by (simp add: reader_of_def)
  qed
  have "safestrcpy m s t n x = m x" if "nat n \<le> unat (x - s)" for x
    using that len by (simp add: w write_bytes_spec)
  then show ?thesis
    using pre rd [OF kl] z(1) k(1) n by (intro exI [of _ k]) auto
qed

theorem safestrcpy_terminated_witness:
  "\<exists>k<nat 3. at (safestrcpy (\<lambda>a. if a < 10 then 65 else 0) 100 0 3) 100 k = 0"
proof -
  have "(0::u32) + word_of_nat k \<noteq> 100" if "k < nat (3 - 1)" "0 < k" for k
  proof -
    have "k = 1" using that by simp
    then show ?thesis by simp
  qed
  from safestrcpy_terminated [where n = 3 and m = "\<lambda>a. if a < 10 then 65 else 0", OF _ _ this]
  show ?thesis by auto
qed

end
