(* ===== verification/Sock.thy ===== *)
theory Sock
  imports Proc_Table Cstring
begin

text \<open>
  The socket table and its five operations (\<open>sock.c\<close>, \<open>sock.h\<close>, the error codes of
  \<open>signalcodes.h\<close>). A pointer to a socket is an index into \<open>stable.sock\<close>. \<open>listen\<close>, \<open>send\<close>
  and \<open>recv\<close> may put the caller to sleep: they then return \<open>Sleeps k\<close>, where \<open>k\<close> holds the
  local variables that are live after the call of \<open>sleep\<close>, and \<open>sock_resume\<close> continues
  from there. A copy that leaves the 128 byte buffer of a socket, or the user memory of the
  process, is \<open>Fault\<close>.
\<close>

section \<open>State\<close>

abbreviation NPORT :: int where "NPORT \<equiv> 128"
abbreviation NSOCK :: nat where "NSOCK \<equiv> 32"
abbreviation SBUFFSIZE :: nat where "SBUFFSIZE \<equiv> 128"
abbreviation INV_PORT :: int where "INV_PORT \<equiv> -1"

abbreviation E_MISSING_ARG :: int where "E_MISSING_ARG \<equiv> -1"
abbreviation E_NOTFOUND :: int where "E_NOTFOUND \<equiv> -1025"
abbreviation E_ACCESS_DENIED :: int where "E_ACCESS_DENIED \<equiv> -1026"
abbreviation E_WRONG_STATE :: int where "E_WRONG_STATE \<equiv> -1027"
abbreviation E_FAIL :: int where "E_FAIL \<equiv> -1028"
abbreviation E_INVALID_ARG :: int where "E_INVALID_ARG \<equiv> -1029"
abbreviation E_CONNECTION_RESET_BY_REMOTE :: int where "E_CONNECTION_RESET_BY_REMOTE \<equiv> -1030"

datatype sockstate = CLOSED | OPENED | LISTENING | CONNECTED

record sock =
  sid :: int
  sstate :: sockstate
  owner :: "nat option"
  recvbuffer :: "u8 list"
  hasfullbuffer :: bool
  lPort :: int
  rPort :: int

record sk = pt +
  socks :: "sock list"
  countSock :: int
  nextsid :: int

definition upd_sock :: "nat \<Rightarrow> (sock \<Rightarrow> sock) \<Rightarrow> 'a sk_scheme \<Rightarrow> 'a sk_scheme" where
  "upd_sock i f s = s\<lparr>socks := (socks s)[i := f (socks s ! i)]\<rparr>"

text \<open>Where a process that sleeps in a socket operation continues.\<close>

datatype sock_cont =
    ListenK bool
  | SendK bool nat nat u32 int
  | RecvK bool nat nat u32 int

type_synonym 'a sock_result = "((int, sock_cont) blocking \<times> 'a sk_scheme) outcome"

section \<open>Helper functions\<close>

definition sinit :: "'a sk_scheme \<Rightarrow> 'a sk_scheme" where
  "sinit s = (initlock StableLock s)\<lparr>countSock := 0, nextsid := 0\<rparr>"

definition getsock :: "int \<Rightarrow> 'a sk_scheme \<Rightarrow> nat option" where
  "getsock port s =
     (if 0 \<le> port \<and> port < NPORT
      then find_index (\<lambda>k. sstate k \<noteq> CLOSED \<and> lPort k = port) (socks s)
      else None)"

definition setsockvalue ::
  "nat option \<Rightarrow> int \<Rightarrow> sockstate \<Rightarrow> nat option \<Rightarrow> int \<Rightarrow> int \<Rightarrow> bool \<Rightarrow> u8 list \<Rightarrow> bool \<Rightarrow>
   'a sk_scheme \<Rightarrow> 'a sk_scheme" where
  "setsockvalue socket sid' st ow lp rp full buff overWriteToDef s =
     (case socket of
        None \<Rightarrow> s
      | Some i \<Rightarrow>
          upd_sock i (\<lambda>k.
            let copied = strncpy_out (reader_of buff) 1 @ drop 1 (recvbuffer k) in
            if overWriteToDef
            then k\<lparr>owner := ow, sstate := st, lPort := lp, rPort := rp,
                   hasfullbuffer := full, sid := sid', recvbuffer := copied\<rparr>
            else k\<lparr>owner := (if ow \<noteq> None then ow else owner k),
                   sstate := (if st \<noteq> CLOSED then st else sstate k),
                   lPort := (if lp \<noteq> INV_PORT then lp else lPort k),
                   rPort := (if rp \<noteq> INV_PORT then rp else rPort k),
                   hasfullbuffer := (if full \<noteq> False then full else hasfullbuffer k),
                   sid := (if sid' \<noteq> -1 then sid' else sid k),
                   recvbuffer := (if strncmp (reader_of buff) (reader_of []) 1 \<noteq> 0
                                  then copied else recvbuffer k)\<rparr>) s)"

definition resetsock :: "nat option \<Rightarrow> 'a sk_scheme \<Rightarrow> 'a sk_scheme" where
  "resetsock socket s = setsockvalue socket (-1) CLOSED None INV_PORT INV_PORT False [] True s"

definition allocsock :: "int \<Rightarrow> 'a sk_scheme \<Rightarrow> (nat option \<times> 'a sk_scheme) outcome" where
  "allocsock lport s =
     (if lport < 0 \<or> lport \<ge> NPORT \<or> getsock lport s \<noteq> None then Ok (None, s)
      else case find_index (\<lambda>k. sstate k = CLOSED) (socks s) of
             None \<Rightarrow> Ok (None, s)
           | Some i \<Rightarrow>
               andthen (myproc s) (\<lambda>(p, s1).
                 let s2 = setsockvalue (Some i) (nextsid s1) OPENED p lport INV_PORT False [] True s1
                 in Ok (Some i, s2\<lparr>countSock := wrap32 (countSock s2 + 1),
                                   nextsid := wrap32 (nextsid s2 + 1)\<rparr>)))"

text \<open>The loop of \<open>getfreeport\<close>, from \<open>port\<close> down to 1.\<close>

fun getfreeport_from :: "nat \<Rightarrow> 'a sk_scheme \<Rightarrow> int" where
  "getfreeport_from 0 s = INV_PORT"
| "getfreeport_from (Suc n) s =
     (if getsock (int (Suc n)) s = None then int (Suc n) else getfreeport_from n s)"

definition getfreeport :: "'a sk_scheme \<Rightarrow> int" where
  "getfreeport s = getfreeport_from (nat (NPORT - 1)) s"

definition removesock :: "nat option \<Rightarrow> 'a sk_scheme \<Rightarrow> (bool \<times> 'a sk_scheme) outcome" where
  "removesock socket s =
     (case socket of
        None \<Rightarrow> Ok (False, s)
      | Some i \<Rightarrow>
          andthen (wakeup (SockChan i) s) (\<lambda>s1.
            let s2 = resetsock (Some i) s1
            in Ok (True, s2\<lparr>countSock := wrap32 (countSock s2 - 1)\<rparr>)))"

definition retsockfunc :: "int \<Rightarrow> 'a sk_scheme \<Rightarrow> 'a sock_result" where
  "retsockfunc code s = andthen (release StableLock s) (\<lambda>s1. Ok (Return code, s1))"

definition getprocsock :: "nat \<Rightarrow> 'a sk_scheme \<Rightarrow> nat option" where
  "getprocsock p s = find_index (\<lambda>k. sstate k \<noteq> CLOSED \<and> owner k = Some p) (socks s)"

section \<open>The five operations\<close>

definition listen :: "int \<Rightarrow> 'a sk_scheme \<Rightarrow> 'a sock_result" where
  "listen lport s =
     (if lport < 0 \<or> lport \<ge> NPORT then Ok (Return E_INVALID_ARG, s)
      else andthen (acquire StableLock s) (\<lambda>s1.
        if countSock s1 = int NSOCK then retsockfunc E_FAIL s1
        else andthen (allocsock lport s1) (\<lambda>(so, s2).
          case so of
            None \<Rightarrow> retsockfunc E_ACCESS_DENIED s2
          | Some i \<Rightarrow>
              andthen (sleep (SockChan i) (Some StableLock)
                         (upd_sock i (\<lambda>k. k\<lparr>sstate := LISTENING\<rparr>) s2)) (\<lambda>(ie, s3).
              Ok (Sleeps (ListenK ie), s3)))))"

definition connect :: "int \<Rightarrow> reader \<Rightarrow> 'a sk_scheme \<Rightarrow> 'a sock_result" where
  "connect rport host s =
     (if rport < 0 \<or> rport \<ge> NPORT then Ok (Return E_INVALID_ARG, s)
      else case strlen host of
        None \<Rightarrow> Fault
      | Some n \<Rightarrow>
        if strncmp host (reader_of (bytes_of ''localhost'')) n \<noteq> 0 \<and>
           strncmp host (reader_of (bytes_of ''127.0.0.1'')) n \<noteq> 0
        then Ok (Return E_INVALID_ARG, s)
        else andthen (acquire StableLock s) (\<lambda>s1.
          let remote = getsock rport s1; lport = getfreeport s1 in
          if lport = INV_PORT then retsockfunc E_FAIL s1
          else case remote of
            None \<Rightarrow> retsockfunc E_NOTFOUND s1
          | Some r \<Rightarrow>
            if sstate (socks s1 ! r) \<noteq> LISTENING then retsockfunc E_WRONG_STATE s1
            else andthen (allocsock lport s1) (\<lambda>(so, s2).
              case so of
                None \<Rightarrow> retsockfunc E_FAIL s2
              | Some l \<Rightarrow>
                let s3 = upd_sock l (\<lambda>k. k\<lparr>sstate := CONNECTED\<rparr>)
                           (upd_sock r (\<lambda>k. k\<lparr>sstate := CONNECTED\<rparr>) s2);
                    s4 = upd_sock l (\<lambda>k. k\<lparr>rPort := lPort (socks s3 ! r)\<rparr>) s3;
                    s5 = upd_sock r (\<lambda>k. k\<lparr>rPort := lPort (socks s4 ! l)\<rparr>) s4;
                    s6 = upd_sock r (\<lambda>k. k\<lparr>hasfullbuffer := False\<rparr>)
                           (upd_sock l (\<lambda>k. k\<lparr>hasfullbuffer := False\<rparr>) s5)
                in andthen (wakeup (SockChan r) s6) (retsockfunc lport))))"

text \<open>\<open>send\<close> from the check that follows its \<open>sleep\<close> on.\<close>

definition send_tail :: "nat \<Rightarrow> nat \<Rightarrow> nat \<Rightarrow> u32 \<Rightarrow> int \<Rightarrow> 'a sk_scheme \<Rightarrow> 'a sock_result" where
  "send_tail p local remote data n s =
     (if getsock (rPort (socks s ! local)) s = None
      then andthen (removesock (Some local) s) (\<lambda>(_, s1).
        retsockfunc E_CONNECTION_RESET_BY_REMOTE s1)
      else if strncpy_overflows n \<or> nat n > SBUFFSIZE \<or>
        \<not> in_uvm p data (strncpy_reads (at (umem s p) data) (nat n)) s then Fault
      else andthen (wakeup (SockChan local)
        (upd_sock remote (\<lambda>k. k\<lparr>recvbuffer := strncpy_out (at (umem s p) data) (nat n) @ drop (nat n) (recvbuffer k),
                               hasfullbuffer := True\<rparr>) s))
        (retsockfunc 0))"

definition send :: "int \<Rightarrow> u32 \<Rightarrow> int \<Rightarrow> 'a sk_scheme \<Rightarrow> 'a sock_result" where
  "send lport data n s =
     (if lport < 0 \<or> lport \<ge> NPORT then Ok (Return E_INVALID_ARG, s)
      else andthen (acquire StableLock s) (\<lambda>s1.
        case getsock lport s1 of
          None \<Rightarrow> retsockfunc E_NOTFOUND s1
        | Some local \<Rightarrow>
          andthen (myproc s1) (\<lambda>(me, s2).
            if owner (socks s2 ! local) \<noteq> me then retsockfunc E_ACCESS_DENIED s2
            else if sstate (socks s2 ! local) \<noteq> CONNECTED then retsockfunc E_WRONG_STATE s2
            else case getsock (rPort (socks s2 ! local)) s2 of
              None \<Rightarrow> retsockfunc E_NOTFOUND s2
            | Some remote \<Rightarrow>
              if sstate (socks s2 ! remote) \<noteq> CONNECTED then retsockfunc E_WRONG_STATE s2
              else if hasfullbuffer (socks s2 ! remote)
              then andthen (sleep (SockChan remote) (Some StableLock) s2) (\<lambda>(ie, s3).
                Ok (Sleeps (SendK ie local remote data n), s3))
              else (case me of None \<Rightarrow> Fault | Some p \<Rightarrow> send_tail p local remote data n s2))))"

text \<open>\<open>recv\<close> from the copy that follows its \<open>sleep\<close> on.\<close>

definition recv_tail :: "nat \<Rightarrow> nat \<Rightarrow> u32 \<Rightarrow> int \<Rightarrow> 'a sk_scheme \<Rightarrow> 'a sock_result" where
  "recv_tail p local data n s =
     (let buf = recvbuffer (socks s ! local) in
      if strncpy_overflows n \<or> strncpy_reads (reader_of buf) (nat n) > SBUFFSIZE \<or> \<not> in_uvm p data (nat n) s
      then Fault
      else
        let s1 = s\<lparr>umem := (umem s)(p := write_bytes (umem s p) data (strncpy_out (reader_of buf) (nat n)))\<rparr>;
            s2 = upd_sock local (\<lambda>k. k\<lparr>recvbuffer := (recvbuffer k)[0 := 0], hasfullbuffer := False\<rparr>) s1
        in andthen (wakeup (SockChan local) s2) (\<lambda>s3.
          if getsock (rPort (socks s3 ! local)) s3 = None
          then andthen (removesock (Some local) s3) (\<lambda>(_, s4).
            retsockfunc E_CONNECTION_RESET_BY_REMOTE s4)
          else retsockfunc 0 s3))"

definition recv :: "int \<Rightarrow> u32 \<Rightarrow> int \<Rightarrow> 'a sk_scheme \<Rightarrow> 'a sock_result" where
  "recv lport data n s =
     (if lport < 0 \<or> lport \<ge> NPORT then Ok (Return E_INVALID_ARG, s)
      else andthen (acquire StableLock s) (\<lambda>s1.
        case getsock lport s1 of
          None \<Rightarrow> retsockfunc E_NOTFOUND s1
        | Some local \<Rightarrow>
          andthen (myproc s1) (\<lambda>(me, s2).
            if owner (socks s2 ! local) \<noteq> me then retsockfunc E_ACCESS_DENIED s2
            else if sstate (socks s2 ! local) \<noteq> CONNECTED then retsockfunc E_WRONG_STATE s2
            else case getsock (rPort (socks s2 ! local)) s2 of
              None \<Rightarrow> retsockfunc E_NOTFOUND s2
            | Some remote \<Rightarrow>
              if sstate (socks s2 ! remote) \<noteq> CONNECTED then retsockfunc E_WRONG_STATE s2
              else if \<not> hasfullbuffer (socks s2 ! local)
              then andthen (sleep (SockChan remote) (Some StableLock) s2) (\<lambda>(ie, s3).
                Ok (Sleeps (RecvK ie local remote data n), s3))
              else (case me of None \<Rightarrow> Fault | Some p \<Rightarrow> recv_tail p local data n s2))))"

text \<open>\<open>disconnect\<close> from the point on where it has \<open>stable.lock\<close>.\<close>

definition disconnect_locked :: "int \<Rightarrow> 'a sk_scheme \<Rightarrow> 'a sock_result" where
  "disconnect_locked lport s =
     (case getsock lport s of
        None \<Rightarrow> retsockfunc E_NOTFOUND s
      | Some local \<Rightarrow>
          andthen (myproc s) (\<lambda>(me, s1).
            if owner (socks s1 ! local) \<noteq> me then retsockfunc E_ACCESS_DENIED s1
            else andthen (removesock (Some local) s1) (\<lambda>(_, s2). retsockfunc 0 s2)))"

definition disconnect :: "int \<Rightarrow> 'a sk_scheme \<Rightarrow> 'a sock_result" where
  "disconnect lport s =
     (if lport < 0 \<or> lport \<ge> NPORT then Ok (Return E_INVALID_ARG, s)
      else andthen (acquire StableLock s) (disconnect_locked lport))"

text \<open>The code after \<open>sleep\<close> in \<open>listen\<close>, \<open>send\<close> and \<open>recv\<close>, run by process \<open>p\<close>.\<close>

fun sock_resume :: "nat \<Rightarrow> sock_cont \<Rightarrow> 'a sk_scheme \<Rightarrow> 'a sock_result" where
  "sock_resume p (ListenK ie) s =
     andthen (sleep_return ie p StableLock s) (retsockfunc 0)"
| "sock_resume p (SendK ie local remote data n) s =
     andthen (sleep_return ie p StableLock s) (send_tail p local remote data n)"
| "sock_resume p (RecvK ie local remote data n) s =
     andthen (sleep_return ie p StableLock s) (recv_tail p local data n)"

section \<open>Closing the sockets of a process\<close>

lemma sk_more: "pt.more s' = pt.more s \<Longrightarrow> socks s' = socks s \<and> countSock s' = countSock s \<and> nextsid s' = nextsid s"
  by (cases s; cases s') simp

text \<open>What \<open>resetsock\<close> leaves in the slot.\<close>

definition closed_sock :: "sock \<Rightarrow> sock" where
  "closed_sock k = k\<lparr>owner := None, sstate := CLOSED, lPort := INV_PORT, rPort := INV_PORT,
     hasfullbuffer := False, sid := -1, recvbuffer := 0 # drop 1 (recvbuffer k)\<rparr>"

lemma sstate_closed_sock [simp]: "sstate (closed_sock k) = CLOSED"
  by (simp add: closed_sock_def)

lemma reader_of_Nil [simp]: "reader_of [] i = 0"
  by (simp add: reader_of_def)

lemma resetsock_eq: "resetsock (Some i) s = upd_sock i closed_sock s"
  by (simp add: resetsock_def setsockvalue_def Let_def upd_sock_def closed_sock_def)

text \<open>The table, the counter and the id source after \<open>removesock\<close>, whatever the locks.\<close>

lemma removesock_frame:
  "removesock (Some i) s = Ok (b, s') \<Longrightarrow>
     socks s' = (socks s)[i := closed_sock (socks s ! i)] \<and>
     countSock s' = wrap32 (countSock s - 1) \<and> nextsid s' = nextsid s \<and> umem s' = umem s"
  by (auto simp: removesock_def resetsock_eq upd_sock_def Let_def elim!: andthen_OkE
      dest!: wakeup_frame sk_more)

text \<open>
  The loop of \<open>closeprocsocks\<close>: every round closes one open socket of the process, so the
  number of those goes down.
\<close>

function closeprocsocks_loop :: "nat \<Rightarrow> 'a sk_scheme \<Rightarrow> 'a sk_scheme outcome" where
  "closeprocsocks_loop p s =
     (case getprocsock p s of
        None \<Rightarrow> Ok s
      | Some i \<Rightarrow> andthen (removesock (Some i) s) (\<lambda>bs. closeprocsocks_loop p (snd bs)))"
  by pat_completeness auto

termination closeprocsocks_loop
proof (relation "measure (\<lambda>(p, s). count_slots (\<lambda>k. sstate k \<noteq> CLOSED \<and> owner k = Some p) (socks s))")
  fix p i and s :: "'a sk_scheme" and x
  assume g: "getprocsock p s = Some i" and r: "removesock (Some i) s = Ok x"
  from g have i: "i < length (socks s)" "sstate (socks s ! i) \<noteq> CLOSED \<and> owner (socks s ! i) = Some p"
    by (auto simp: getprocsock_def dest: find_index_SomeD)
  have "socks (snd x) = (socks s)[i := closed_sock (socks s ! i)]"
    using r by (cases x) (auto dest: removesock_frame)
  then show "((p, snd x), (p, s)) \<in> measure (\<lambda>(p, s). count_slots (\<lambda>k. sstate k \<noteq> CLOSED \<and> owner k = Some p) (socks s))"
    using i count_slots_update [OF i(1), of "\<lambda>k. sstate k \<noteq> CLOSED \<and> owner k = Some p" "closed_sock (socks s ! i)"]
    by simp
qed simp

declare closeprocsocks_loop.simps [simp del]

definition closeprocsocks :: "nat option \<Rightarrow> 'a sk_scheme \<Rightarrow> 'a sk_scheme outcome" where
  "closeprocsocks process s =
     (case process of
        None \<Rightarrow> Ok s
      | Some p \<Rightarrow>
          andthen (acquire StableLock s) (\<lambda>s1.
          andthen (closeprocsocks_loop p s1) (release StableLock)))"

section \<open>Sockets and the lower layers\<close>

lemma mach_socks [simp]:
  "cur (socks_update f s) = cur s"
  "cpu_ok (socks_update f s) = cpu_ok s"
  "readeflags (socks_update f s) = readeflags s"
  "lock_free l (socks_update f s) = lock_free l s"
  "held l (socks_update f s) = held l s"
  "in_section (socks_update f s) = in_section s"
  "curproc (socks_update f s) = curproc s"
  "saved_intena (socks_update f s) = saved_intena s"
  "socks_update f (acquired l s) = acquired l (socks_update f s)"
  "socks_update f (released l s) = released l (socks_update f s)"
  "socks_update f (touched s) = touched (socks_update f s)"
  "socks (acquired l s) = socks s"
  "socks (released l s) = socks s"
  "socks (touched s) = socks s"
  by (simp_all add: lock_layer_defs)

lemma mach_countSock [simp]:
  "cur (countSock_update f s) = cur s"
  "cpu_ok (countSock_update f s) = cpu_ok s"
  "readeflags (countSock_update f s) = readeflags s"
  "lock_free l (countSock_update f s) = lock_free l s"
  "held l (countSock_update f s) = held l s"
  "in_section (countSock_update f s) = in_section s"
  "curproc (countSock_update f s) = curproc s"
  "saved_intena (countSock_update f s) = saved_intena s"
  "countSock_update f (acquired l s) = acquired l (countSock_update f s)"
  "countSock_update f (released l s) = released l (countSock_update f s)"
  "countSock_update f (touched s) = touched (countSock_update f s)"
  "countSock (acquired l s) = countSock s"
  "countSock (released l s) = countSock s"
  "countSock (touched s) = countSock s"
  by (simp_all add: lock_layer_defs)

lemma mach_nextsid [simp]:
  "cur (nextsid_update f s) = cur s"
  "cpu_ok (nextsid_update f s) = cpu_ok s"
  "readeflags (nextsid_update f s) = readeflags s"
  "lock_free l (nextsid_update f s) = lock_free l s"
  "held l (nextsid_update f s) = held l s"
  "in_section (nextsid_update f s) = in_section s"
  "curproc (nextsid_update f s) = curproc s"
  "saved_intena (nextsid_update f s) = saved_intena s"
  "nextsid_update f (acquired l s) = acquired l (nextsid_update f s)"
  "nextsid_update f (released l s) = released l (nextsid_update f s)"
  "nextsid_update f (touched s) = touched (nextsid_update f s)"
  "nextsid (acquired l s) = nextsid s"
  "nextsid (released l s) = nextsid s"
  "nextsid (touched s) = nextsid s"
  by (simp_all add: lock_layer_defs)

lemma upd_sock_simps [simp]:
  "upd_sock i f (acquired l s) = acquired l (upd_sock i f s)"
  "upd_sock i f (released l s) = released l (upd_sock i f s)"
  "upd_sock i f (touched s) = touched (upd_sock i f s)"
  "cpu_ok (upd_sock i f s) = cpu_ok s" "cur (upd_sock i f s) = cur s"
  "lock_free l (upd_sock i f s) = lock_free l s" "held l (upd_sock i f s) = held l s"
  "in_section (upd_sock i f s) = in_section s" "curproc (upd_sock i f s) = curproc s"
  "readeflags (upd_sock i f s) = readeflags s" "saved_intena (upd_sock i f s) = saved_intena s"
  "cpus (upd_sock i f s) = cpus s" "locks (upd_sock i f s) = locks s"
  "umem (upd_sock i f s) = umem s" "ptable (upd_sock i f s) = ptable s"
  "countSock (upd_sock i f s) = countSock s" "nextsid (upd_sock i f s) = nextsid s"
  "length (socks (upd_sock i f s)) = length (socks s)"
  by (simp_all add: upd_sock_def)

lemma socks_upd_sock: "socks (upd_sock i f s) = (socks s)[i := f (socks s ! i)]"
  by (simp add: upd_sock_def)

lemma sk_wakeup1 [simp]:
  "socks (wakeup1 c s) = socks s" "countSock (wakeup1 c s) = countSock s"
  "nextsid (wakeup1 c s) = nextsid s" "upd_sock i f (wakeup1 c s) = wakeup1 c (upd_sock i f s)"
  "wakeup1 c (countSock_update g s) = countSock_update g (wakeup1 c s)"
  by (simp_all add: wakeup1_def upd_sock_def)

lemma sk_upd_proc [simp]:
  "socks (upd_proc j g s) = socks s" "countSock (upd_proc j g s) = countSock s"
  "nextsid (upd_proc j g s) = nextsid s"
  by (simp_all add: upd_proc_def)

lemma getsock_frame [simp]:
  "getsock port (acquired l s) = getsock port s" "getsock port (touched s) = getsock port s"
  "getsock port (wakeup1 c s) = getsock port s" "getsock port (umem_update h s) = getsock port s"
  by (simp_all add: getsock_def)

lemma getfreeport_frame [simp]: "getfreeport (acquired l s) = getfreeport s"
proof -
  have "getfreeport_from n (acquired l s) = getfreeport_from n s" for n
    by (induction n) simp_all
  then show ?thesis by (simp add: getfreeport_def)
qed

lemma getprocsock_frame [simp]:
  "getprocsock p (acquired l s) = getprocsock p s" "getprocsock p (touched s) = getprocsock p s"
  "getprocsock p (wakeup1 c s) = getprocsock p s"
  by (simp_all add: getprocsock_def)

end
