(* ===== verification/Settled.thy ===== *)
theory Settled
  imports Sock
begin

text \<open>
  A processor between critical sections. In a settled state no spin lock is held, the
  processor is outside \<open>pushcli\<close> and its saved interrupt flag is the current one, as after
  the first critical section of a system call. There a critical section is invisible:
  \<open>acquire\<close> followed by \<open>release\<close> restores the state, and \<open>myproc\<close>, \<open>holding\<close> and \<open>wakeup\<close>
  change nothing but what they are for. The components above the lock layer execute their
  sections by these equations.
\<close>

definition settled :: "'a mach_scheme \<Rightarrow> bool" where
  "settled s \<longleftrightarrow> cpu_ok s \<and> ncli (curcpu s) = 0 \<and> intena (curcpu s) = readeflags s \<and> (\<forall>l. lock_free l s)"

lemma settled_cpu_ok: "settled s \<Longrightarrow> cpu_ok s"
  by (simp add: settled_def)

lemma settled_free: "settled s \<Longrightarrow> lock_free l s"
  by (simp add: settled_def)

lemma settled_touched: "settled s \<Longrightarrow> touched s = s"
proof -
  assume s: "settled s"
  then have "saved_intena s = intena (curcpu s)" by (simp add: settled_def saved_intena_def)
  then show ?thesis by (simp add: touched_def)
qed

lemma settled_acquire: "settled s \<Longrightarrow> acquire l s = Ok (acquired l s)"
  by (simp add: settled_def acquire_free)

lemma settled_release: "settled s \<Longrightarrow> release l (acquired l s) = Ok s"
  by (simp add: settled_cpu_ok settled_free release_held released_acquired settled_touched)

lemma settled_myproc: "settled s \<Longrightarrow> myproc s = Ok (curproc s, s)"
  by (simp add: settled_cpu_ok myproc_ok settled_touched)

lemma settled_myproc_section: "settled s \<Longrightarrow> myproc (acquired l s) = Ok (curproc s, acquired l s)"
  by (simp add: settled_cpu_ok myproc_ok)

lemma settled_holding: "settled s \<Longrightarrow> holding l s = Ok (False, s)"
  by (auto simp: settled_cpu_ok holding_ok settled_touched dest: held_not_free settled_free)

lemma settled_wakeup1 [simp]: "settled (wakeup1 c s) = settled s"
  by (simp add: settled_def wakeup1_def)

lemma settled_wakeup: "settled s \<Longrightarrow> wakeup c s = Ok (wakeup1 c s)"
  by (simp add: wakeup_def settled_acquire settled_release)

lemma settled_wakeup_section:
  "settled s \<Longrightarrow> l \<noteq> PtableLock \<Longrightarrow> wakeup c (acquired l s) = Ok (acquired l (wakeup1 c s))"
  by (subst wakeup_ok) (simp_all add: settled_cpu_ok settled_free)

text \<open>A second lock inside the section of a first.\<close>

lemma settled_acquire2: "settled s \<Longrightarrow> l \<noteq> l' \<Longrightarrow> acquire l' (acquired l s) = Ok (acquired l' (acquired l s))"
  by (simp add: settled_cpu_ok settled_free acquire_free)

lemma settled_release2:
  "settled s \<Longrightarrow> l \<noteq> l' \<Longrightarrow> release l' (acquired l' (acquired l s)) = Ok (acquired l s)"
  by (simp add: settled_cpu_ok settled_free release_held released_acquired)

lemmas settled_exec = settled_acquire settled_release settled_myproc settled_myproc_section settled_holding
  settled_wakeup settled_wakeup_section settled_acquire2 settled_release2

lemma settled_fields [simp]:
  "settled (ptable_update f s) = settled s" "settled (nextpid_update g s) = settled s"
  "settled (initproc_update h s) = settled s" "settled (cr3_update u s) = settled s"
  "settled (kpgdir_update u s) = settled s" "settled (ticks_update u s) = settled s"
  "settled (umem_update v s) = settled s"
  by (simp_all add: settled_def)

lemma settled_sk_fields [simp]:
  "settled (socks_update f s) = settled s" "settled (countSock_update g s) = settled s"
  "settled (nextsid_update g s) = settled s"
  by (simp_all add: settled_def)

lemma settled_upd_proc [simp]: "settled (upd_proc i f s) = settled s"
  by (simp add: upd_proc_def)

text \<open>After one section of a processor that holds no lock, the state is settled.\<close>

lemma touched_settled:
  "cpu_ok s \<Longrightarrow> ncli (curcpu s) = 0 \<Longrightarrow> \<forall>l. lock_free l s \<Longrightarrow> settled (touched s)"
  using curcpu_touched [of s] by (simp add: settled_def saved_intena_def readeflags_def)

lemma settled_sched:
  assumes "settled s" "curproc s = Some i" "pstate (ptable s ! i) \<noteq> RUNNING"
  shows "sched (acquired PtableLock s) = Ok (readeflags s, acquired PtableLock s)"
  using assms sched_ok [of s i] by (simp add: settled_def saved_intena_def)

end
