(* ===== verification/Kalloc.thy ===== *)
theory Kalloc
  imports Settled
begin

text \<open>
  The physical page allocator, \<open>kalloc.c\<close>. The free pages form a linked list that runs
  through the pages themselves: the first word of a free page is the address of the next
  one. The model keeps the list where the code keeps it, in kernel memory. The lemmas show
  that the operations implement a stack of distinct pages and leave all other memory alone.
\<close>

section \<open>State\<close>

abbreviation PGSIZE :: u32 where "PGSIZE \<equiv> 4096"
abbreviation PHYSTOP :: u32 where "PHYSTOP \<equiv> 0xE000000"

text \<open>
  \<open>kmem\<close> (the lock is \<open>KmemLock\<close>), kernel memory by kernel virtual address, and the linker
  symbols \<open>end\<close> and \<open>data\<close>.
\<close>

record kmem_state =
  use_lock :: bool
  freelist :: u32
  kmemory :: memory
  kend :: u32
  kdata :: u32

record km = sk +
  kmem :: kmem_state

section \<open>Definitions\<close>

definition PGROUNDUP :: "u32 \<Rightarrow> u32" where
  "PGROUNDUP a = and (a + PGSIZE - 1) (not (PGSIZE - 1))"

definition V2P :: "u32 \<Rightarrow> u32" where
  "V2P a = a - KERNBASE"

definition P2V :: "u32 \<Rightarrow> u32" where
  "P2V a = a + KERNBASE"

definition lock_kmem :: "'a km_scheme \<Rightarrow> 'a km_scheme outcome" where
  "lock_kmem s = (if use_lock (kmem s) then acquire KmemLock s else Ok s)"

definition unlock_kmem :: "'a km_scheme \<Rightarrow> 'a km_scheme outcome" where
  "unlock_kmem s = (if use_lock (kmem s) then release KmemLock s else Ok s)"

definition kfree :: "u32 \<Rightarrow> 'a km_scheme \<Rightarrow> 'a km_scheme outcome" where
  "kfree v s =
     (if v mod PGSIZE \<noteq> 0 \<or> v < kend (kmem s) \<or> V2P v \<ge> PHYSTOP then Panic ''kfree''
      else
        let s1 = s\<lparr>kmem := (kmem s)\<lparr>kmemory := memset (kmemory (kmem s)) v 1 PGSIZE\<rparr>\<rparr> in
        andthen (lock_kmem s1) (\<lambda>s2.
          unlock_kmem (s2\<lparr>kmem := (kmem s2)\<lparr>kmemory := store32 (kmemory (kmem s2)) v (freelist (kmem s2)),
                                               freelist := v\<rparr>\<rparr>)))"

definition kalloc :: "'a km_scheme \<Rightarrow> (u32 \<times> 'a km_scheme) outcome" where
  "kalloc s =
     andthen (lock_kmem s) (\<lambda>s1.
       let r = freelist (kmem s1);
           s2 = (if r \<noteq> 0 then s1\<lparr>kmem := (kmem s1)\<lparr>freelist := load32 (kmemory (kmem s1)) r\<rparr>\<rparr> else s1)
       in andthen (unlock_kmem s2) (\<lambda>s3. Ok (r, s3)))"

lemma kfree_Ok_range:
  "kfree v s = Ok s' \<Longrightarrow> v mod PGSIZE = 0 \<and> kend (kmem s) \<le> v \<and> V2P v < PHYSTOP"
  by (auto simp: kfree_def not_less not_le split: if_split_asm)

text \<open>The loop of \<open>freerange\<close>; \<open>kfree\<close> stops it before the address could wrap.\<close>

function freerange_from :: "u32 \<Rightarrow> u32 \<Rightarrow> 'a km_scheme \<Rightarrow> 'a km_scheme outcome" where
  "freerange_from p vend s =
     (if p + PGSIZE \<le> vend then andthen (kfree p s) (freerange_from (p + PGSIZE) vend) else Ok s)"
  by pat_completeness auto

termination freerange_from
proof (relation "measure (\<lambda>(p, vend, s). unat vend - unat p)")
  fix p vend :: u32 and s x :: "'a km_scheme"
  assume a: "p + PGSIZE \<le> vend" and k: "kfree p s = Ok x"
  have "V2P p < PHYSTOP" using kfree_Ok_range [OF k] by simp
  then have "unat (p + PGSIZE) = unat p + 4096"
    by (simp add: V2P_def unat_plus_if' word_less_nat_alt unat_sub_if' split: if_split_asm)
  then show "((p + PGSIZE, vend, x), (p, vend, s)) \<in> measure (\<lambda>(p, vend, s). unat vend - unat p)"
    using a by (simp add: word_le_nat_alt)
qed simp

declare freerange_from.simps [simp del]

definition freerange :: "u32 \<Rightarrow> u32 \<Rightarrow> 'a km_scheme \<Rightarrow> 'a km_scheme outcome" where
  "freerange vstart vend s = freerange_from (PGROUNDUP vstart) vend s"

definition kinit1 :: "u32 \<Rightarrow> u32 \<Rightarrow> 'a km_scheme \<Rightarrow> 'a km_scheme outcome" where
  "kinit1 vstart vend s =
     (let s1 = initlock KmemLock s in
      freerange vstart vend (s1\<lparr>kmem := (kmem s1)\<lparr>use_lock := False\<rparr>\<rparr>))"

definition kinit2 :: "u32 \<Rightarrow> u32 \<Rightarrow> 'a km_scheme \<Rightarrow> 'a km_scheme outcome" where
  "kinit2 vstart vend s =
     andthen (freerange vstart vend s) (\<lambda>s1. Ok (s1\<lparr>kmem := (kmem s1)\<lparr>use_lock := True\<rparr>\<rparr>))"

section \<open>Kernel memory and the lower layers\<close>

lemma mach_kmem [simp]:
  "cur (kmem_update f s) = cur s"
  "cpu_ok (kmem_update f s) = cpu_ok s"
  "readeflags (kmem_update f s) = readeflags s"
  "lock_free l (kmem_update f s) = lock_free l s"
  "held l (kmem_update f s) = held l s"
  "in_section (kmem_update f s) = in_section s"
  "curproc (kmem_update f s) = curproc s"
  "saved_intena (kmem_update f s) = saved_intena s"
  "settled (kmem_update f s) = settled s"
  "kmem_update f (acquired l s) = acquired l (kmem_update f s)"
  "kmem_update f (released l s) = released l (kmem_update f s)"
  "kmem_update f (touched s) = touched (kmem_update f s)"
  "kmem (acquired l s) = kmem s"
  "kmem (released l s) = kmem s"
  "kmem (touched s) = kmem s"
  by (simp_all add: lock_layer_defs settled_def)


section \<open>Pages\<close>

definition page_ok :: "u32 \<Rightarrow> u32 \<Rightarrow> bool" where
  "page_ok e v \<longleftrightarrow> v mod PGSIZE = 0 \<and> e \<le> v \<and> V2P v < PHYSTOP"

lemma page_ok_nonzero: "page_ok e v \<Longrightarrow> v \<noteq> 0"
  by (auto simp: page_ok_def V2P_def)

lemma page_unat: "(v :: u32) mod PGSIZE = 0 \<longleftrightarrow> 4096 dvd unat v"
  by (simp add: dvd_eq_mod_eq_0 flip: unat_eq_zero) (simp add: unat_mod)

lemma pages_apart:
  assumes "(x :: u32) mod PGSIZE = 0" "v mod PGSIZE = 0" "x \<noteq> v" "k < 4096"
  shows "4096 \<le> unat (x + of_nat k - v)"
proof -
  have d: "4096 dvd unat (x - v)"
  proof (cases "v \<le> x")
    case True
    then show ?thesis using assms by (simp add: page_unat unat_sub)
  next
    case False
    then have "unat x < unat v" by (simp add: word_le_nat_alt)
    then have "unat (x - v) = unat x + 4294967296 - unat v"
      by (simp add: unat_sub_if')
    moreover have "4096 dvd unat x + 4294967296 - unat v"
      using assms(1,2) by (intro dvd_diff_nat dvd_add) (simp_all add: page_unat)
    ultimately show ?thesis by simp
  qed
  obtain t where t: "unat (x - v) = 4096 * t" using d by (rule dvdE)
  have "unat (x - v) \<noteq> 0" using assms(3) by (simp add: unat_eq_zero)
  then have lo: "4096 \<le> unat (x - v)" using t by simp
  have "4096 * t < 4096 * 1048576" using unat_lt2p_u32 [of "x - v"] t by linarith
  then have "t < 1048576" by (simp only: mult_less_cancel1)
  then have hi: "unat (x - v) + 4096 \<le> 4294967296" using t by linarith
  have "unat (of_nat k :: u32) = k" using assms(4) by (simp add: unat_of_nat)
  moreover from this have "unat (x - v + of_nat k) = unat (x - v) + unat (of_nat k :: u32)"
    using hi assms(4) by (subst unat_add_lem [symmetric]) simp
  moreover have "x - v + of_nat k = x + of_nat k - v" by simp
  ultimately show ?thesis using lo by simp
qed

text \<open>What \<open>kfree\<close> writes: the junk, and the link in the first word.\<close>

definition freed_page :: "memory \<Rightarrow> u32 \<Rightarrow> u32 \<Rightarrow> memory" where
  "freed_page m v nxt = store32 (memset m v 1 PGSIZE) v nxt"

lemma freed_page_other:
  assumes "4096 \<le> unat (x - v)"
  shows "freed_page m v nxt x = m x"
proof -
  have "store32 (memset m v 1 PGSIZE) v nxt x = memset m v 1 PGSIZE x"
    using assms by (intro store32_other) simp
  then show ?thesis
    using assms by (simp add: freed_page_def memset_write_bytes write_bytes_spec)
qed

lemma freed_page_link: "load32 (freed_page m v nxt) v = nxt"
  by (simp add: freed_page_def load_store32)

lemma freed_page_junk:
  assumes "4 \<le> k" "k < 4096"
  shows "freed_page m v nxt (v + of_nat k) = 1"
proof -
  have u: "unat (of_nat k :: u32) = k" using assms by (simp add: unat_of_nat)
  then have "store32 (memset m v 1 PGSIZE) v nxt (v + of_nat k) = memset m v 1 PGSIZE (v + of_nat k)"
    using assms by (intro store32_other) simp
  then show ?thesis
    using assms u by (simp add: freed_page_def memset_write_bytes write_bytes_spec)
qed

lemma freed_page_load:
  assumes "x mod PGSIZE = 0" "v mod PGSIZE = 0" "x \<noteq> v"
  shows "load32 (freed_page m v nxt) x = load32 m x"
proof (rule load32_cong)
  have "freed_page m v nxt (x + of_nat k) = m (x + of_nat k)" if "k < 4096" for k
    using pages_apart [OF assms that] by (rule freed_page_other)
  from this [of 0] this [of 1] this [of 2] this [of 3]
  show "freed_page m v nxt x = m x" "freed_page m v nxt (x + 1) = m (x + 1)"
    "freed_page m v nxt (x + 2) = m (x + 2)" "freed_page m v nxt (x + 3) = m (x + 3)" by simp_all
qed

section \<open>The free list\<close>

text \<open>The list of runs from \<open>r\<close> on.\<close>

fun runs :: "u32 \<Rightarrow> memory \<Rightarrow> u32 \<Rightarrow> u32 list \<Rightarrow> bool" where
  "runs e m r [] \<longleftrightarrow> r = 0"
| "runs e m r (x # xs) \<longleftrightarrow> r = x \<and> page_ok e x \<and> x \<notin> set xs \<and> runs e m (load32 m x) xs"

definition free_pages :: "'a km_scheme \<Rightarrow> u32 list \<Rightarrow> bool" where
  "free_pages s ps \<longleftrightarrow> runs (kend (kmem s)) (kmemory (kmem s)) (freelist (kmem s)) ps"

lemma runs_page_ok: "runs e m r ps \<Longrightarrow> x \<in> set ps \<Longrightarrow> page_ok e x"
  by (induction ps arbitrary: r) auto

lemma runs_distinct: "runs e m r ps \<Longrightarrow> distinct ps"
  by (induction ps arbitrary: r) auto

lemma runs_Nil_iff: "runs e m r ps \<Longrightarrow> r = 0 \<longleftrightarrow> ps = []"
  by (cases ps) (auto dest: page_ok_nonzero)

text \<open>The list is determined by memory.\<close>

lemma runs_unique: "runs e m r ps \<Longrightarrow> runs e m r qs \<Longrightarrow> ps = qs"
proof (induction ps arbitrary: r qs)
  case Nil
  then show ?case by (cases qs) (auto dest: page_ok_nonzero)
next
  case (Cons x xs)
  then show ?case by (cases qs) (auto dest: page_ok_nonzero)
qed

lemma runs_freed:
  assumes "runs e m r ps" "v mod PGSIZE = 0" "v \<notin> set ps"
  shows "runs e (freed_page m v nxt) r ps"
  using assms
proof (induction ps arbitrary: r)
  case Nil
  then show ?case by simp
next
  case (Cons x xs)
  have "load32 (freed_page m v nxt) x = load32 m x"
    using Cons.prems by (intro freed_page_load) (auto simp: page_ok_def)
  then show ?case using Cons by simp
qed

lemma runs_mem_cong:
  assumes "runs e m r ps" "\<And>x. x \<in> set ps \<Longrightarrow> load32 m' x = load32 m x"
  shows "runs e m' r ps"
  using assms by (induction ps arbitrary: r) auto

section \<open>The operations as a stack of pages\<close>

definition set_kmem :: "(kmem_state \<Rightarrow> kmem_state) \<Rightarrow> 'a km_scheme \<Rightarrow> 'a km_scheme" where
  "set_kmem f s = s\<lparr>kmem := f (kmem s)\<rparr>"

definition freed :: "u32 \<Rightarrow> 'a km_scheme \<Rightarrow> 'a km_scheme" where
  "freed v s = set_kmem (\<lambda>k. k\<lparr>kmemory := freed_page (kmemory k) v (freelist k), freelist := v\<rparr>) s"

definition popped_page :: "'a km_scheme \<Rightarrow> 'a km_scheme" where
  "popped_page s =
     (if freelist (kmem s) = 0 then s
      else set_kmem (\<lambda>k. k\<lparr>freelist := load32 (kmemory k) (freelist k)\<rparr>) s)"

lemma settled_set_kmem [simp]: "settled (set_kmem f s) = settled s"
  "settled (freed v s) = settled s" "settled (popped_page s) = settled s"
  by (simp_all add: set_kmem_def freed_def popped_page_def)

lemma kfree_ok:
  assumes "settled s \<or> \<not> use_lock (kmem s)" "page_ok (kend (kmem s)) v"
  shows "kfree v s = Ok (freed v s)"
  using assms
  by (auto simp: kfree_def page_ok_def not_less not_le lock_kmem_def unlock_kmem_def settled_exec
      freed_def set_kmem_def freed_page_def Let_def)

lemma kfree_bad: "\<not> page_ok (kend (kmem s)) v \<Longrightarrow> kfree v s = Panic ''kfree''"
  by (auto simp: kfree_def page_ok_def not_less not_le)

lemma kalloc_ok:
  assumes "settled s"
  shows "kalloc s = Ok (freelist (kmem s), popped_page s)"
  using assms by (simp add: kalloc_def lock_kmem_def unlock_kmem_def settled_exec popped_page_def set_kmem_def Let_def)

lemma free_pages_freed:
  assumes "free_pages s ps" "page_ok (kend (kmem s)) v" "v \<notin> set ps"
  shows "free_pages (freed v s) (v # ps)"
  using assms runs_freed [of "kend (kmem s)"]
  by (simp add: free_pages_def freed_def set_kmem_def freed_page_link page_ok_def)

lemma free_pages_popped:
  assumes "free_pages s ps"
  shows "free_pages (popped_page s) (tl ps)" "freelist (kmem s) = (case ps of [] \<Rightarrow> 0 | x # _ \<Rightarrow> x)"
proof -
  show "freelist (kmem s) = (case ps of [] \<Rightarrow> 0 | x # _ \<Rightarrow> x)"
    using assms by (cases ps) (simp_all add: free_pages_def)
  show "free_pages (popped_page s) (tl ps)"
  proof (cases ps)
    case Nil
    then show ?thesis using assms by (simp add: free_pages_def popped_page_def)
  next
    case (Cons x xs)
    then have "freelist (kmem s) = x" "x \<noteq> 0" "runs (kend (kmem s)) (kmemory (kmem s)) (load32 (kmemory (kmem s)) x) xs"
      using assms by (auto simp: free_pages_def dest: page_ok_nonzero)
    then show ?thesis using Cons by (simp add: free_pages_def popped_page_def set_kmem_def)
  qed
qed

lemma kmem_freed [simp]: "kend (kmem (freed v s)) = kend (kmem s)" "use_lock (kmem (freed v s)) = use_lock (kmem s)"
  "kend (kmem (popped_page s)) = kend (kmem s)" "use_lock (kmem (popped_page s)) = use_lock (kmem s)"
  by (simp_all add: freed_def popped_page_def set_kmem_def)

section \<open>Allocation as an interface\<close>

text \<open>
  What the clients of the allocator (pipes, page tables, kernel stacks) rely on: an
  allocation takes a page out of the free set or reports that it is empty, and a page that is
  given back is free again.
\<close>

locale page_source =
  fixes free :: "'s \<Rightarrow> u32 set"
    and inv :: "'s \<Rightarrow> bool"
    and valid :: "'s \<Rightarrow> u32 \<Rightarrow> bool"
    and alloc :: "'s \<Rightarrow> (u32 \<times> 's) outcome"
    and give :: "u32 \<Rightarrow> 's \<Rightarrow> 's outcome"
  assumes alloc_some: "inv s \<Longrightarrow> free s \<noteq> {} \<Longrightarrow>
      \<exists>p s'. alloc s = Ok (p, s') \<and> p \<in> free s \<and> free s' = free s - {p} \<and> inv s' \<and> valid s' = valid s"
    and alloc_none: "inv s \<Longrightarrow> free s = {} \<Longrightarrow> alloc s = Ok (0, s)"
    and give_free: "inv s \<Longrightarrow> valid s p \<Longrightarrow> p \<notin> free s \<Longrightarrow>
      \<exists>s'. give p s = Ok s' \<and> free s' = insert p (free s) \<and> inv s' \<and> valid s' = valid s"
    and free_valid: "inv s \<Longrightarrow> p \<in> free s \<Longrightarrow> valid s p \<and> p \<noteq> 0"
    and free_finite: "inv s \<Longrightarrow> finite (free s)"

primrec alloc_many :: "('s \<Rightarrow> (u32 \<times> 's) outcome) \<Rightarrow> nat \<Rightarrow> 's \<Rightarrow> (u32 list \<times> 's) outcome" where
  "alloc_many alloc 0 s = Ok ([], s)"
| "alloc_many alloc (Suc n) s =
     andthen (alloc s) (\<lambda>(p, s1). andthen (alloc_many alloc n s1) (\<lambda>(ps, s2). Ok (p # ps, s2)))"

primrec give_many :: "(u32 \<Rightarrow> 's \<Rightarrow> 's outcome) \<Rightarrow> u32 list \<Rightarrow> 's \<Rightarrow> 's outcome" where
  "give_many give [] s = Ok s"
| "give_many give (p # ps) s = andthen (give p s) (give_many give ps)"

context page_source begin

lemma many_distinct:
  "inv s \<Longrightarrow> n \<le> card (free s) \<Longrightarrow>
   \<exists>ps s'. alloc_many alloc n s = Ok (ps, s') \<and> length ps = n \<and> distinct ps \<and> set ps \<subseteq> free s \<and>
     free s' = free s - set ps \<and> inv s' \<and> valid s' = valid s"
proof (induction n arbitrary: s)
  case 0
  then show ?case by simp
next
  case (Suc n)
  then have "free s \<noteq> {}" by auto
  then obtain p s1 where a: "alloc s = Ok (p, s1)" "p \<in> free s" "free s1 = free s - {p}" "inv s1" "valid s1 = valid s"
    using alloc_some Suc.prems(1) by blast
  have "n \<le> card (free s1)" using Suc.prems a(2,3) free_finite by simp
  then obtain ps s2 where b: "alloc_many alloc n s1 = Ok (ps, s2)" "length ps = n" "distinct ps"
    "set ps \<subseteq> free s1" "free s2 = free s1 - set ps" "inv s2" "valid s2 = valid s1"
    using Suc.IH a(4) by blast
  then show ?case using a by (intro exI [of _ "p # ps"] exI [of _ s2]) auto
qed

lemma give_back:
  "inv s \<Longrightarrow> distinct ps \<Longrightarrow> set ps \<inter> free s = {} \<Longrightarrow> \<forall>p\<in>set ps. valid s p \<Longrightarrow>
   \<exists>s'. give_many give ps s = Ok s' \<and> free s' = set ps \<union> free s \<and> inv s' \<and> valid s' = valid s"
proof (induction ps arbitrary: s)
  case Nil
  then show ?case by simp
next
  case (Cons p ps)
  obtain s1 where a: "give p s = Ok s1" "free s1 = insert p (free s)" "inv s1" "valid s1 = valid s"
    using give_free [of s p] Cons.prems by auto
  obtain s2 where "give_many give ps s1 = Ok s2" "free s2 = set ps \<union> free s1" "inv s2" "valid s2 = valid s1"
    using Cons.IH [of s1] Cons.prems a by auto
  then show ?case using a by simp
qed

text \<open>Pages that are allocated and then given back leave the free set as it was.\<close>

lemma many_round_trip:
  assumes "inv s" "n \<le> card (free s)"
  shows "\<exists>ps s1 s2. alloc_many alloc n s = Ok (ps, s1) \<and> give_many give ps s1 = Ok s2 \<and> free s2 = free s \<and> inv s2"
proof -
  obtain ps s1 where a: "alloc_many alloc n s = Ok (ps, s1)" "distinct ps" "set ps \<subseteq> free s"
    "free s1 = free s - set ps" "inv s1" "valid s1 = valid s"
    using many_distinct [OF assms] by blast
  have "\<forall>p\<in>set ps. valid s1 p" using a(3,6) free_valid [OF assms(1)] by auto
  then obtain s2 where "give_many give ps s1 = Ok s2" "free s2 = set ps \<union> free s1" "inv s2"
    using give_back [OF a(5,2)] a(4) by blast
  then show ?thesis using a by blast
qed

end

text \<open>The free set of the model, and the allocator as an instance of the interface.\<close>

definition free_set :: "'a km_scheme \<Rightarrow> u32 set" where
  "free_set s = {x. \<exists>ps. free_pages s ps \<and> x \<in> set ps}"

definition kalloc_inv :: "'a km_scheme \<Rightarrow> bool" where
  "kalloc_inv s \<longleftrightarrow> settled s \<and> (\<exists>ps. free_pages s ps)"

definition kpage_ok :: "'a km_scheme \<Rightarrow> u32 \<Rightarrow> bool" where
  "kpage_ok s v = page_ok (kend (kmem s)) v"

lemma free_set_eq: "free_pages s ps \<Longrightarrow> free_set s = set ps"
  by (auto simp: free_set_def free_pages_def dest: runs_unique)

lemma kalloc_step:
  assumes "settled s" "free_pages s (p # ps)"
  shows "kalloc s = Ok (p, popped_page s)" "free_set (popped_page s) = free_set s - {p}"
    "kalloc_inv (popped_page s)"
proof -
  note f = free_pages_popped [OF assms(2)]
  show "kalloc s = Ok (p, popped_page s)" using kalloc_ok [OF assms(1)] f(2) by simp
  have "p \<notin> set ps" using assms(2) by (simp add: free_pages_def)
  then show "free_set (popped_page s) = free_set s - {p}"
    using free_set_eq [OF f(1)] free_set_eq [OF assms(2)] by auto
  show "kalloc_inv (popped_page s)" using f(1) assms(1) by (auto simp: kalloc_inv_def)
qed

interpretation kpages: page_source free_set kalloc_inv kpage_ok kalloc kfree
proof unfold_locales
  fix s :: "'a km_scheme" and p
  {
    assume i: "kalloc_inv s"
    then obtain ps where ps: "settled s" "free_pages s ps" by (auto simp: kalloc_inv_def)
    show "finite (free_set s)" using free_set_eq [OF ps(2)] by simp
    show "p \<in> free_set s \<Longrightarrow> kpage_ok s p \<and> p \<noteq> 0"
      using free_set_eq [OF ps(2)] ps(2) unfolding kpage_ok_def free_pages_def
      by (metis runs_page_ok page_ok_nonzero)
    show "free_set s \<noteq> {} \<Longrightarrow> \<exists>p s'. kalloc s = Ok (p, s') \<and> p \<in> free_set s \<and>
        free_set s' = free_set s - {p} \<and> kalloc_inv s' \<and> kpage_ok s' = kpage_ok s"
      using ps free_set_eq [OF ps(2)] kalloc_step [OF ps(1)]
      by (cases ps) (auto simp: kpage_ok_def fun_eq_iff)
    show "free_set s = {} \<Longrightarrow> kalloc s = Ok (0, s)"
      using ps free_set_eq [OF ps(2)] free_pages_popped(2) [OF ps(2)] kalloc_ok [OF ps(1)]
      by (auto simp: popped_page_def)
    assume v: "kpage_ok s p" and "p \<notin> free_set s"
    then have "free_pages (freed p s) (p # ps)"
      using free_pages_freed [OF ps(2)] free_set_eq [OF ps(2)] by (simp add: kpage_ok_def)
    then show "\<exists>s'. kfree p s = Ok s' \<and> free_set s' = insert p (free_set s) \<and> kalloc_inv s' \<and>
        kpage_ok s' = kpage_ok s"
      using kfree_ok [of s p] v ps free_set_eq [OF ps(2)] free_set_eq [of "freed p s" "p # ps"]
      by (auto simp: kpage_ok_def kalloc_inv_def fun_eq_iff)
  }
qed

section \<open>The initial free list\<close>

text \<open>The pages of a range, in the order in which \<open>freerange\<close> frees them.\<close>

definition page_range :: "u32 \<Rightarrow> nat \<Rightarrow> u32 list" where
  "page_range p n = map (\<lambda>i. p + 4096 * of_nat i) [0..<n]"

lemma page_range_Suc: "page_range p (Suc n) = p # page_range (p + PGSIZE) n"
  unfolding page_range_def upt_conv_Cons [OF zero_less_Suc] map_Suc_upt [symmetric]
  by (simp add: algebra_simps)

lemma page_step:
  assumes "unat (p :: u32) + 4096 \<le> 2382364672"
  shows "unat (p + PGSIZE) = unat p + 4096"
  using assms by (subst unat_add_lem [THEN iffD1]) simp_all

lemma freerange_from_ok:
  assumes "\<not> use_lock (kmem s)" "free_pages s ps" "p mod PGSIZE = 0" "kend (kmem s) \<le> p" "KERNBASE \<le> p"
    "unat vend \<le> 2382364672" "unat p + 4096 * n \<le> unat vend" "unat vend < unat p + 4096 * Suc n"
    "set (page_range p n) \<inter> set ps = {}"
  shows "\<exists>s'. freerange_from p vend s = Ok s' \<and> free_pages s' (rev (page_range p n) @ ps) \<and>
    kend (kmem s') = kend (kmem s) \<and> \<not> use_lock (kmem s')"
  using assms
proof (induction n arbitrary: s p ps)
  case 0
  have "\<not> p + PGSIZE \<le> vend"
  proof -
    have "unat p + 4096 < 4294967296" using 0(6,7) by simp
    then have "unat (p + PGSIZE) = unat p + 4096" by (subst unat_add_lem [THEN iffD1]) simp_all
    then show ?thesis using 0(8) by (simp add: word_le_nat_alt)
  qed
  then show ?case using 0(1,2) by (subst freerange_from.simps) (simp add: page_range_def)
next
  case (Suc n)
  have step: "unat (p + PGSIZE) = unat p + 4096" using Suc.prems(6,7) by (intro page_step) simp
  have le: "p + PGSIZE \<le> vend" using Suc.prems(7) step by (simp add: word_le_nat_alt)
  have "unat (V2P p) = unat p - 2147483648"
    using Suc.prems(5) by (simp add: V2P_def unat_sub)
  moreover have "unat p - 2147483648 < 234881024" using Suc.prems(5,6,7) by (simp add: word_le_nat_alt)
  ultimately have "V2P p < PHYSTOP" by (simp add: word_less_nat_alt)
  then have ok: "page_ok (kend (kmem s)) p" using Suc.prems(3,4) by (simp add: page_ok_def)
  have k: "kfree p s = Ok (freed p s)" using kfree_ok [OF _ ok] Suc.prems(1) by simp
  have p: "p \<notin> set ps" "set (page_range (p + PGSIZE) n) \<inter> set ps = {}"
    using Suc.prems(9) unfolding page_range_Suc by auto
  have f: "free_pages (freed p s) (p # ps)" using free_pages_freed [OF Suc.prems(2) ok p(1)] .
  have np: "p \<notin> set (page_range (p + PGSIZE) n)"
  proof
    assume "p \<in> set (page_range (p + PGSIZE) n)"
    then obtain i where i: "i < n" "p = p + PGSIZE + 4096 * of_nat i" by (auto simp: page_range_def)
    then have "(4096 * of_nat (Suc i) :: u32) = 0" by (simp add: algebra_simps)
    then have z: "(of_nat (4096 * Suc i) :: u32) = 0" by simp
    have "4096 * Suc i < 4294967296" using Suc.prems(6,7) i(1) by simp
    then have "unat (of_nat (4096 * Suc i) :: u32) = 4096 * Suc i"
      by (simp only: unat_of_nat) (simp add: take_bit_nat_eq_self)
    then show False unfolding z by simp
  qed
  have "\<exists>s'. freerange_from (p + PGSIZE) vend (freed p s) = Ok s' \<and>
      free_pages s' (rev (page_range (p + PGSIZE) n) @ p # ps) \<and>
      kend (kmem s') = kend (kmem (freed p s)) \<and> \<not> use_lock (kmem s')"
  proof (rule Suc.IH [OF _ f])
    show "(p + PGSIZE) mod PGSIZE = 0" using Suc.prems(3) step by (simp add: page_unat)
    show "kend (kmem (freed p s)) \<le> p + PGSIZE" "KERNBASE \<le> p + PGSIZE"
      using Suc.prems(4,5) step by (simp_all add: word_le_nat_alt)
  qed (use Suc.prems p np step in auto)
  then show ?case
    using k le by (subst freerange_from.simps) (auto simp: page_range_Suc)
qed

lemma PGROUNDUP_aligned: "PGROUNDUP a mod PGSIZE = 0"
proof -
  have "take_bit 12 (PGROUNDUP a) = 0"
  proof (rule bit_word_eqI)
    fix n assume "n < LENGTH(32)"
    have "(4095 :: u32) = mask 12" by (simp add: mask_eq_exp_minus_1)
    then show "bit (take_bit 12 (PGROUNDUP a)) n = bit (0 :: u32) n"
      by (simp add: PGROUNDUP_def bit_simps)
  qed
  then show ?thesis by (simp add: take_bit_eq_mod)
qed

section \<open>Properties\<close>

text \<open>A machine with three free pages.\<close>

definition demo_kmem :: "kmem_state" where
  "demo_kmem = \<lparr>use_lock = True, freelist = 0x80400000,
     kmemory = store32 (store32 (\<lambda>_. 0) 0x80400000 0x80402000) 0x80402000 0x80401000, kend = 0x80115000, kdata = 0x80108000\<rparr>"

definition demo_km :: "kmem_state \<Rightarrow> km" where
  "demo_km k = \<lparr>cpus = [\<lparr>apicid = 0, ncli = 0, intena = True, cproc = Some 0\<rparr>], hwid = 0,
     intr = (\<lambda>_. True), locks = (\<lambda>_. \<lparr>locked = False, lcpu = None\<rparr>),
     ptable = [], nextpid = 1, initproc = None, cr3 = 0, kpgdir = 0x80000000, ticks = 0, umem = (\<lambda>_ _. 0),
     socks = [], countSock = 0, nextsid = 0, kmem = k\<rparr>"

lemma demo_km_settled: "settled (demo_km k)"
  by (simp add: settled_def demo_km_def cpu_ok_def cur_def lock_free_def readeflags_def)

lemma demo_free_pages: "free_pages (demo_km demo_kmem) [0x80400000, 0x80402000, 0x80401000]"
proof -
  let ?m = "kmemory demo_kmem"
  have "load32 ?m 0x80400000 = load32 (store32 (\<lambda>_. 0) 0x80400000 0x80402000) 0x80400000"
    "load32 ?m 0x80401000 = load32 (\<lambda>_. 0) 0x80401000"
    by (rule load32_cong; simp add: demo_kmem_def store32_other unat_max)+
  moreover have "load32 ?m 0x80402000 = 0x80401000" by (simp add: demo_kmem_def load_store32)
  moreover have "load32 (\<lambda>_. 0) 0x80401000 = 0" by (simp add: load32_def)
  ultimately show ?thesis
    by (simp add: free_pages_def demo_km_def load_store32) (simp add: demo_kmem_def page_ok_def V2P_def)
qed

lemma demo_kalloc_inv: "kalloc_inv (demo_km demo_kmem)" "free_set (demo_km demo_kmem) = {0x80400000, 0x80402000, 0x80401000}"
  using demo_free_pages demo_km_settled by (auto simp: kalloc_inv_def free_set_eq)

text \<open>
  C24: As long as free pages are left, successive calls of \<open>kalloc\<close> return different pages, each
  of them a valid page that was on the free list and is not on it afterwards; freeing them
  again restores the free set.
\<close>

theorem kalloc_gives_distinct_pages:
  assumes "kalloc_inv s" and "n \<le> card (free_set s)"
  shows "(\<exists>ps s'. alloc_many kalloc n s = Ok (ps, s') \<and> length ps = n \<and> distinct ps \<and>
      set ps \<subseteq> free_set s \<and> free_set s' = free_set s - set ps \<and> kalloc_inv s' \<and> 0 \<notin> set ps) \<and>
    (\<exists>ps s1 s2. alloc_many kalloc n s = Ok (ps, s1) \<and> give_many kfree ps s1 = Ok s2 \<and>
      free_set s2 = free_set s \<and> kalloc_inv s2)"
proof
  show "\<exists>ps s'. alloc_many kalloc n s = Ok (ps, s') \<and> length ps = n \<and> distinct ps \<and>
      set ps \<subseteq> free_set s \<and> free_set s' = free_set s - set ps \<and> kalloc_inv s' \<and> 0 \<notin> set ps"
    using kpages.many_distinct [OF assms] kpages.free_valid [OF assms(1)] by blast
qed (rule kpages.many_round_trip [OF assms])

theorem kalloc_gives_distinct_pages_witness:
  "\<exists>ps s'. alloc_many kalloc 3 (demo_km demo_kmem) = Ok (ps, s') \<and> distinct ps \<and> free_set s' = {}"
proof -
  have c: "3 \<le> card (free_set (demo_km demo_kmem))" by (simp add: demo_kalloc_inv)
  then obtain ps s' where a: "alloc_many kalloc 3 (demo_km demo_kmem) = Ok (ps, s')" "length ps = 3" "distinct ps"
    "set ps \<subseteq> free_set (demo_km demo_kmem)" "free_set s' = free_set (demo_km demo_kmem) - set ps"
    using kalloc_gives_distinct_pages [OF demo_kalloc_inv(1) c] by blast
  have "card (set ps) = 3" using a(2,3) distinct_card by fastforce
  then have "set ps = free_set (demo_km demo_kmem)"
    using a(4) by (intro card_subset_eq) (simp_all add: demo_kalloc_inv)
  then show ?thesis using a by blast
qed

text \<open>
  C25: A page that is freed is the next one to be allocated. Between the two it holds junk
  except for its first word; the memory outside the page is untouched by both calls, and the
  free list is as before. An address that is not a page of free physical memory makes \<open>kfree\<close>
  panic and changes nothing.
\<close>

theorem kfree_kalloc_roundtrip:
  assumes "settled s" "free_pages s ps" "v \<notin> set ps"
  shows "if page_ok (kend (kmem s)) v
    then \<exists>s1 s2. kfree v s = Ok s1 \<and> kalloc s1 = Ok (v, s2) \<and> free_pages s1 (v # ps) \<and> free_pages s2 ps \<and>
      (\<forall>x. 4096 \<le> unat (x - v) \<longrightarrow> kmemory (kmem s2) x = kmemory (kmem s) x) \<and>
      (\<forall>k. 4 \<le> k \<and> k < 4096 \<longrightarrow> kmemory (kmem s2) (v + of_nat k) = 1)
    else kfree v s = Panic ''kfree''"
proof (cases "page_ok (kend (kmem s)) v")
  case True
  have f: "free_pages (freed v s) (v # ps)" using free_pages_freed [OF assms(2) True assms(3)] .
  have "settled (freed v s)" using assms(1) by simp
  note a = kalloc_step(1) [OF this f] free_pages_popped(1) [OF f]
  have "kmemory (kmem (popped_page (freed v s))) = freed_page (kmemory (kmem s)) v (freelist (kmem s))"
    by (simp add: popped_page_def freed_def set_kmem_def)
  then show ?thesis
    using True a f kfree_ok [OF _ True] assms(1) by (auto simp: freed_page_other freed_page_junk)
qed (simp add: kfree_bad)

theorem kfree_kalloc_roundtrip_witness:
  "\<exists>s1 s2. kfree 0x80500000 (demo_km demo_kmem) = Ok s1 \<and> kalloc s1 = Ok (0x80500000, s2)"
proof -
  have "page_ok (kend (kmem (demo_km demo_kmem))) 0x80500000"
    by (simp add: demo_km_def demo_kmem_def page_ok_def V2P_def)
  then show ?thesis
    using kfree_kalloc_roundtrip [OF demo_km_settled demo_free_pages, of "0x80500000"] by auto
qed

text \<open>
  C26: \<open>kinit1\<close> on an empty free list leaves on it exactly the whole pages between the two
  addresses, each once, the highest first.
\<close>

theorem kinit1_free_list:
  assumes "freelist (kmem s) = 0" and "kend (kmem s) \<le> PGROUNDUP vstart" "KERNBASE \<le> PGROUNDUP vstart"
    and "unat (PGROUNDUP vstart) \<le> unat vend" "unat vend \<le> 2382364672"
  shows "\<exists>s'. kinit1 vstart vend s = Ok s' \<and> \<not> use_lock (kmem s') \<and>
    free_pages s' (rev (page_range (PGROUNDUP vstart) ((unat vend - unat (PGROUNDUP vstart)) div 4096)))"
proof -
  let ?s = "(initlock KmemLock s)\<lparr>kmem := (kmem (initlock KmemLock s))\<lparr>use_lock := False\<rparr>\<rparr>"
  let ?n = "(unat vend - unat (PGROUNDUP vstart)) div 4096"
  have k: "kmem (initlock KmemLock s) = kmem s" by (simp add: initlock_def)
  have "\<exists>s'. freerange_from (PGROUNDUP vstart) vend ?s = Ok s' \<and>
      free_pages s' (rev (page_range (PGROUNDUP vstart) ?n) @ []) \<and>
      kend (kmem s') = kend (kmem ?s) \<and> \<not> use_lock (kmem s')"
  proof (rule freerange_from_ok)
    show "unat (PGROUNDUP vstart) + 4096 * ?n \<le> unat vend" "unat vend < unat (PGROUNDUP vstart) + 4096 * Suc ?n"
      using assms(4) by (simp_all add: dividend_less_times_div)
  qed (use assms k in \<open>simp_all add: free_pages_def PGROUNDUP_aligned\<close>)
  then show ?thesis by (auto simp: kinit1_def freerange_def Let_def)
qed

theorem kinit1_free_list_witness:
  "\<exists>s'. kinit1 0x80115A00 0x80118000 (demo_km (demo_kmem\<lparr>freelist := 0\<rparr>)) = Ok s' \<and>
    free_pages s' [0x80117000, 0x80116000]"
proof -
  have p: "PGROUNDUP 0x80115A00 = 0x80116000" by (simp add: PGROUNDUP_def)
  have "page_range 0x80116000 2 = [0x80116000, 0x80117000]"
    by (simp add: page_range_def upt_rec)
  then show ?thesis
    using kinit1_free_list [of "demo_km (demo_kmem\<lparr>freelist := 0\<rparr>)" "0x80115A00" "0x80118000"]
    by (auto simp: p demo_km_def demo_kmem_def)
qed

end
