(* ===== verification/Vm.thy ===== *)
theory Vm
  imports Kalloc
begin

text \<open>
  Page tables: \<open>vm.c\<close> with the address macros of \<open>mmu.h\<close>, except the descriptor tables of
  \<open>seginit\<close> and the file access of \<open>loaduvm\<close> (see the theory of \<open>exec\<close>). A page directory and
  its page tables are pages of kernel memory; an entry is the word the code reads and writes
  there. A null pointer is address 0, and reading through it is undefined behaviour.

  Sizes of address spaces stay below \<open>KERNBASE\<close>; loops that step through an address space
  page by page are recursions over the list of page addresses. The two messages that
  \<open>allocuvm\<close> prints when memory is short are left out.
\<close>

section \<open>Addresses and entries\<close>

definition PDX :: "u32 \<Rightarrow> u32" where
  "PDX va = and (drop_bit 22 va) 0x3FF"

definition PTX :: "u32 \<Rightarrow> u32" where
  "PTX va = and (drop_bit 12 va) 0x3FF"

definition PGADDR :: "u32 \<Rightarrow> u32 \<Rightarrow> u32 \<Rightarrow> u32" where
  "PGADDR d t o' = or (or (push_bit 22 d) (push_bit 12 t)) o'"

definition PGROUNDDOWN :: "u32 \<Rightarrow> u32" where
  "PGROUNDDOWN a = and a (not (PGSIZE - 1))"

abbreviation NPDENTRIES :: nat where "NPDENTRIES \<equiv> 1024"
abbreviation PTE_P :: u32 where "PTE_P \<equiv> 1"
abbreviation PTE_W :: u32 where "PTE_W \<equiv> 2"
abbreviation PTE_U :: u32 where "PTE_U \<equiv> 4"
abbreviation EXTMEM :: u32 where "EXTMEM \<equiv> 0x100000"
abbreviation DEVSPACE :: u32 where "DEVSPACE \<equiv> 0xFE000000"

definition PTE_ADDR :: "u32 \<Rightarrow> u32" where
  "PTE_ADDR pte = and pte (not 0xFFF)"

definition PTE_FLAGS :: "u32 \<Rightarrow> u32" where
  "PTE_FLAGS pte = and pte 0xFFF"

definition present :: "u32 \<Rightarrow> bool" where
  "present e \<longleftrightarrow> and e PTE_P \<noteq> 0"

definition kload :: "u32 \<Rightarrow> 'a km_scheme \<Rightarrow> u32" where
  "kload a s = load32 (kmemory (kmem s)) a"

definition set_mem :: "(memory \<Rightarrow> memory) \<Rightarrow> 'a km_scheme \<Rightarrow> 'a km_scheme" where
  "set_mem f s = set_kmem (\<lambda>k. k\<lparr>kmemory := f (kmemory k)\<rparr>) s"

section \<open>Walking and mapping\<close>

definition walkpgdir :: "u32 \<Rightarrow> u32 \<Rightarrow> bool \<Rightarrow> 'a km_scheme \<Rightarrow> (u32 \<times> 'a km_scheme) outcome" where
  "walkpgdir pd va alloc s =
     (let pde = pd + 4 * PDX va in
      if present (kload pde s)
      then Ok (P2V (PTE_ADDR (kload pde s)) + 4 * PTX va, s)
      else if \<not> alloc then Ok (0, s)
      else andthen (kalloc s) (\<lambda>(pgtab, s1).
        if pgtab = 0 then Ok (0, s1)
        else
          let s2 = set_mem (\<lambda>m. memset m pgtab 0 PGSIZE) s1;
              s3 = set_mem (\<lambda>m. store32 m pde (or (or (or (V2P pgtab) PTE_P) PTE_W) PTE_U)) s2
          in Ok (pgtab + 4 * PTX va, s3)))"

text \<open>
  The loop of \<open>mappages\<close>; \<open>n\<close> is the number of pages from \<open>a\<close> up to \<open>last\<close>. The result is
  \<open>False\<close> where the code returns -1.
\<close>

fun mappages_loop :: "u32 \<Rightarrow> u32 \<Rightarrow> nat \<Rightarrow> u32 \<Rightarrow> u32 \<Rightarrow> 'a km_scheme \<Rightarrow> (bool \<times> 'a km_scheme) outcome" where
  "mappages_loop pd a n pa perm s =
     andthen (walkpgdir pd a True s) (\<lambda>(pte, s1).
       if pte = 0 then Ok (False, s1)
       else if present (kload pte s1) then Panic ''remap''
       else
         let s2 = set_mem (\<lambda>m. store32 m pte (or (or pa perm) PTE_P)) s1 in
         case n of
           0 \<Rightarrow> Ok (True, s2)
         | Suc k \<Rightarrow> mappages_loop pd (a + PGSIZE) k (pa + PGSIZE) perm s2)"

declare mappages_loop.simps [simp del]

definition mappages :: "u32 \<Rightarrow> u32 \<Rightarrow> u32 \<Rightarrow> u32 \<Rightarrow> u32 \<Rightarrow> 'a km_scheme \<Rightarrow> (bool \<times> 'a km_scheme) outcome" where
  "mappages pd va size' pa perm s =
     (let a = PGROUNDDOWN va; last' = PGROUNDDOWN (va + size' - 1) in
      mappages_loop pd a (unat (last' - a) div 4096) pa perm s)"

section \<open>Releasing user memory\<close>

text \<open>
  The loop of \<open>deallocuvm\<close>. A missing page table skips to the next directory entry. If the
  address wrapped the loop would not end; callers pass at most \<open>KERNBASE\<close>.
\<close>

function deallocuvm_loop :: "u32 \<Rightarrow> u32 \<Rightarrow> u32 \<Rightarrow> 'a km_scheme \<Rightarrow> 'a km_scheme outcome" where
  "deallocuvm_loop pd a oldsz s =
     (if a < oldsz
      then andthen (walkpgdir pd a False s) (\<lambda>(pte, s1).
        let next_a = (if pte = 0 then PGADDR (PDX a + 1) 0 0 - PGSIZE else a) + PGSIZE in
        andthen
          (if pte \<noteq> 0 \<and> present (kload pte s1)
           then let pa = PTE_ADDR (kload pte s1) in
                if pa = 0 then Panic ''kfree''
                else andthen (kfree (P2V pa) s1) (\<lambda>s2. Ok (set_mem (\<lambda>m. store32 m pte 0) s2))
           else Ok s1) (\<lambda>s3.
        if next_a \<le> a then Block else deallocuvm_loop pd next_a oldsz s3))
      else Ok s)"
  by pat_completeness auto
termination deallocuvm_loop
  by (relation "measure (\<lambda>(pd, a, oldsz, s). unat oldsz - unat a)")
    (auto simp: word_less_nat_alt word_le_nat_alt)

declare deallocuvm_loop.simps [simp del]

definition deallocuvm :: "u32 \<Rightarrow> u32 \<Rightarrow> u32 \<Rightarrow> 'a km_scheme \<Rightarrow> (u32 \<times> 'a km_scheme) outcome" where
  "deallocuvm pd oldsz newsz s =
     (if newsz \<ge> oldsz then Ok (oldsz, s)
      else andthen (deallocuvm_loop pd (PGROUNDUP newsz) oldsz s) (\<lambda>s1. Ok (newsz, s1)))"

text \<open>The loop over the directory in \<open>freevm\<close>.\<close>

fun freevm_tables :: "u32 \<Rightarrow> nat list \<Rightarrow> 'a km_scheme \<Rightarrow> 'a km_scheme outcome" where
  "freevm_tables pd [] s = Ok s"
| "freevm_tables pd (i # is) s =
     andthen (if present (kload (pd + 4 * of_nat i) s)
              then kfree (P2V (PTE_ADDR (kload (pd + 4 * of_nat i) s))) s
              else Ok s) (freevm_tables pd is)"

definition freevm :: "u32 \<Rightarrow> 'a km_scheme \<Rightarrow> 'a km_scheme outcome" where
  "freevm pd s =
     (if pd = 0 then Panic ''freevm: no pgdir''
      else andthen (deallocuvm pd KERNBASE 0 s) (\<lambda>(_, s1).
        andthen (freevm_tables pd [0..<NPDENTRIES] s1) (kfree pd)))"

section \<open>Kernel page tables\<close>

text \<open>\<open>struct kmap\<close> and the table \<open>kmap\<close>: virtual address, physical start and end, permissions.\<close>

record kmap =
  virt :: u32
  phys_start :: u32
  phys_end :: u32
  perm :: u32

definition kmap_table :: "u32 \<Rightarrow> kmap list" where
  "kmap_table data =
     [\<lparr>virt = KERNBASE, phys_start = 0, phys_end = EXTMEM, perm = PTE_W\<rparr>,
      \<lparr>virt = KERNBASE + EXTMEM, phys_start = V2P (KERNBASE + EXTMEM), phys_end = V2P data, perm = 0\<rparr>,
      \<lparr>virt = data, phys_start = V2P data, phys_end = PHYSTOP, perm = PTE_W\<rparr>,
      \<lparr>virt = DEVSPACE, phys_start = DEVSPACE, phys_end = 0, perm = PTE_W\<rparr>]"

fun setupkvm_map :: "u32 \<Rightarrow> kmap list \<Rightarrow> 'a km_scheme \<Rightarrow> (u32 \<times> 'a km_scheme) outcome" where
  "setupkvm_map pd [] s = Ok (pd, s)"
| "setupkvm_map pd (k # ks) s =
     andthen (mappages pd (virt k) (phys_end k - phys_start k) (phys_start k) (perm k) s) (\<lambda>(ok, s1).
       if \<not> ok then andthen (freevm pd s1) (\<lambda>s2. Ok (0, s2))
       else setupkvm_map pd ks s1)"

definition setupkvm :: "'a km_scheme \<Rightarrow> (u32 \<times> 'a km_scheme) outcome" where
  "setupkvm s =
     andthen (kalloc s) (\<lambda>(pd, s1).
       if pd = 0 then Ok (0, s1)
       else
         let s2 = set_mem (\<lambda>m. memset m pd 0 PGSIZE) s1 in
         if P2V PHYSTOP > DEVSPACE then Panic ''PHYSTOP too high''
         else setupkvm_map pd (kmap_table (kdata (kmem s2))) s2)"

definition kvmalloc :: "'a km_scheme \<Rightarrow> 'a km_scheme outcome" where
  "kvmalloc s = andthen (setupkvm s) (\<lambda>(d, s1). Ok (switchkvm (s1\<lparr>kpgdir := d\<rparr>)))"

section \<open>User address spaces\<close>

text \<open>\<open>init\<close> is a block of kernel memory, given by its bytes; \<open>kalloc\<close> is not checked.\<close>

definition inituvm :: "u32 \<Rightarrow> u8 list \<Rightarrow> 'a km_scheme \<Rightarrow> 'a km_scheme outcome" where
  "inituvm pd init s =
     (if length init \<ge> 4096 then Panic ''inituvm: more than a page''
      else andthen (kalloc s) (\<lambda>(mem, s1).
        if mem = 0 then Fault
        else
          let s2 = set_mem (\<lambda>m. memset m mem 0 PGSIZE) s1 in
          andthen (mappages pd 0 PGSIZE (V2P mem) (or PTE_W PTE_U) s2) (\<lambda>(_, s3).
            Ok (set_mem (\<lambda>m. write_bytes m mem init) s3))))"

text \<open>The page addresses \<open>a, a + PGSIZE, \<dots>\<close> below \<open>b\<close>.\<close>

definition pages_between :: "u32 \<Rightarrow> u32 \<Rightarrow> u32 list" where
  "pages_between a b = page_range a ((unat b - unat a + 4095) div 4096)"

fun allocuvm_loop :: "u32 \<Rightarrow> u32 \<Rightarrow> u32 \<Rightarrow> u32 list \<Rightarrow> 'a km_scheme \<Rightarrow> (u32 \<times> 'a km_scheme) outcome" where
  "allocuvm_loop pd oldsz newsz [] s = Ok (newsz, s)"
| "allocuvm_loop pd oldsz newsz (a # as) s =
     andthen (kalloc s) (\<lambda>(mem, s1).
       if mem = 0 then andthen (deallocuvm pd newsz oldsz s1) (\<lambda>(_, s2). Ok (0, s2))
       else
         let s2 = set_mem (\<lambda>m. memset m mem 0 PGSIZE) s1 in
         andthen (mappages pd a PGSIZE (V2P mem) (or PTE_W PTE_U) s2) (\<lambda>(ok, s3).
           if \<not> ok
           then andthen (deallocuvm pd newsz oldsz s3) (\<lambda>(_, s4).
                andthen (kfree mem s4) (\<lambda>s5. Ok (0, s5)))
           else allocuvm_loop pd oldsz newsz as s3))"

definition allocuvm :: "u32 \<Rightarrow> u32 \<Rightarrow> u32 \<Rightarrow> 'a km_scheme \<Rightarrow> (u32 \<times> 'a km_scheme) outcome" where
  "allocuvm pd oldsz newsz s =
     (if newsz \<ge> KERNBASE then Ok (0, s)
      else if newsz < oldsz then Ok (oldsz, s)
      else allocuvm_loop pd oldsz newsz (pages_between (PGROUNDUP oldsz) newsz) s)"

definition clearpteu :: "u32 \<Rightarrow> u32 \<Rightarrow> 'a km_scheme \<Rightarrow> 'a km_scheme outcome" where
  "clearpteu pd uva s =
     andthen (walkpgdir pd uva False s) (\<lambda>(pte, s1).
       if pte = 0 then Panic ''clearpteu''
       else Ok (set_mem (\<lambda>m. store32 m pte (and (load32 m pte) (not PTE_U))) s1))"

fun copyuvm_loop :: "u32 \<Rightarrow> u32 \<Rightarrow> u32 list \<Rightarrow> 'a km_scheme \<Rightarrow> (u32 \<times> 'a km_scheme) outcome" where
  "copyuvm_loop pd d [] s = Ok (d, s)"
| "copyuvm_loop pd d (i # is) s =
     andthen (walkpgdir pd i False s) (\<lambda>(pte, s1).
       if pte = 0 then Panic ''copyuvm: pte should exist''
       else if \<not> present (kload pte s1) then Panic ''copyuvm: page not present''
       else
         let pa = PTE_ADDR (kload pte s1); flags = PTE_FLAGS (kload pte s1) in
         andthen (kalloc s1) (\<lambda>(mem, s2).
           if mem = 0 then andthen (freevm d s2) (\<lambda>s3. Ok (0, s3))
           else
             let s3 = set_mem (\<lambda>m. memmove m mem (P2V pa) PGSIZE) s2 in
             andthen (mappages d i PGSIZE (V2P mem) flags s3) (\<lambda>(ok, s4).
               if \<not> ok
               then andthen (kfree mem s4) (\<lambda>s5. andthen (freevm d s5) (\<lambda>s6. Ok (0, s6)))
               else copyuvm_loop pd d is s4)))"

definition copyuvm :: "u32 \<Rightarrow> u32 \<Rightarrow> 'a km_scheme \<Rightarrow> (u32 \<times> 'a km_scheme) outcome" where
  "copyuvm pd sz' s =
     andthen (setupkvm s) (\<lambda>(d, s1).
       if d = 0 then Ok (0, s1) else copyuvm_loop pd d (pages_between 0 sz') s1)"

definition uva2ka :: "u32 \<Rightarrow> u32 \<Rightarrow> 'a km_scheme \<Rightarrow> (u32 \<times> 'a km_scheme) outcome" where
  "uva2ka pd uva s =
     andthen (walkpgdir pd uva False s) (\<lambda>(pte, s1).
       if pte = 0 then Fault
       else if and (kload pte s1) PTE_P = 0 then Ok (0, s1)
       else if and (kload pte s1) PTE_U = 0 then Ok (0, s1)
       else Ok (P2V (PTE_ADDR (kload pte s1)), s1))"

lemma split_page: "PGROUNDDOWN va + and va 0xFFF = va"
proof -
  have "and (and va (not 0xFFF)) (and va 0xFFF) = (0 :: u32)" by (rule bit_word_eqI) (auto simp: bit_simps)
  moreover have "or (and va (not 0xFFF)) (and va 0xFFF) = va" by (rule bit_word_eqI) (auto simp: bit_simps)
  ultimately show ?thesis by (simp add: PGROUNDDOWN_def disjunctive_add_eq_or)
qed

lemma PGROUNDDOWN_diff: "va - PGROUNDDOWN va = and va 0xFFF" "unat (va - PGROUNDDOWN va) < 4096"
proof -
  show d: "va - PGROUNDDOWN va = and va 0xFFF" using split_page [of va] by (simp add: algebra_simps)
  have m: "(0xFFF :: u32) = mask 12" by (simp add: mask_eq_exp_minus_1)
  have "and va (mask 12) < 2 ^ 12" by (rule and_mask_less') simp
  then show "unat (va - PGROUNDDOWN va) < 4096" unfolding d m by (simp add: word_less_nat_alt)
qed

text \<open>The source of \<open>copyout\<close> is kernel memory, given by its bytes.\<close>

function copyout :: "u32 \<Rightarrow> u32 \<Rightarrow> u8 list \<Rightarrow> 'a km_scheme \<Rightarrow> (bool \<times> 'a km_scheme) outcome" where
  "copyout pd va bs s =
     (if bs = [] then Ok (True, s)
      else
        let va0 = PGROUNDDOWN va in
        andthen (uva2ka pd va0 s) (\<lambda>(pa0, s1).
          if pa0 = 0 then Ok (False, s1)
          else
            let n = min (4096 - unat (va - va0)) (length bs) in
            copyout pd (va0 + PGSIZE) (drop n bs)
              (set_mem (\<lambda>m. write_bytes m (pa0 + (va - va0)) (take n bs)) s1)))"
  by pat_completeness auto
termination copyout
  by (relation "measure (\<lambda>(pd, va, bs, s). length bs)") (use PGROUNDDOWN_diff(2) in \<open>auto simp: min_def\<close>)

declare copyout.simps [simp del]

end
