(* ===== verification/Kcode.thy ===== *)
theory Kcode
  imports Xv6_Prelude
begin

text \<open>
  Kernel code as a function of the state that returns a value and a new state, with a
  sequencing operator, and a weakest precondition for total correctness: \<open>wpk m P s\<close> says that
  \<open>m\<close> returns from \<open>s\<close> without a panic, a wait or undefined behaviour, with a value and a state
  that satisfy \<open>P\<close>. The file system layers are written and verified in these terms.
\<close>

section \<open>Sequencing\<close>

type_synonym ('s, 'a) kcode = "'s \<Rightarrow> ('a \<times> 's) outcome"

definition retk :: "'a \<Rightarrow> ('s, 'a) kcode" where
  "retk x s = Ok (x, s)"

definition bindk :: "('s, 'a) kcode \<Rightarrow> ('a \<Rightarrow> ('s, 'b) kcode) \<Rightarrow> ('s, 'b) kcode" where
  "bindk m f s = andthen (m s) (\<lambda>(x, s1). f x s1)"

definition thenk :: "('s, 'a) kcode \<Rightarrow> ('s, 'b) kcode \<Rightarrow> ('s, 'b) kcode" where
  "thenk m n = bindk m (\<lambda>_. n)"

text \<open>Reading a part of the state, changing it, and an operation that returns no value.\<close>

definition getk :: "('s \<Rightarrow> 'a) \<Rightarrow> ('s, 'a) kcode" where
  "getk f s = Ok (f s, s)"

definition modk :: "('s \<Rightarrow> 's) \<Rightarrow> ('s, unit) kcode" where
  "modk f s = Ok ((), f s)"

definition dok :: "('s \<Rightarrow> 's outcome) \<Rightarrow> ('s, unit) kcode" where
  "dok f s = andthen (f s) (\<lambda>s1. Ok ((), s1))"

definition panick :: "string \<Rightarrow> ('s, 'a) kcode" where
  "panick msg s = Panic msg"

definition blockk :: "('s, 'a) kcode" where
  "blockk s = Block"

definition faultk :: "('s, 'a) kcode" where
  "faultk s = Fault"

text \<open>A loop over a list of values that stops at the first result.\<close>

primrec findk :: "('i \<Rightarrow> ('s, 'a option) kcode) \<Rightarrow> 'i list \<Rightarrow> ('s, 'a option) kcode" where
  "findk f [] = retk None"
| "findk f (i # is) = bindk (f i) (\<lambda>r. case r of None \<Rightarrow> findk f is | Some x \<Rightarrow> retk (Some x))"

primrec foreachk :: "('i \<Rightarrow> ('s, unit) kcode) \<Rightarrow> 'i list \<Rightarrow> ('s, unit) kcode" where
  "foreachk f [] = retk ()"
| "foreachk f (i # is) = thenk (f i) (foreachk f is)"

lemma bindk_cong [fundef_cong]:
  assumes "s = s'" "m s' = m' s'" "\<And>x s1. m' s' = Ok (x, s1) \<Longrightarrow> f x s1 = f' x s1"
  shows "bindk m f s = bindk m' f' s'"
  using assms by (cases "m' s'") (auto simp: bindk_def)

lemma thenk_cong [fundef_cong]:
  assumes "s = s'" "m s' = m' s'" "\<And>x s1. m' s' = Ok (x, s1) \<Longrightarrow> n s1 = n' s1"
  shows "thenk m n s = thenk m' n' s'"
  unfolding thenk_def using assms by (rule bindk_cong)

lemma bindk_assoc: "bindk (bindk m f) g = bindk m (\<lambda>x. bindk (f x) g)"
proof
  fix s
  show "bindk (bindk m f) g s = bindk m (\<lambda>x. bindk (f x) g) s"
    by (cases "m s") (auto simp: bindk_def)
qed

lemma bindk_retk [simp]: "bindk (retk x) f = f x" "bindk m retk = m"
proof -
  show "bindk (retk x) f = f x" by (simp add: bindk_def retk_def fun_eq_iff)
  show "bindk m retk = m"
  proof
    fix s show "bindk m retk s = m s" by (cases "m s") (auto simp: bindk_def retk_def)
  qed
qed

section \<open>Total correctness\<close>

definition wpk :: "('s, 'a) kcode \<Rightarrow> ('a \<Rightarrow> 's \<Rightarrow> bool) \<Rightarrow> 's \<Rightarrow> bool" where
  "wpk m P s \<longleftrightarrow> (\<exists>x s'. m s = Ok (x, s') \<and> P x s')"

lemma wpk_retk [simp]: "wpk (retk x) P s \<longleftrightarrow> P x s"
  by (simp add: wpk_def retk_def)

lemma wpk_getk [simp]: "wpk (getk f) P s \<longleftrightarrow> P (f s) s"
  by (simp add: wpk_def getk_def)

lemma wpk_modk [simp]: "wpk (modk f) P s \<longleftrightarrow> P () (f s)"
  by (simp add: wpk_def modk_def)

lemma wpk_panick [simp]: "\<not> wpk (panick msg) P s" "\<not> wpk blockk P s" "\<not> wpk faultk P s"
  by (simp_all add: wpk_def panick_def blockk_def faultk_def)

lemma wpk_bindk [simp]: "wpk (bindk m f) P s \<longleftrightarrow> wpk m (\<lambda>x. wpk (f x) P) s"
  by (fastforce simp: wpk_def bindk_def andthen_Ok_iff)

lemma wpk_thenk [simp]: "wpk (thenk m n) P s \<longleftrightarrow> wpk m (\<lambda>x. wpk n P) s"
  by (simp add: thenk_def)

lemma wpk_dok: "f s = Ok s' \<Longrightarrow> wpk (dok f) P s \<longleftrightarrow> P () s'"
  by (simp add: wpk_def dok_def)

lemma wpk_mono: "wpk m P s \<Longrightarrow> (\<And>x s'. P x s' \<Longrightarrow> Q x s') \<Longrightarrow> wpk m Q s"
  by (auto simp: wpk_def)

lemma wpk_conj: "wpk m P s \<Longrightarrow> wpk m Q s \<Longrightarrow> wpk m (\<lambda>x s'. P x s' \<and> Q x s') s"
  by (auto simp: wpk_def)

lemma wpkI: "m s = Ok (x, s') \<Longrightarrow> P x s' \<Longrightarrow> wpk m P s"
  by (auto simp: wpk_def)

lemma wpkE:
  assumes "wpk m P s"
  obtains x s' where "m s = Ok (x, s')" "P x s'"
  using assms by (auto simp: wpk_def)

lemma wpk_Ok: "m s = Ok (x, s') \<Longrightarrow> wpk m P s \<longleftrightarrow> P x s'"
  by (simp add: wpk_def)

text \<open>An invariant of every iteration is an invariant of the loop.\<close>

lemma wpk_foreachk:
  assumes "I [] s" and "\<And>ds i is s. xs = ds @ i # is \<Longrightarrow> I ds s \<Longrightarrow> wpk (f i) (\<lambda>_. I (ds @ [i])) s"
  shows "wpk (foreachk f xs) (\<lambda>_. I xs) s"
proof -
  have "wpk (foreachk f is) (\<lambda>_. I xs) s" if "xs = ds @ is" "I ds s" for ds "is" s
    using that
  proof (induction "is" arbitrary: ds s)
    case Nil
    then show ?case by simp
  next
    case (Cons i "is")
    from assms(2) [OF Cons.prems] have "wpk (f i) (\<lambda>_. I (ds @ [i])) s" .
    then show ?case using Cons.IH [of "ds @ [i]"] Cons.prems(1) by (auto elim: wpk_mono)
  qed
  from this [of "[]" xs] assms(1) show ?thesis by simp
qed

end
