(* ===== verification/Sleeplock.thy ===== *)
theory Sleeplock
  imports Vm Kcode
begin

text \<open>
  Sleep locks, \<open>sleeplock.c\<close>. A sleep lock is held by a process for a long time; the file
  system uses one per buffer and one per inode. The file system is modelled as the sequence
  of steps of one process: where it would have to sleep until another process releases a
  lock, the outcome is \<open>Block\<close>.
\<close>

section \<open>State\<close>

text \<open>\<open>struct sleeplock\<close> without its name; the spin lock \<open>lk\<close> is \<open>SleepLk\<close> of its identity.\<close>

record sleeplock =
  slocked :: bool
  spid :: int

record sl = km +
  sleeplks :: "sleeplock_id \<Rightarrow> sleeplock"

section \<open>Definitions\<close>

definition set_sleeplock :: "sleeplock_id \<Rightarrow> bool \<Rightarrow> int \<Rightarrow> 'a sl_scheme \<Rightarrow> 'a sl_scheme" where
  "set_sleeplock k l p s = s\<lparr>sleeplks := (sleeplks s)(k := \<lparr>slocked = l, spid = p\<rparr>)\<rparr>"

definition initsleeplock :: "sleeplock_id \<Rightarrow> 'a sl_scheme \<Rightarrow> 'a sl_scheme" where
  "initsleeplock k s = set_sleeplock k False 0 (initlock (SleepLk k) s)"

text \<open>\<open>myproc()->pid\<close>; there is a current process whenever a sleep lock is used.\<close>

definition mypid :: "('a sl_scheme, int) kcode" where
  "mypid s = andthen (myproc s) (\<lambda>(p, s1). case p of None \<Rightarrow> Fault | Some i \<Rightarrow> Ok (pid (ptable s1 ! i), s1))"

definition acquiresleep :: "sleeplock_id \<Rightarrow> ('a sl_scheme, unit) kcode" where
  "acquiresleep k =
     thenk (dok (acquire (SleepLk k)))
     (bindk (getk (\<lambda>s. slocked (sleeplks s k))) (\<lambda>l.
       if l then blockk
       else bindk mypid (\<lambda>p.
         thenk (modk (set_sleeplock k True p))
         (dok (release (SleepLk k))))))"

definition releasesleep :: "sleeplock_id \<Rightarrow> ('a sl_scheme, unit) kcode" where
  "releasesleep k =
     thenk (dok (acquire (SleepLk k)))
     (thenk (modk (set_sleeplock k False 0))
     (thenk (dok (wakeup (SleepLockChan k)))
     (dok (release (SleepLk k)))))"

definition holdingsleep :: "sleeplock_id \<Rightarrow> ('a sl_scheme, bool) kcode" where
  "holdingsleep k =
     thenk (dok (acquire (SleepLk k)))
     (bindk (getk (\<lambda>s. slocked (sleeplks s k))) (\<lambda>l.
      bindk mypid (\<lambda>p.
      bindk (getk (\<lambda>s. l \<and> spid (sleeplks s k) = p)) (\<lambda>r.
      thenk (dok (release (SleepLk k)))
      (retk r)))))"

section \<open>Sleep locks and the lower layers\<close>

lemma mach_sleeplks [simp]:
  "cur (sleeplks_update f s) = cur s"
  "cpu_ok (sleeplks_update f s) = cpu_ok s"
  "readeflags (sleeplks_update f s) = readeflags s"
  "lock_free l (sleeplks_update f s) = lock_free l s"
  "held l (sleeplks_update f s) = held l s"
  "in_section (sleeplks_update f s) = in_section s"
  "curproc (sleeplks_update f s) = curproc s"
  "saved_intena (sleeplks_update f s) = saved_intena s"
  "settled (sleeplks_update f s) = settled s"
  "sleeplks_update f (acquired l s) = acquired l (sleeplks_update f s)"
  "sleeplks_update f (released l s) = released l (sleeplks_update f s)"
  "sleeplks_update f (touched s) = touched (sleeplks_update f s)"
  "sleeplks (acquired l s) = sleeplks s"
  "sleeplks (released l s) = sleeplks s"
  "sleeplks (touched s) = sleeplks s"
  by (simp_all add: lock_layer_defs settled_def)

section \<open>The operations of a process\<close>

text \<open>A running process between critical sections; \<open>p\<close> is its slot.\<close>

definition running :: "nat \<Rightarrow> 'a sl_scheme \<Rightarrow> bool" where
  "running p s \<longleftrightarrow> settled s \<and> curproc s = Some p \<and> p < length (ptable s)"

definition sheld :: "sleeplock_id \<Rightarrow> nat \<Rightarrow> 'a sl_scheme \<Rightarrow> bool" where
  "sheld k p s \<longleftrightarrow> slocked (sleeplks s k) \<and> spid (sleeplks s k) = pid (ptable s ! p)"

lemma set_sleeplock_simps [simp]:
  "settled (set_sleeplock k l q s) = settled s" "curproc (set_sleeplock k l q s) = curproc s"
  "ptable (set_sleeplock k l q s) = ptable s"
  "running p (set_sleeplock k l q s) = running p s"
  "sleeplks (set_sleeplock k l q s) k' = (if k' = k then \<lparr>slocked = l, spid = q\<rparr> else sleeplks s k')"
  "set_sleeplock k l q (acquired m s) = acquired m (set_sleeplock k l q s)"
  by (simp_all add: set_sleeplock_def running_def)

lemma running_settled: "running p s \<Longrightarrow> settled s" "running p s \<Longrightarrow> curproc s = Some p"
  by (simp_all add: running_def)

lemma mypid_section: "running p s \<Longrightarrow> mypid (acquired l s) = Ok (pid (ptable s ! p), acquired l s)"
  by (simp add: mypid_def running_def settled_myproc_section)

lemma acquiresleep_ok:
  assumes "running p s" "\<not> slocked (sleeplks s k)"
  shows "acquiresleep k s = Ok ((), set_sleeplock k True (pid (ptable s ! p)) s)"
  using assms mypid_section [OF assms(1), of "SleepLk k"] running_settled [OF assms(1)]
  by (simp add: acquiresleep_def thenk_def bindk_def dok_def getk_def modk_def settled_exec)

lemma acquiresleep_busy:
  assumes "running p s" "slocked (sleeplks s k)"
  shows "acquiresleep k s = Block"
  using assms running_settled [OF assms(1)]
  by (simp add: acquiresleep_def thenk_def bindk_def dok_def getk_def blockk_def settled_exec)

lemma releasesleep_ok:
  assumes "running p s"
  shows "releasesleep k s = Ok ((), wakeup1 (SleepLockChan k) (set_sleeplock k False 0 s))"
  using running_settled [OF assms]
  by (simp add: releasesleep_def thenk_def bindk_def dok_def modk_def settled_exec)

lemma holdingsleep_ok:
  assumes "running p s"
  shows "holdingsleep k s = Ok (sheld k p s, s)"
  using mypid_section [OF assms, of "SleepLk k"] running_settled [OF assms]
  by (simp add: holdingsleep_def thenk_def bindk_def dok_def getk_def retk_def settled_exec sheld_def)

text \<open>
  A wakeup changes the state of processes only; it neither stops the running process nor
  touches the identity of any.
\<close>

lemma wakeup1_pid [simp]: "i < length (ptable s) \<Longrightarrow> pid (ptable (wakeup1 c s) ! i) = pid (ptable s ! i)"
  by (simp add: wakeup1_def)

lemma running_wakeup1 [simp]: "running p (wakeup1 c s) = running p s"
  by (simp add: running_def)

lemma sleeplks_wakeup1 [simp]: "sleeplks (wakeup1 c s) = sleeplks s"
  by (simp add: wakeup1_def)

lemma sheld_wakeup1 [simp]: "running p s \<Longrightarrow> sheld k p (wakeup1 c s) = sheld k p s"
  by (simp add: sheld_def running_def)

end
