(* ===== verification/Ide.thy ===== *)
theory Ide
  imports Sleeplock
begin

text \<open>
  Disk blocks in memory and the two disk drivers: \<open>struct buf\<close> (\<open>buf.h\<close>), \<open>ide.c\<close> and
  \<open>memide.c\<close>, which replaces it in the image that carries its file system along.

  The disk itself is hardware. It is modelled by its medium, the sectors of two drives, and by
  the command it has been given. A write command reaches the medium when the disk completes
  it; the medium is kept as its initial contents and the sequence of completed writes, so
  that the states in which a crash can leave it are the prefixes of that sequence.
\<close>

section \<open>State\<close>

abbreviation BSIZE :: nat where "BSIZE \<equiv> 512"
abbreviation FSSIZE :: u32 where "FSSIZE \<equiv> 1000"
abbreviation NBUF :: nat where "NBUF \<equiv> 30"

type_synonym block = "u8 list"

text \<open>
  \<open>struct buf\<close>: the two bits of \<open>flags\<close> are \<open>b_valid\<close> and \<open>b_dirty\<close>, the lock is
  \<open>BufLock\<close> of the index. The links \<open>prev\<close>, \<open>next\<close> and \<open>qnext\<close> are the lists \<open>lru\<close> and
  \<open>idequeue\<close> of indices below.
\<close>

record buf =
  b_valid :: bool
  b_dirty :: bool
  b_dev :: u32
  b_blockno :: u32
  b_refcnt :: u32
  b_data :: block

text \<open>\<open>bcache\<close> of \<open>bio.c\<close>: the buffers, and their order from the most recently used on.\<close>

record bcache_state =
  bufs :: "buf list"
  lru :: "nat list"

text \<open>A command of the disk: the drive, the sector and, for a write, the data.\<close>

type_synonym sector = "bool \<times> u32"
type_synonym ide_command = "sector \<times> block option"

record ide_state =
  idequeue :: "nat list"
  havedisk1 :: bool
  ide_cmd :: "ide_command option"
  ide_error :: bool
  medium0 :: "sector \<Rightarrow> block"
  written :: "(sector \<times> block) list"

record dk = sl +
  bcache :: bcache_state
  ide :: ide_state

definition buf_at :: "nat \<Rightarrow> 'a dk_scheme \<Rightarrow> buf" where
  "buf_at b s = bufs (bcache s) ! b"

definition upd_buf :: "nat \<Rightarrow> (buf \<Rightarrow> buf) \<Rightarrow> 'a dk_scheme \<Rightarrow> 'a dk_scheme" where
  "upd_buf b f s = s\<lparr>bcache := (bcache s)\<lparr>bufs := (bufs (bcache s))[b := f (bufs (bcache s) ! b)]\<rparr>\<rparr>"

definition set_ide :: "(ide_state \<Rightarrow> ide_state) \<Rightarrow> 'a dk_scheme \<Rightarrow> 'a dk_scheme" where
  "set_ide f s = s\<lparr>ide := f (ide s)\<rparr>"

section \<open>The disk\<close>

text \<open>What a sequence of writes leaves on a medium.\<close>

fun apply_writes :: "('k \<times> 'v) list \<Rightarrow> ('k \<Rightarrow> 'v) \<Rightarrow> 'k \<Rightarrow> 'v" where
  "apply_writes [] m = m"
| "apply_writes ((k, v) # ws) m = apply_writes ws (m(k := v))"

definition medium :: "ide_state \<Rightarrow> sector \<Rightarrow> block" where
  "medium d = apply_writes (written d) (medium0 d)"

text \<open>The disk completes the command it has; a read changes nothing.\<close>

definition disk_complete :: "ide_state \<Rightarrow> ide_state" where
  "disk_complete d =
     (case ide_cmd d of
        Some (sec, Some bs) \<Rightarrow> d\<lparr>written := written d @ [(sec, bs)], ide_cmd := Some (sec, None)\<rparr>
      | _ \<Rightarrow> d)"

section \<open>The driver of \<open>ide.c\<close>\<close>

text \<open>The disk becomes ready; its error bits are \<open>ide_error\<close>. The result is \<open>False\<close> for -1.\<close>

definition idewait :: "bool \<Rightarrow> ('a dk_scheme, bool) kcode" where
  "idewait checkerr = getk (\<lambda>s. \<not> (checkerr \<and> ide_error (ide s)))"

text \<open>\<open>present\<close> says whether drive 1 answers one of the thousand reads of its status.\<close>

definition ideinit :: "bool \<Rightarrow> ('a dk_scheme, unit) kcode" where
  "ideinit present1 =
     thenk (modk (initlock IdeLock))
     (thenk (idewait False)
     (modk (set_ide (\<lambda>d. if present1 then d\<lparr>havedisk1 := True\<rparr> else d))))"

definition idestart :: "nat option \<Rightarrow> ('a dk_scheme, unit) kcode" where
  "idestart bo =
     (case bo of
        None \<Rightarrow> panick ''idestart''
      | Some b \<Rightarrow>
          bindk (getk (buf_at b)) (\<lambda>k.
            if b_blockno k \<ge> FSSIZE then panick ''incorrect blockno''
            else
              let sector_per_block = 1; sector = b_blockno k * sector_per_block; drive = bit (b_dev k) 0 in
              thenk (idewait False)
              (modk (set_ide (\<lambda>d. d\<lparr>ide_cmd := Some ((drive, sector), if b_dirty k then Some (b_data k) else None)\<rparr>)))))"

text \<open>
  \<open>insl\<close> on the data port: the sector of the last command. Without a command there is no data.
\<close>

definition ide_insl :: "nat \<Rightarrow> ('a dk_scheme, unit) kcode" where
  "ide_insl b =
     modk (\<lambda>s. case ide_cmd (ide s) of
                 Some (sec, _) \<Rightarrow> upd_buf b (\<lambda>k. k\<lparr>b_data := medium (ide s) sec\<rparr>) s
               | None \<Rightarrow> s)"

definition ideintr :: "('a dk_scheme, unit) kcode" where
  "ideintr =
     thenk (dok (acquire IdeLock))
     (bindk (getk (\<lambda>s. idequeue (ide s))) (\<lambda>q.
       case q of
         [] \<Rightarrow> dok (release IdeLock)
       | b # rest \<Rightarrow>
           thenk (modk (set_ide (\<lambda>d. d\<lparr>idequeue := rest\<rparr>)))
           (bindk (getk (buf_at b)) (\<lambda>k.
            bindk (if b_dirty k then retk False else idewait True) (\<lambda>rd.
            thenk (if rd then ide_insl b else retk ())
            (thenk (modk (upd_buf b (\<lambda>k. k\<lparr>b_valid := True, b_dirty := False\<rparr>)))
            (thenk (dok (wakeup (BufChan b)))
            (thenk (if rest \<noteq> [] then idestart (Some (hd rest)) else retk ())
            (dok (release IdeLock)))))))))) "

text \<open>
  The wait at the end of \<open>iderw\<close>. The process sleeps and gives up \<open>idelock\<close>; meanwhile the disk
  completes its command and interrupts, and \<open>ideintr\<close> takes the first request off the queue.
  The process takes the lock back and looks again. If no request is queued nobody will
  ever wake it.
\<close>

lemma dk_more: "pt.more s' = pt.more s \<Longrightarrow> ide s' = ide s \<and> bcache s' = bcache s \<and> sleeplks s' = sleeplks s \<and> kmem s' = kmem s"
  by (cases s; cases s') simp

lemma upd_buf_ide [simp]: "ide (upd_buf b f s) = ide s"
  by (simp add: upd_buf_def)

lemma set_ide_ide [simp]: "ide (set_ide f s) = f (ide s)"
  by (simp add: set_ide_def)

lemma idestart_queue: "idestart b s = Ok (u, s') \<Longrightarrow> idequeue (ide s') = idequeue (ide s)"
  by (auto simp: idestart_def panick_def bindk_def thenk_def getk_def modk_def idewait_def Let_def
      split: option.split_asm if_split_asm)

lemma ideintr_queue:
  assumes "ideintr s = Ok (u, s')"
  shows "idequeue (ide s') = tl (idequeue (ide s))"
proof -
  have i: "idequeue (ide s2) = idequeue (ide s1)" if "ide_insl b s1 = Ok (v, s2)" for b s1 v s2
    using that by (auto simp: ide_insl_def modk_def split: option.split_asm)
  show ?thesis
    using assms
    by (auto simp: ideintr_def bindk_def thenk_def dok_def getk_def modk_def retk_def idewait_def
        elim!: andthen_OkE split: list.split_asm if_split_asm
        dest!: lock_ops_more pt_more_mach wakeup_frame dk_more idestart_queue i)
qed

function ide_waitfor :: "nat \<Rightarrow> ('a dk_scheme, unit) kcode" where
  "ide_waitfor b s =
     (if b_valid (buf_at b s) \<and> \<not> b_dirty (buf_at b s) then Ok ((), s)
      else if idequeue (ide s) = [] then Block
      else
        bindk (thenk (dok (release IdeLock))
               (thenk (modk (set_ide disk_complete))
               (thenk ideintr
               (dok (acquire IdeLock))))) (\<lambda>_. ide_waitfor b) s)"
  by pat_completeness auto
termination
proof (relation "measure (\<lambda>(b, s). length (idequeue (ide s)))")
  fix b and s s1 :: "'a dk_scheme" and x
  assume q: "idequeue (ide s) \<noteq> []"
    and r: "thenk (dok (release IdeLock)) (thenk (modk (set_ide disk_complete)) (thenk ideintr (dok (acquire IdeLock)))) s = Ok (x, s1)"
  have "idequeue (disk_complete d) = idequeue d" for d
    by (simp add: disk_complete_def split: option.split prod.split)
  then have "idequeue (ide s1) = tl (idequeue (ide s))"
    using r by (auto simp: bindk_def thenk_def dok_def modk_def elim!: andthen_OkE
        dest!: lock_ops_more pt_more_mach dk_more ideintr_queue)
  then show "((b, s1), (b, s)) \<in> measure (\<lambda>(b, s). length (idequeue (ide s)))" using q by simp
qed simp

declare ide_waitfor.simps [simp del]

definition iderw :: "nat \<Rightarrow> ('a dk_scheme, unit) kcode" where
  "iderw b =
     bindk (holdingsleep (BufLock b)) (\<lambda>h.
       if \<not> h then panick ''iderw: buf not locked''
       else bindk (getk (buf_at b)) (\<lambda>k.
         if b_valid k \<and> \<not> b_dirty k then panick ''iderw: nothing to do''
         else bindk (getk (\<lambda>s. havedisk1 (ide s))) (\<lambda>hd1.
           if b_dev k \<noteq> 0 \<and> \<not> hd1 then panick ''iderw: ide disk 1 not present''
           else
             thenk (dok (acquire IdeLock))
             (thenk (modk (set_ide (\<lambda>d. d\<lparr>idequeue := idequeue d @ [b]\<rparr>)))
             (bindk (getk (\<lambda>s. idequeue (ide s))) (\<lambda>q.
             thenk (if hd q = b then idestart (Some b) else retk ())
             (thenk (ide_waitfor b)
             (dok (release IdeLock)))))))))"

section \<open>The driver of \<open>memide.c\<close>\<close>

text \<open>The image in memory is drive 1 of the medium; \<open>disksize\<close> is the size of the image.\<close>

definition memide_intr :: "('a dk_scheme, unit) kcode" where
  "memide_intr = retk ()"

definition memide_rw :: "u32 \<Rightarrow> nat \<Rightarrow> ('a dk_scheme, unit) kcode" where
  "memide_rw disksize b =
     bindk (holdingsleep (BufLock b)) (\<lambda>h.
       if \<not> h then panick ''iderw: buf not locked''
       else bindk (getk (buf_at b)) (\<lambda>k.
         if b_valid k \<and> \<not> b_dirty k then panick ''iderw: nothing to do''
         else if b_dev k \<noteq> 1 then panick ''iderw: request not for disk 1''
         else if b_blockno k \<ge> disksize then panick ''iderw: block out of range''
         else
           thenk (if b_dirty k
                  then thenk (modk (upd_buf b (\<lambda>k. k\<lparr>b_dirty := False\<rparr>)))
                       (modk (set_ide (\<lambda>d. d\<lparr>written := written d @ [((True, b_blockno k), b_data k)]\<rparr>)))
                  else modk (\<lambda>s. upd_buf b (\<lambda>k. k\<lparr>b_data := medium (ide s) (True, b_blockno k)\<rparr>) s))
           (modk (upd_buf b (\<lambda>k. k\<lparr>b_valid := True\<rparr>)))))"

section \<open>Buffers and the lower layers\<close>

lemma mach_bcache [simp]:
  "cur (bcache_update f s) = cur s"
  "cpu_ok (bcache_update f s) = cpu_ok s"
  "readeflags (bcache_update f s) = readeflags s"
  "lock_free l (bcache_update f s) = lock_free l s"
  "held l (bcache_update f s) = held l s"
  "in_section (bcache_update f s) = in_section s"
  "curproc (bcache_update f s) = curproc s"
  "saved_intena (bcache_update f s) = saved_intena s"
  "settled (bcache_update f s) = settled s"
  "bcache_update f (acquired l s) = acquired l (bcache_update f s)"
  "bcache_update f (released l s) = released l (bcache_update f s)"
  "bcache_update f (touched s) = touched (bcache_update f s)"
  "bcache (acquired l s) = bcache s"
  "bcache (released l s) = bcache s"
  "bcache (touched s) = bcache s"
  by (simp_all add: lock_layer_defs settled_def)

lemma mach_ide [simp]:
  "cur (ide_update f s) = cur s"
  "cpu_ok (ide_update f s) = cpu_ok s"
  "readeflags (ide_update f s) = readeflags s"
  "lock_free l (ide_update f s) = lock_free l s"
  "held l (ide_update f s) = held l s"
  "in_section (ide_update f s) = in_section s"
  "curproc (ide_update f s) = curproc s"
  "saved_intena (ide_update f s) = saved_intena s"
  "settled (ide_update f s) = settled s"
  "ide_update f (acquired l s) = acquired l (ide_update f s)"
  "ide_update f (released l s) = released l (ide_update f s)"
  "ide_update f (touched s) = touched (ide_update f s)"
  "ide (acquired l s) = ide s"
  "ide (released l s) = ide s"
  "ide (touched s) = ide s"
  by (simp_all add: lock_layer_defs settled_def)


end
