(* ===== verification/Bio.thy ===== *)
theory Bio
  imports Ide
begin

text \<open>
  The buffer cache, \<open>bio.c\<close>. A buffer is named by its index in \<open>bcache.buf\<close>; the doubly linked
  list through \<open>bcache.head\<close> is the list \<open>lru\<close> of indices, the most recently used first.
\<close>

section \<open>Definitions\<close>

definition set_lru :: "(nat list \<Rightarrow> nat list) \<Rightarrow> 'a dk_scheme \<Rightarrow> 'a dk_scheme" where
  "set_lru f s = s\<lparr>bcache := (bcache s)\<lparr>lru := f (lru (bcache s))\<rparr>\<rparr>"

definition binit :: "('a dk_scheme, unit) kcode" where
  "binit =
     thenk (modk (initlock BcacheLock))
     (thenk (modk (set_lru (\<lambda>_. [])))
     (foreachk (\<lambda>b. thenk (modk (initsleeplock (BufLock b))) (modk (set_lru (\<lambda>l. b # l)))) [0..<NBUF]))"

text \<open>The two searches of \<open>bget\<close>: forwards for the block, backwards for a buffer to recycle.\<close>

definition bget_cached :: "u32 \<Rightarrow> u32 \<Rightarrow> 'a dk_scheme \<Rightarrow> nat option" where
  "bget_cached dev blockno s =
     find (\<lambda>b. b_dev (buf_at b s) = dev \<and> b_blockno (buf_at b s) = blockno) (lru (bcache s))"

definition bget_unused :: "'a dk_scheme \<Rightarrow> nat option" where
  "bget_unused s = find (\<lambda>b. b_refcnt (buf_at b s) = 0 \<and> \<not> b_dirty (buf_at b s)) (rev (lru (bcache s)))"

definition bget :: "u32 \<Rightarrow> u32 \<Rightarrow> ('a dk_scheme, nat) kcode" where
  "bget dev blockno =
     thenk (dok (acquire BcacheLock))
     (bindk (getk (bget_cached dev blockno)) (\<lambda>c.
       case c of
         Some b \<Rightarrow>
           thenk (modk (upd_buf b (\<lambda>k. k\<lparr>b_refcnt := b_refcnt k + 1\<rparr>)))
           (thenk (dok (release BcacheLock))
           (thenk (acquiresleep (BufLock b))
           (retk b)))
       | None \<Rightarrow>
           bindk (getk bget_unused) (\<lambda>u.
             case u of
               Some b \<Rightarrow>
                 thenk (modk (upd_buf b (\<lambda>k. k\<lparr>b_dev := dev, b_blockno := blockno, b_valid := False,
                                               b_dirty := False, b_refcnt := 1\<rparr>)))
                 (thenk (dok (release BcacheLock))
                 (thenk (acquiresleep (BufLock b))
                 (retk b)))
             | None \<Rightarrow> panick ''bget: no buffers'')))"

definition bread :: "u32 \<Rightarrow> u32 \<Rightarrow> ('a dk_scheme, nat) kcode" where
  "bread dev blockno =
     bindk (bget dev blockno) (\<lambda>b.
     bindk (getk (buf_at b)) (\<lambda>k.
     thenk (if \<not> b_valid k then iderw b else retk ())
     (retk b)))"

definition bwrite :: "nat \<Rightarrow> ('a dk_scheme, unit) kcode" where
  "bwrite b =
     bindk (holdingsleep (BufLock b)) (\<lambda>h.
       if \<not> h then panick ''bwrite''
       else thenk (modk (upd_buf b (\<lambda>k. k\<lparr>b_dirty := True\<rparr>))) (iderw b))"

definition brelse :: "nat \<Rightarrow> ('a dk_scheme, unit) kcode" where
  "brelse b =
     bindk (holdingsleep (BufLock b)) (\<lambda>h.
       if \<not> h then panick ''brelse''
       else
         thenk (releasesleep (BufLock b))
         (thenk (dok (acquire BcacheLock))
         (thenk (modk (upd_buf b (\<lambda>k. k\<lparr>b_refcnt := b_refcnt k - 1\<rparr>)))
         (bindk (getk (buf_at b)) (\<lambda>k.
         thenk (if b_refcnt k = 0 then modk (set_lru (\<lambda>l. b # removeAll b l)) else retk ())
         (dok (release BcacheLock)))))))"

text \<open>The data of a buffer that the caller has locked.\<close>

definition buf_data :: "nat \<Rightarrow> ('a dk_scheme, block) kcode" where
  "buf_data b = getk (\<lambda>s. b_data (buf_at b s))"

definition set_data :: "nat \<Rightarrow> (block \<Rightarrow> block) \<Rightarrow> ('a dk_scheme, unit) kcode" where
  "set_data b f = modk (upd_buf b (\<lambda>k. k\<lparr>b_data := f (b_data k)\<rparr>))"

end
