(* ===== verification/Log.thy ===== *)
theory Log
  imports Bio
begin

text \<open>
  The write-ahead log, \<open>log.c\<close>, with the super block reader of \<open>fs.c\<close> that it calls. The
  header block holds the number of logged blocks and their home addresses as 32 bit words
  in memory order. A process that would have to wait for a commit gives \<open>Block\<close>.
\<close>

section \<open>Words in blocks\<close>

definition get32 :: "block \<Rightarrow> nat \<Rightarrow> u32" where
  "get32 bs o' = or (or (or (ucast (bs ! o')) (push_bit 8 (ucast (bs ! (o' + 1)))))
     (push_bit 16 (ucast (bs ! (o' + 2))))) (push_bit 24 (ucast (bs ! (o' + 3))))"

definition put32 :: "nat \<Rightarrow> u32 \<Rightarrow> block \<Rightarrow> block" where
  "put32 o' w bs = bs[o' := ucast w, o' + 1 := ucast (drop_bit 8 w),
     o' + 2 := ucast (drop_bit 16 w), o' + 3 := ucast (drop_bit 24 w)]"

section \<open>State\<close>

abbreviation LOGSIZE :: nat where "LOGSIZE \<equiv> 30"
abbreviation MAXOPBLOCKS :: int where "MAXOPBLOCKS \<equiv> 10"

text \<open>\<open>struct superblock\<close> (\<open>fs.h\<close>).\<close>

record superblock =
  sb_size :: u32
  sb_nblocks :: u32
  sb_ninodes :: u32
  sb_nlog :: u32
  sb_logstart :: u32
  sb_inodestart :: u32
  sb_bmapstart :: u32

text \<open>\<open>struct logheader\<close> and \<open>struct log\<close>; the lock is \<open>LogLock\<close>.\<close>

record logheader =
  lh_n :: int
  lh_block :: "u32 list"

record log_state =
  l_start :: u32
  l_size :: int
  l_outstanding :: int
  l_committing :: bool
  l_dev :: u32
  l_lh :: logheader

record lg = dk +
  log :: log_state

definition set_log :: "(log_state \<Rightarrow> log_state) \<Rightarrow> ('a lg_scheme, unit) kcode" where
  "set_log f = modk (\<lambda>s. s\<lparr>log := f (log s)\<rparr>)"

section \<open>Definitions\<close>

definition decode_sb :: "block \<Rightarrow> superblock" where
  "decode_sb bs = \<lparr>sb_size = get32 bs 0, sb_nblocks = get32 bs 4, sb_ninodes = get32 bs 8,
     sb_nlog = get32 bs 12, sb_logstart = get32 bs 16, sb_inodestart = get32 bs 20, sb_bmapstart = get32 bs 24\<rparr>"

definition readsb :: "u32 \<Rightarrow> ('a dk_scheme, superblock) kcode" where
  "readsb dev =
     bindk (bread dev 1) (\<lambda>bp.
     bindk (buf_data bp) (\<lambda>bs.
     thenk (brelse bp)
     (retk (decode_sb bs))))"

definition install_trans :: "('a lg_scheme, unit) kcode" where
  "install_trans =
     bindk (getk log) (\<lambda>l.
     foreachk (\<lambda>tail'.
       bindk (bread (l_dev l) (l_start l + word_of_nat tail' + 1)) (\<lambda>lbuf.
       bindk (bread (l_dev l) (lh_block (l_lh l) ! tail')) (\<lambda>dbuf.
       bindk (buf_data lbuf) (\<lambda>bs.
       thenk (set_data dbuf (\<lambda>_. bs))
       (thenk (bwrite dbuf)
       (thenk (brelse lbuf)
       (brelse dbuf))))))) [0..<nat (lh_n (l_lh l))])"

text \<open>A count beyond the array in the header read from disk writes outside \<open>log.lh.block\<close>.\<close>

definition read_head :: "('a lg_scheme, unit) kcode" where
  "read_head =
     bindk (getk log) (\<lambda>l.
     bindk (bread (l_dev l) (l_start l)) (\<lambda>buf.
     bindk (buf_data buf) (\<lambda>bs.
     let n = sint (get32 bs 0) in
     thenk (set_log (\<lambda>l. l\<lparr>l_lh := (l_lh l)\<lparr>lh_n := n\<rparr>\<rparr>))
     (if nat n > LOGSIZE then faultk
      else
        thenk (set_log (\<lambda>l. l\<lparr>l_lh := (l_lh l)\<lparr>lh_block :=
          map (\<lambda>i. get32 bs (4 + 4 * i)) [0..<nat n] @ drop (nat n) (lh_block (l_lh l))\<rparr>\<rparr>))
        (brelse buf)))))"

text \<open>The header block for a list of home addresses, over the old contents of the block.\<close>

fun put_blocks :: "nat \<Rightarrow> u32 list \<Rightarrow> block \<Rightarrow> block" where
  "put_blocks o' [] bs = bs"
| "put_blocks o' (w # ws) bs = put_blocks (o' + 4) ws (put32 o' w bs)"

definition write_head :: "('a lg_scheme, unit) kcode" where
  "write_head =
     bindk (getk log) (\<lambda>l.
     bindk (bread (l_dev l) (l_start l)) (\<lambda>buf.
     thenk (set_data buf (\<lambda>bs. put_blocks 4 (take (nat (lh_n (l_lh l))) (lh_block (l_lh l)))
                                 (put32 0 (word_of_int (lh_n (l_lh l))) bs)))
     (thenk (bwrite buf)
     (brelse buf))))"

definition recover_from_log :: "('a lg_scheme, unit) kcode" where
  "recover_from_log =
     thenk read_head
     (thenk install_trans
     (thenk (set_log (\<lambda>l. l\<lparr>l_lh := (l_lh l)\<lparr>lh_n := 0\<rparr>\<rparr>))
     write_head))"

text \<open>\<open>sizeof(struct logheader)\<close> is 4 + 4 * 30.\<close>

definition initlog :: "u32 \<Rightarrow> ('a lg_scheme, unit) kcode" where
  "initlog dev =
     (if 4 + 4 * LOGSIZE \<ge> BSIZE then panick ''initlog: too big logheader''
      else
        thenk (modk (initlock LogLock))
        (bindk (readsb dev) (\<lambda>sb.
        thenk (set_log (\<lambda>l. l\<lparr>l_start := sb_logstart sb, l_size := sint (sb_nlog sb), l_dev := dev\<rparr>))
        recover_from_log)))"

definition begin_op :: "('a lg_scheme, unit) kcode" where
  "begin_op =
     thenk (dok (acquire LogLock))
     (bindk (getk log) (\<lambda>l.
       if l_committing l then blockk
       else if lh_n (l_lh l) + (l_outstanding l + 1) * MAXOPBLOCKS > int LOGSIZE then blockk
       else
         thenk (set_log (\<lambda>l. l\<lparr>l_outstanding := l_outstanding l + 1\<rparr>))
         (dok (release LogLock))))"

definition write_log :: "('a lg_scheme, unit) kcode" where
  "write_log =
     bindk (getk log) (\<lambda>l.
     foreachk (\<lambda>tail'.
       bindk (bread (l_dev l) (l_start l + word_of_nat tail' + 1)) (\<lambda>to.
       bindk (bread (l_dev l) (lh_block (l_lh l) ! tail')) (\<lambda>from.
       bindk (buf_data from) (\<lambda>bs.
       thenk (set_data to (\<lambda>_. bs))
       (thenk (bwrite to)
       (thenk (brelse from)
       (brelse to))))))) [0..<nat (lh_n (l_lh l))])"

definition commit :: "('a lg_scheme, unit) kcode" where
  "commit =
     bindk (getk log) (\<lambda>l.
       if lh_n (l_lh l) > 0
       then
         thenk write_log
         (thenk write_head
         (thenk install_trans
         (thenk (set_log (\<lambda>l. l\<lparr>l_lh := (l_lh l)\<lparr>lh_n := 0\<rparr>\<rparr>))
         write_head)))
       else retk ())"

definition end_op :: "('a lg_scheme, unit) kcode" where
  "end_op =
     thenk (dok (acquire LogLock))
     (thenk (set_log (\<lambda>l. l\<lparr>l_outstanding := l_outstanding l - 1\<rparr>))
     (bindk (getk log) (\<lambda>l.
       if l_committing l then panick ''log.committing''
       else
         let do_commit = (l_outstanding l = 0) in
         thenk (if do_commit then set_log (\<lambda>l. l\<lparr>l_committing := True\<rparr>) else dok (wakeup LogChan))
         (thenk (dok (release LogLock))
         (if do_commit
          then
            thenk commit
            (thenk (dok (acquire LogLock))
            (thenk (set_log (\<lambda>l. l\<lparr>l_committing := False\<rparr>))
            (thenk (dok (wakeup LogChan))
            (dok (release LogLock)))))
          else retk ())))))"

text \<open>The slot of a block in the log: its own if it is logged already, else the next free one.\<close>

definition log_slot :: "u32 \<Rightarrow> logheader \<Rightarrow> nat" where
  "log_slot bno lh =
     (case find_index (\<lambda>w. w = bno) (take (nat (lh_n lh)) (lh_block lh)) of
        Some i \<Rightarrow> i
      | None \<Rightarrow> nat (lh_n lh))"

definition log_write :: "nat \<Rightarrow> ('a lg_scheme, unit) kcode" where
  "log_write b =
     bindk (getk log) (\<lambda>l.
       if lh_n (l_lh l) \<ge> int LOGSIZE \<or> lh_n (l_lh l) \<ge> l_size l - 1 then panick ''too big a transaction''
       else if l_outstanding l < 1 then panick ''log_write outside of trans''
       else
         thenk (dok (acquire LogLock))
         (bindk (getk (\<lambda>s. b_blockno (buf_at b s))) (\<lambda>bno.
         thenk (set_log (\<lambda>l. let i = log_slot bno (l_lh l) in
                  l\<lparr>l_lh := \<lparr>lh_n = (if int i = lh_n (l_lh l) then lh_n (l_lh l) + 1 else lh_n (l_lh l)),
                             lh_block = (lh_block (l_lh l))[i := bno]\<rparr>\<rparr>))
         (thenk (modk (upd_buf b (\<lambda>k. k\<lparr>b_dirty := True\<rparr>)))
         (dok (release LogLock))))))"

end
