(* ===== verification/Fs_Inode.thy ===== *)
theory Fs_Inode
  imports Log
begin

text \<open>
  The lower half of \<open>fs.c\<close>: the block allocator, and the inode layer with its cache. A pointer
  to an inode is an index into \<open>icache.inode\<close>. On disk an inode is 64 bytes of an inode
  block: four 16 bit fields, the size and thirteen block addresses.
\<close>

section \<open>Inodes on disk\<close>

abbreviation NDIRECT :: nat where "NDIRECT \<equiv> 12"
abbreviation NINDIRECT :: nat where "NINDIRECT \<equiv> 128"
abbreviation MAXFILE :: nat where "MAXFILE \<equiv> NDIRECT + NINDIRECT"
abbreviation IPB :: u32 where "IPB \<equiv> 8"
abbreviation BPB :: nat where "BPB \<equiv> 4096"
abbreviation NINODE :: nat where "NINODE \<equiv> 50"
abbreviation ROOTDEV :: u32 where "ROOTDEV \<equiv> 1"
abbreviation ROOTINO :: u32 where "ROOTINO \<equiv> 1"
abbreviation T_DIR :: u16 where "T_DIR \<equiv> 1"
abbreviation T_FILE :: u16 where "T_FILE \<equiv> 2"
abbreviation T_DEV :: u16 where "T_DEV \<equiv> 3"

definition get16 :: "block \<Rightarrow> nat \<Rightarrow> u16" where
  "get16 bs o' = or (ucast (bs ! o')) (push_bit 8 (ucast (bs ! (o' + 1))))"

definition put16 :: "nat \<Rightarrow> u16 \<Rightarrow> block \<Rightarrow> block" where
  "put16 o' w bs = bs[o' := ucast w, o' + 1 := ucast (drop_bit 8 w)]"

text \<open>\<open>struct dinode\<close> (\<open>fs.h\<close>).\<close>

record dinode =
  d_type :: u16
  d_major :: u16
  d_minor :: u16
  d_nlink :: u16
  d_size :: u32
  d_addrs :: "u32 list"

definition decode_dinode :: "nat \<Rightarrow> block \<Rightarrow> dinode" where
  "decode_dinode o' bs =
     \<lparr>d_type = get16 bs o', d_major = get16 bs (o' + 2), d_minor = get16 bs (o' + 4), d_nlink = get16 bs (o' + 6),
      d_size = get32 bs (o' + 8), d_addrs = map (\<lambda>i. get32 bs (o' + 12 + 4 * i)) [0..<NDIRECT + 1]\<rparr>"

definition encode_dinode :: "nat \<Rightarrow> dinode \<Rightarrow> block \<Rightarrow> block" where
  "encode_dinode o' d bs =
     put_blocks (o' + 12) (d_addrs d)
       (put32 (o' + 8) (d_size d)
       (put16 (o' + 6) (d_nlink d)
       (put16 (o' + 4) (d_minor d)
       (put16 (o' + 2) (d_major d)
       (put16 o' (d_type d) bs)))))"

definition IBLOCK :: "u32 \<Rightarrow> superblock \<Rightarrow> u32" where
  "IBLOCK i sb = i div IPB + sb_inodestart sb"

definition BBLOCK :: "u32 \<Rightarrow> superblock \<Rightarrow> u32" where
  "BBLOCK b sb = b div word_of_nat BPB + sb_bmapstart sb"

text \<open>The byte offset of inode \<open>i\<close> in its block.\<close>

definition ioffset :: "u32 \<Rightarrow> nat" where
  "ioffset i = 64 * unat (i mod IPB)"

section \<open>State\<close>

text \<open>\<open>struct inode\<close> (\<open>file.h\<close>); the lock is \<open>InodeLock\<close> of the index.\<close>

record inode =
  i_dev :: u32
  i_inum :: u32
  i_ref :: int
  i_valid :: bool
  i_type :: u16
  i_major :: u16
  i_minor :: u16
  i_nlink :: u16
  i_size :: u32
  i_addrs :: "u32 list"

text \<open>The functions that \<open>devsw\<close> can hold; the table maps major numbers to them.\<close>

datatype devfns = ConsoleFns

record fs_state =
  fsb :: superblock
  inodes :: "inode list"
  devsw :: "int \<Rightarrow> devfns option"

record ic = lg +
  fs :: fs_state

definition inode_at :: "nat \<Rightarrow> 'a ic_scheme \<Rightarrow> inode" where
  "inode_at ip s = inodes (fs s) ! ip"

definition upd_inode :: "nat \<Rightarrow> (inode \<Rightarrow> inode) \<Rightarrow> ('a ic_scheme, unit) kcode" where
  "upd_inode ip f = modk (\<lambda>s. s\<lparr>fs := (fs s)\<lparr>inodes := (inodes (fs s))[ip := f (inodes (fs s) ! ip)]\<rparr>\<rparr>)"

definition set_sb :: "superblock \<Rightarrow> ('a ic_scheme, unit) kcode" where
  "set_sb sb = modk (\<lambda>s. s\<lparr>fs := (fs s)\<lparr>fsb := sb\<rparr>\<rparr>)"

definition get_sb :: "('a ic_scheme, superblock) kcode" where
  "get_sb = getk (\<lambda>s. fsb (fs s))"

section \<open>Blocks\<close>

definition bzero :: "u32 \<Rightarrow> u32 \<Rightarrow> ('a lg_scheme, unit) kcode" where
  "bzero dev bno =
     bindk (bread dev bno) (\<lambda>bp.
     thenk (set_data bp (\<lambda>_. replicate BSIZE 0))
     (thenk (log_write bp)
     (brelse bp)))"

text \<open>Bit \<open>bi\<close> of a bitmap block, as \<open>bp->data[bi/8] & (1 << (bi % 8))\<close>.\<close>

definition bmap_bit :: "block \<Rightarrow> nat \<Rightarrow> bool" where
  "bmap_bit bs bi = bit (bs ! (bi div 8)) (bi mod 8)"

definition set_bmap_bit :: "nat \<Rightarrow> block \<Rightarrow> block" where
  "set_bmap_bit bi bs = bs[bi div 8 := or (bs ! (bi div 8)) (push_bit (bi mod 8) 1)]"

definition clear_bmap_bit :: "nat \<Rightarrow> block \<Rightarrow> block" where
  "clear_bmap_bit bi bs = bs[bi div 8 := and (bs ! (bi div 8)) (not (push_bit (bi mod 8) 1))]"

text \<open>One round of the outer loop of \<open>balloc\<close>: the bitmap block that covers block \<open>b\<close>.\<close>

definition balloc_group :: "u32 \<Rightarrow> superblock \<Rightarrow> nat \<Rightarrow> ('a lg_scheme, u32 option) kcode" where
  "balloc_group dev sb b =
     bindk (bread dev (BBLOCK (word_of_nat b) sb)) (\<lambda>bp.
     bindk (buf_data bp) (\<lambda>bs.
       case find (\<lambda>bi. \<not> bmap_bit bs bi) [0..<min BPB (unat (sb_size sb) - b)] of
         Some bi \<Rightarrow>
           thenk (set_data bp (set_bmap_bit bi))
           (thenk (log_write bp)
           (thenk (brelse bp)
           (thenk (bzero dev (word_of_nat (b + bi)))
           (retk (Some (word_of_nat (b + bi)))))))
       | None \<Rightarrow> thenk (brelse bp) (retk None)))"

definition balloc :: "u32 \<Rightarrow> ('a ic_scheme, u32) kcode" where
  "balloc dev =
     bindk get_sb (\<lambda>sb.
     bindk (findk (balloc_group dev sb)
              (map (\<lambda>i. BPB * i) [0..<(unat (sb_size sb) + BPB - 1) div BPB])) (\<lambda>r.
       case r of
         Some b \<Rightarrow> retk b
       | None \<Rightarrow> panick ''balloc: out of blocks''))"

definition bfree :: "u32 \<Rightarrow> u32 \<Rightarrow> ('a ic_scheme, unit) kcode" where
  "bfree dev b =
     bindk (readsb dev) (\<lambda>sb.
     thenk (set_sb sb)
     (bindk (bread dev (BBLOCK b sb)) (\<lambda>bp.
      bindk (buf_data bp) (\<lambda>bs.
        let bi = unat b mod BPB in
        if \<not> bmap_bit bs bi then panick ''freeing free block''
        else
          thenk (set_data bp (clear_bmap_bit bi))
          (thenk (log_write bp)
          (brelse bp))))))"

section \<open>Inodes\<close>

definition iinit :: "u32 \<Rightarrow> ('a ic_scheme, unit) kcode" where
  "iinit dev =
     thenk (modk (initlock IcacheLock))
     (thenk (foreachk (\<lambda>i. modk (initsleeplock (InodeLock i))) [0..<NINODE])
     (bindk (readsb dev) set_sb))"

definition iget :: "u32 \<Rightarrow> u32 \<Rightarrow> ('a ic_scheme, nat) kcode" where
  "iget dev inum =
     thenk (dok (acquire IcacheLock))
     (bindk (getk (\<lambda>s. inodes (fs s))) (\<lambda>is.
       case find_index (\<lambda>i. i_ref i > 0 \<and> i_dev i = dev \<and> i_inum i = inum) is of
         Some ip \<Rightarrow>
           thenk (upd_inode ip (\<lambda>i. i\<lparr>i_ref := wrap32 (i_ref i + 1)\<rparr>))
           (thenk (dok (release IcacheLock))
           (retk ip))
       | None \<Rightarrow>
          (case find_index (\<lambda>i. i_ref i = 0) is of
             None \<Rightarrow> panick ''iget: no inodes''
           | Some ip \<Rightarrow>
               thenk (upd_inode ip (\<lambda>i. i\<lparr>i_dev := dev, i_inum := inum, i_ref := 1, i_valid := False\<rparr>))
               (thenk (dok (release IcacheLock))
               (retk ip)))))"

definition ialloc_try :: "u32 \<Rightarrow> u16 \<Rightarrow> superblock \<Rightarrow> nat \<Rightarrow> ('a ic_scheme, nat option) kcode" where
  "ialloc_try dev ty sb n =
     (let inum = word_of_nat n in
      bindk (bread dev (IBLOCK inum sb)) (\<lambda>bp.
      bindk (buf_data bp) (\<lambda>bs.
        if d_type (decode_dinode (ioffset inum) bs) = 0
        then
          thenk (set_data bp (encode_dinode (ioffset inum)
                   \<lparr>d_type = ty, d_major = 0, d_minor = 0, d_nlink = 0, d_size = 0,
                    d_addrs = replicate (NDIRECT + 1) 0\<rparr>))
          (thenk (log_write bp)
          (thenk (brelse bp)
          (bindk (iget dev inum) (\<lambda>ip. retk (Some ip)))))
        else thenk (brelse bp) (retk None))))"

definition ialloc :: "u32 \<Rightarrow> u16 \<Rightarrow> ('a ic_scheme, nat) kcode" where
  "ialloc dev ty =
     bindk get_sb (\<lambda>sb.
     bindk (findk (ialloc_try dev ty sb) [1..<unat (sb_ninodes sb)]) (\<lambda>r.
       case r of
         Some ip \<Rightarrow> retk ip
       | None \<Rightarrow> panick ''ialloc: no inodes''))"

definition iupdate :: "nat \<Rightarrow> ('a ic_scheme, unit) kcode" where
  "iupdate ip =
     bindk (getk (inode_at ip)) (\<lambda>i.
     bindk get_sb (\<lambda>sb.
     bindk (bread (i_dev i) (IBLOCK (i_inum i) sb)) (\<lambda>bp.
     thenk (set_data bp (encode_dinode (ioffset (i_inum i))
              \<lparr>d_type = i_type i, d_major = i_major i, d_minor = i_minor i, d_nlink = i_nlink i,
               d_size = i_size i, d_addrs = i_addrs i\<rparr>))
     (thenk (log_write bp)
     (brelse bp)))))"

definition idup :: "nat \<Rightarrow> ('a ic_scheme, nat) kcode" where
  "idup ip =
     thenk (dok (acquire IcacheLock))
     (thenk (upd_inode ip (\<lambda>i. i\<lparr>i_ref := wrap32 (i_ref i + 1)\<rparr>))
     (thenk (dok (release IcacheLock))
     (retk ip)))"

definition ilock :: "nat option \<Rightarrow> ('a ic_scheme, unit) kcode" where
  "ilock ipo =
     (case ipo of
        None \<Rightarrow> panick ''ilock''
      | Some ip \<Rightarrow>
          bindk (getk (inode_at ip)) (\<lambda>i0.
            if i_ref i0 < 1 then panick ''ilock''
            else
              thenk (acquiresleep (InodeLock ip))
              (bindk (getk (inode_at ip)) (\<lambda>i.
                if i_valid i then retk ()
                else
                  bindk get_sb (\<lambda>sb.
                  bindk (bread (i_dev i) (IBLOCK (i_inum i) sb)) (\<lambda>bp.
                  bindk (buf_data bp) (\<lambda>bs.
                    let d = decode_dinode (ioffset (i_inum i)) bs in
                    thenk (upd_inode ip (\<lambda>i. i\<lparr>i_type := d_type d, i_major := d_major d, i_minor := d_minor d,
                             i_nlink := d_nlink d, i_size := d_size d, i_addrs := d_addrs d\<rparr>))
                    (thenk (brelse bp)
                    (thenk (upd_inode ip (\<lambda>i. i\<lparr>i_valid := True\<rparr>))
                    (if d_type d = 0 then panick ''ilock: no type'' else retk ()))))))))))"

definition iunlock :: "nat option \<Rightarrow> ('a ic_scheme, unit) kcode" where
  "iunlock ipo =
     (case ipo of
        None \<Rightarrow> panick ''iunlock''
      | Some ip \<Rightarrow>
          bindk (holdingsleep (InodeLock ip)) (\<lambda>h.
          bindk (getk (inode_at ip)) (\<lambda>i.
            if \<not> h \<or> i_ref i < 1 then panick ''iunlock''
            else releasesleep (InodeLock ip))))"

section \<open>Block lists\<close>

definition bmap :: "nat \<Rightarrow> nat \<Rightarrow> ('a ic_scheme, u32) kcode" where
  "bmap ip bn =
     bindk (getk (inode_at ip)) (\<lambda>i.
       if bn < NDIRECT
       then
         (if i_addrs i ! bn = 0
          then bindk (balloc (i_dev i)) (\<lambda>addr.
               thenk (upd_inode ip (\<lambda>i. i\<lparr>i_addrs := (i_addrs i)[bn := addr]\<rparr>))
               (retk addr))
          else retk (i_addrs i ! bn))
       else if bn - NDIRECT < NINDIRECT
       then
         bindk (if i_addrs i ! NDIRECT = 0
                then bindk (balloc (i_dev i)) (\<lambda>addr.
                     thenk (upd_inode ip (\<lambda>i. i\<lparr>i_addrs := (i_addrs i)[NDIRECT := addr]\<rparr>))
                     (retk addr))
                else retk (i_addrs i ! NDIRECT)) (\<lambda>ind.
         bindk (bread (i_dev i) ind) (\<lambda>bp.
         bindk (buf_data bp) (\<lambda>bs.
           let a = get32 bs (4 * (bn - NDIRECT)) in
           bindk (if a = 0
                  then bindk (balloc (i_dev i)) (\<lambda>addr.
                       thenk (set_data bp (put32 (4 * (bn - NDIRECT)) addr))
                       (thenk (log_write bp)
                       (retk addr)))
                  else retk a) (\<lambda>addr.
           thenk (brelse bp)
           (retk addr)))))
       else panick ''bmap: out of range'')"

definition itrunc :: "nat \<Rightarrow> ('a ic_scheme, unit) kcode" where
  "itrunc ip =
     thenk (foreachk (\<lambda>n.
       bindk (getk (inode_at ip)) (\<lambda>i.
         if i_addrs i ! n \<noteq> 0
         then thenk (bfree (i_dev i) (i_addrs i ! n))
              (upd_inode ip (\<lambda>i. i\<lparr>i_addrs := (i_addrs i)[n := 0]\<rparr>))
         else retk ())) [0..<NDIRECT])
     (thenk (bindk (getk (inode_at ip)) (\<lambda>i.
       if i_addrs i ! NDIRECT \<noteq> 0
       then
         bindk (bread (i_dev i) (i_addrs i ! NDIRECT)) (\<lambda>bp.
         bindk (buf_data bp) (\<lambda>bs.
         thenk (foreachk (\<lambda>j. if get32 bs (4 * j) \<noteq> 0 then bfree (i_dev i) (get32 bs (4 * j)) else retk ())
                  [0..<NINDIRECT])
         (thenk (brelse bp)
         (thenk (bfree (i_dev i) (i_addrs i ! NDIRECT))
         (upd_inode ip (\<lambda>i. i\<lparr>i_addrs := (i_addrs i)[NDIRECT := 0]\<rparr>))))))
       else retk ()))
     (thenk (upd_inode ip (\<lambda>i. i\<lparr>i_size := 0\<rparr>))
     (iupdate ip)))"

definition iput :: "nat \<Rightarrow> ('a ic_scheme, unit) kcode" where
  "iput ip =
     thenk (acquiresleep (InodeLock ip))
     (bindk (getk (inode_at ip)) (\<lambda>i.
      thenk (if i_valid i \<and> i_nlink i = 0
             then
               thenk (dok (acquire IcacheLock))
               (bindk (getk (\<lambda>s. i_ref (inode_at ip s))) (\<lambda>r.
               thenk (dok (release IcacheLock))
               (if r = 1
                then
                  thenk (itrunc ip)
                  (thenk (upd_inode ip (\<lambda>i. i\<lparr>i_type := 0\<rparr>))
                  (thenk (iupdate ip)
                  (upd_inode ip (\<lambda>i. i\<lparr>i_valid := False\<rparr>))))
                else retk ())))
             else retk ())
      (thenk (releasesleep (InodeLock ip))
      (thenk (dok (acquire IcacheLock))
      (thenk (upd_inode ip (\<lambda>i. i\<lparr>i_ref := wrap32 (i_ref i - 1)\<rparr>))
      (dok (release IcacheLock)))))))"

definition iunlockput :: "nat \<Rightarrow> ('a ic_scheme, unit) kcode" where
  "iunlockput ip = thenk (iunlock (Some ip)) (iput ip)"

text \<open>\<open>struct stat\<close> (\<open>stat.h\<close>).\<close>

record stat =
  st_type :: u16
  st_dev :: u32
  st_ino :: u32
  st_nlink :: u16
  st_size :: u32

definition stati :: "nat \<Rightarrow> ('a ic_scheme, stat) kcode" where
  "stati ip = getk (\<lambda>s. let i = inode_at ip s in
     \<lparr>st_type = i_type i, st_dev = i_dev i, st_ino = i_inum i, st_nlink = i_nlink i, st_size = i_size i\<rparr>)"

end
