(* ===== verification/Kbd.thy ===== *)
theory Kbd
  imports Xv6_Prelude
begin

text \<open>
  The keyboard driver: the tables of \<open>kbd.h\<close> and the decoder \<open>kbdgetc\<close> of \<open>kbd.c\<close>. A table is
  given by the values its initialiser lists in order and by those it places at an index;
  all other entries are 0. The decoder is a function of the modifier state, the static
  variable \<open>shift\<close>, and the scan code that the controller delivers. It is verified against a
  description of the keyboard: for every sequence of keys, the characters are those of the layout.
\<close>

unbundle bit_operations_syntax

section \<open>Tables\<close>

abbreviation SHIFT :: u32 where "SHIFT \<equiv> 1"
abbreviation CTL :: u32 where "CTL \<equiv> 2"
abbreviation ALT :: u32 where "ALT \<equiv> 4"
abbreviation CAPSLOCK :: u32 where "CAPSLOCK \<equiv> 8"
abbreviation NUMLOCK :: u32 where "NUMLOCK \<equiv> 16"
abbreviation SCROLLLOCK :: u32 where "SCROLLLOCK \<equiv> 32"
abbreviation E0ESC :: u32 where "E0ESC \<equiv> 64"

definition table_at :: "u32 list \<Rightarrow> (nat \<times> u32) list \<Rightarrow> nat \<Rightarrow> u32" where
  "table_at xs ps i =
     (case map_of ps i of
        Some c \<Rightarrow> c
      | None \<Rightarrow> if i < length xs then xs ! i else 0)"

definition shiftcode :: "nat \<Rightarrow> u32" where
  "shiftcode = table_at [] [(0x1D, CTL), (0x2A, SHIFT), (0x36, SHIFT), (0x38, ALT), (0x9D, CTL), (0xB8, ALT)]"

definition togglecode :: "nat \<Rightarrow> u32" where
  "togglecode = table_at [] [(0x3A, CAPSLOCK), (0x45, NUMLOCK), (0x46, SCROLLLOCK)]"

definition normalmap :: "nat \<Rightarrow> u32" where
  "normalmap = table_at
    [0, 27, 49, 50, 51, 52, 53, 54, 55, 56, 57, 48, 45, 61, 8, 9,
     113, 119, 101, 114, 116, 121, 117, 105, 111, 112, 91, 93, 10, 0, 97, 115,
     100, 102, 103, 104, 106, 107, 108, 59, 39, 96, 0, 92, 122, 120, 99, 118,
     98, 110, 109, 44, 46, 47, 0, 42, 0, 32, 0, 0, 0, 0, 0, 0,
     0, 0, 0, 0, 0, 0, 0, 55, 56, 57, 45, 52, 53, 54, 43, 49,
     50, 51, 48, 46, 0, 0, 0, 0]
    [(0x9C, 0xA), (0xB5, 0x2F), (0xC8, 0xE2), (0xD0, 0xE3), (0xC9, 0xE6), (0xD1, 0xE7), (0xCB, 0xE4), (0xCD, 0xE5), (0x97, 0xE0), (0xCF, 0xE1), (0xD2, 0xE8), (0xD3, 0xE9)]"

definition shiftmap :: "nat \<Rightarrow> u32" where
  "shiftmap = table_at
    [0, 27, 33, 64, 35, 36, 37, 94, 38, 42, 40, 41, 95, 43, 8, 9,
     81, 87, 69, 82, 84, 89, 85, 73, 79, 80, 123, 125, 10, 0, 65, 83,
     68, 70, 71, 72, 74, 75, 76, 58, 34, 126, 0, 124, 90, 88, 67, 86,
     66, 78, 77, 60, 62, 63, 0, 42, 0, 32, 0, 0, 0, 0, 0, 0,
     0, 0, 0, 0, 0, 0, 0, 55, 56, 57, 45, 52, 53, 54, 43, 49,
     50, 51, 48, 46, 0, 0, 0, 0]
    [(0x9C, 0xA), (0xB5, 0x2F), (0xC8, 0xE2), (0xD0, 0xE3), (0xC9, 0xE6), (0xD1, 0xE7), (0xCB, 0xE4), (0xCD, 0xE5), (0x97, 0xE0), (0xCF, 0xE1), (0xD2, 0xE8), (0xD3, 0xE9)]"

definition ctlmap :: "nat \<Rightarrow> u32" where
  "ctlmap = table_at
    [0, 0, 0, 0, 0, 0, 0, 0, 0, 0, 0, 0, 0, 0, 0, 0,
     17, 23, 5, 18, 20, 25, 21, 9, 15, 16, 0, 0, 13, 0, 1, 19,
     4, 6, 7, 8, 10, 11, 12, 0, 0, 0, 0, 28, 26, 24, 3, 22,
     2, 14, 13, 0, 0, 239, 0, 0]
    [(0x9C, 0xD), (0xB5, 0xEF), (0xC8, 0xE2), (0xD0, 0xE3), (0xC9, 0xE6), (0xD1, 0xE7), (0xCB, 0xE4), (0xCD, 0xE5), (0x97, 0xE0), (0xCF, 0xE1), (0xD2, 0xE8), (0xD3, 0xE9)]"

section \<open>Decoding\<close>

definition charcode :: "u32 \<Rightarrow> nat \<Rightarrow> u32" where
  "charcode m = (if m = 0 then normalmap else if m = 1 then shiftmap else ctlmap)"

definition kbd_caps :: "u32 \<Rightarrow> u32 \<Rightarrow> u32" where
  "kbd_caps shift c =
     (if and shift CAPSLOCK = 0 then c
      else if 97 \<le> c \<and> c \<le> 122 then c + 65 - 97
      else if 65 \<le> c \<and> c \<le> 90 then c + 97 - 65
      else c)"

text \<open>
  One call, with the scan code that waits in the controller if there is one: the character, 0 for
  none and -1 if nothing waits, and the new modifier state. An index is a byte, and each table has
  256 entries.
\<close>

definition kbdgetc :: "u32 \<Rightarrow> u8 option \<Rightarrow> int \<times> u32" where
  "kbdgetc shift st =
     (case st of
        None \<Rightarrow> (-1, shift)
      | Some sc \<Rightarrow>
        let data = unat sc in
        if data = 0xE0 then (0, or shift E0ESC)
        else if data \<ge> 0x80
        then
          let d = (if and shift E0ESC \<noteq> 0 then data else data - 0x80)
          in (0, and shift (not (or (shiftcode d) E0ESC)))
        else
          let d = (if and shift E0ESC \<noteq> 0 then data + 0x80 else data);
              s1 = and shift (not E0ESC);
              s2 = or s1 (shiftcode d);
              s3 = xor s2 (togglecode d)
          in (uint (kbd_caps s3 (charcode (and s3 (or CTL SHIFT)) d)), s3))"

text \<open>The calls of \<open>kbdgetc\<close> that drain the controller, up to the one that returns -1.\<close>

fun kbd_drain :: "u32 \<Rightarrow> u8 list \<Rightarrow> int list \<times> u32" where
  "kbd_drain shift [] = ([], snd (kbdgetc shift None))"
| "kbd_drain shift (sc # scs) =
     (let (c, s1) = kbdgetc shift (Some sc); (cs, s2) = kbd_drain s1 scs in (c # cs, s2))"

section \<open>The keyboard\<close>

text \<open>
  The other side of the wire, written from the layout of the keys and not from the tables: a key
  is a scan code with or without the prefix \<open>E0\<close>, sent as it is when the key goes down and with
  the top bit set when it goes up.
\<close>

datatype key_event = Press bool u8 | Release bool u8

fun scancodes :: "key_event \<Rightarrow> u8 list" where
  "scancodes (Press ext c) = (if ext then [0xE0, c] else [c])"
| "scancodes (Release ext c) = (if ext then [0xE0, c + 0x80] else [c + 0x80])"

fun key_code :: "key_event \<Rightarrow> u8" where
  "key_code (Press ext c) = c"
| "key_code (Release ext c) = c"

text \<open>The code 60 does not occur: released, it would be the prefix itself.\<close>

definition real_key :: "key_event \<Rightarrow> bool" where
  "real_key e \<longleftrightarrow> key_code e < 0x80 \<and> key_code e \<noteq> 0x60"

text \<open>The rows of the main block and of the keypad: first scan code, characters, with shift.\<close>

definition key_rows :: "(nat \<times> string \<times> string) list" where
  "key_rows =
    [(0x01, [CHR 0x1B], [CHR 0x1B]),
     (0x02, ''1234567890-='', ''!@#$%^&*()_+''),
     (0x0E, [CHR 0x08, CHR 0x09], [CHR 0x08, CHR 0x09]),
     (0x10, ''qwertyuiop[]'', ''QWERTYUIOP{}''),
     (0x1C, [CHR 0x0A], [CHR 0x0A]),
     (0x1E, ''asdfghjkl;'' @ [CHR 0x27, CHR 0x60], ''ASDFGHJKL:'' @ [CHR 0x22, CHR 0x7E]),
     (0x2B, [CHR 0x5C] @ ''zxcvbnm,./'', ''|ZXCVBNM<>?''),
     (0x37, ''*'', ''*''), (0x39, '' '', '' ''),
     (0x47, ''789-456+1230.'', ''789-456+1230.'')]"

fun key_at :: "(nat \<times> string \<times> string) list \<Rightarrow> nat \<Rightarrow> (char \<times> char) option" where
  "key_at [] i = None"
| "key_at ((a, n, sh) # rs) i =
     (if a \<le> i \<and> i < a + length n then Some (n ! (i - a), sh ! (i - a)) else key_at rs i)"

definition is_letter :: "char \<Rightarrow> bool" where
  "is_letter c \<longleftrightarrow> (of_char c :: nat) \<in> {97..122}"

text \<open>Control with a letter, a backslash, a slash or the enter key.\<close>

definition control_of :: "char \<Rightarrow> int" where
  "control_of c =
     (if is_letter c then of_char c - 96
      else if c = CHR 0x5C then 28 else if c = CHR ''/'' then 239 else if c = CHR 0x0A then 13 else 0)"

text \<open>
  Keys with prefix: keypad enter and slash, the arrows and the block above them, without and with
  control. The tables have the code of the home key at 17 with prefix; a keyboard sends 47.
\<close>

definition ext_keys :: "(nat \<times> int \<times> int) list" where
  "ext_keys =
    [(0x1C, 10, 13), (0x35, 47, 239), (0x48, 0xE2, 0xE2), (0x50, 0xE3, 0xE3), (0x4B, 0xE4, 0xE4), (0x4D, 0xE5, 0xE5),
     (0x49, 0xE6, 0xE6), (0x51, 0xE7, 0xE7), (0x17, 0xE0, 0xE0), (0x4F, 0xE1, 0xE1), (0x52, 0xE8, 0xE8), (0x53, 0xE9, 0xE9)]"

record modifiers =
  m_shift :: bool
  m_ctl :: bool
  m_alt :: bool
  m_caps :: bool
  m_num :: bool
  m_scroll :: bool

fun key_mods :: "key_event \<Rightarrow> modifiers \<Rightarrow> modifiers" where
  "key_mods (Press ext c) m =
     (if c = 0x1D then m\<lparr>m_ctl := True\<rparr> else if c = 0x38 then m\<lparr>m_alt := True\<rparr>
      else if ext then m
      else if c = 0x2A \<or> c = 0x36 then m\<lparr>m_shift := True\<rparr>
      else if c = 0x3A then m\<lparr>m_caps := \<not> m_caps m\<rparr> else if c = 0x45 then m\<lparr>m_num := \<not> m_num m\<rparr>
      else if c = 0x46 then m\<lparr>m_scroll := \<not> m_scroll m\<rparr> else m)"
| "key_mods (Release ext c) m =
     (if c = 0x1D then m\<lparr>m_ctl := False\<rparr> else if c = 0x38 then m\<lparr>m_alt := False\<rparr>
      else if \<not> ext \<and> (c = 0x2A \<or> c = 0x36) then m\<lparr>m_shift := False\<rparr> else m)"

text \<open>The character of a key, 0 for none, under the modifiers in force.\<close>

fun key_char :: "modifiers \<Rightarrow> bool \<Rightarrow> u8 \<Rightarrow> int" where
  "key_char m False c =
     (case key_at key_rows (unat c) of
        None \<Rightarrow> 0
      | Some (n, sh) \<Rightarrow>
          if m_ctl m then control_of n
          else of_char (if m_shift m \<noteq> (m_caps m \<and> is_letter n) then sh else n))"
| "key_char m True c =
     (case map_of ext_keys (unat c) of None \<Rightarrow> 0 | Some (v, w) \<Rightarrow> if m_ctl m then w else v)"

fun typed :: "modifiers \<Rightarrow> key_event list \<Rightarrow> int list" where
  "typed m [] = []"
| "typed m (e # es) =
     (case e of Press ext c \<Rightarrow> [key_char (key_mods e m) ext c] | Release ext c \<Rightarrow> []) @ typed (key_mods e m) es"

definition flags_of :: "modifiers \<Rightarrow> u32" where
  "flags_of m =
     (if m_shift m then SHIFT else 0) + (if m_ctl m then CTL else 0) + (if m_alt m then ALT else 0) +
     (if m_caps m then CAPSLOCK else 0) + (if m_num m then NUMLOCK else 0) + (if m_scroll m then SCROLLLOCK else 0)"

section \<open>The tables against the layout\<close>

definition plain_ok :: "nat \<Rightarrow> bool" where
  "plain_ok i \<longleftrightarrow>
     (case key_at key_rows i of
        None \<Rightarrow> normalmap i = 0 \<and> shiftmap i = 0 \<and> ctlmap i = 0
      | Some (n, sh) \<Rightarrow> normalmap i = of_char n \<and> shiftmap i = of_char sh \<and> uint (ctlmap i) = control_of n \<and>
          kbd_caps CAPSLOCK (of_char n) = (if is_letter n then of_char sh else of_char n) \<and>
          kbd_caps CAPSLOCK (of_char sh) = (if is_letter n then of_char n else of_char sh)) \<and>
     kbd_caps CAPSLOCK (ctlmap i) = ctlmap i"

lemma small_le: "\<not> (65 :: u32) \<le> 1" "\<not> (97 :: u32) \<le> 1"
  by (simp_all add: word_le_nat_alt)

lemmas key_defs = plain_ok_def key_rows_def normalmap_def shiftmap_def ctlmap_def table_at_def kbd_caps_def is_letter_def
  control_of_def small_le

lemma plain_table1: "list_all plain_ok [0..<30]"
  by (simp add: key_defs upt_conv_Cons)

lemma plain_table2: "list_all plain_ok [30..<60]"
  by (simp add: key_defs upt_conv_Cons)

lemma plain_table3: "list_all plain_ok [60..<88]"
  by (simp add: key_defs upt_conv_Cons)

lemma plain_table: "i < 128 \<Longrightarrow> plain_ok i"
proof (cases "i < 88")
  case True
  have t: "i \<in> set [0..<30] \<Longrightarrow> plain_ok i" "i \<in> set [30..<60] \<Longrightarrow> plain_ok i" "i \<in> set [60..<88] \<Longrightarrow> plain_ok i"
    using plain_table1 plain_table2 plain_table3 unfolding list_all_iff by blast+
  have "i \<in> set [0..<30] \<or> i \<in> set [30..<60] \<or> i \<in> set [60..<88]"
    unfolding set_upt atLeastLessThan_iff using True by linarith
  then show ?thesis using t by blast
next
  case False
  moreover assume "i < 128"
  ultimately show ?thesis by (simp add: key_defs)
qed

definition ext_code :: "bool \<Rightarrow> nat \<Rightarrow> int" where
  "ext_code ctl i = (case map_of ext_keys i of None \<Rightarrow> 0 | Some (v, w) \<Rightarrow> if ctl then w else v)"

lemma ext_normalmap: "i < 128 \<Longrightarrow> normalmap (i + 128) = word_of_int (ext_code False i)"
  by (simp add: ext_code_def ext_keys_def normalmap_def table_at_def)

lemma ext_shiftmap: "i < 128 \<Longrightarrow> shiftmap (i + 128) = word_of_int (ext_code False i)"
  by (simp add: ext_code_def ext_keys_def shiftmap_def table_at_def)

lemma ext_ctlmap: "i < 128 \<Longrightarrow> ctlmap (i + 128) = word_of_int (ext_code True i)"
  by (simp add: ext_code_def ext_keys_def ctlmap_def table_at_def)

lemma ext_code_range: "ext_code ctl i \<in> {0, 10, 13, 47} \<union> {224..239}"
proof -
  have k: "list_all (\<lambda>(k, v, w). v \<in> {0, 10, 13, 47} \<union> {224..239} \<and> w \<in> {0, 10, 13, 47} \<union> {224..239}) ext_keys"
    by (simp add: ext_keys_def)
  show ?thesis
  proof (cases "map_of ext_keys i")
    case (Some x)
    then show ?thesis using k map_of_SomeD [OF Some] by (cases x) (force simp: ext_code_def list_all_iff)
  qed (simp add: ext_code_def)
qed

lemma kbd_caps_ext: "kbd_caps s (word_of_int (ext_code ctl i)) = word_of_int (ext_code ctl i)"
proof -
  have "uint (word_of_int (ext_code ctl i) :: u32) = ext_code ctl i"
    using ext_code_range [of ctl i] by (simp add: uint_word_of_int_eq take_bit_int_eq_self_iff) force
  then show ?thesis using ext_code_range [of ctl i] by (auto simp: kbd_caps_def word_le_def)
qed

lemma shiftcode_plain: "i < 128 \<Longrightarrow> shiftcode i =
    (if i = 0x1D then CTL else if i = 0x38 then ALT else if i = 0x2A \<or> i = 0x36 then SHIFT else 0)"
  by (simp add: shiftcode_def table_at_def)

lemma shiftcode_ext: "i < 128 \<Longrightarrow> shiftcode (i + 128) = (if i = 0x1D then CTL else if i = 0x38 then ALT else 0)"
  by (simp add: shiftcode_def table_at_def)

lemma togglecode_plain: "i < 128 \<Longrightarrow> togglecode i =
    (if i = 0x3A then CAPSLOCK else if i = 0x45 then NUMLOCK else if i = 0x46 then SCROLLLOCK else 0)"
  by (simp add: togglecode_def table_at_def)

lemma togglecode_ext: "togglecode (i + 128) = 0"
  by (simp add: togglecode_def table_at_def)

section \<open>The modifier state\<close>

lemma flags_read:
  "and (flags_of m) E0ESC = 0" "and (or (flags_of m) E0ESC) E0ESC \<noteq> 0"
  "and (or (flags_of m) E0ESC) (- 65) = flags_of m" "and (flags_of m) (- 65) = flags_of m"
  by (cases m; simp add: flags_of_def)+

lemma flags_read2:
  "and (flags_of m) CAPSLOCK = (if m_caps m then CAPSLOCK else 0)"
  "and (flags_of m) (or CTL SHIFT) = (if m_shift m then SHIFT else 0) + (if m_ctl m then CTL else 0)"
  by (cases m; simp add: flags_of_def)+

lemma flags_set:
  "or (flags_of m) SHIFT = flags_of (m\<lparr>m_shift := True\<rparr>)" "or (flags_of m) CTL = flags_of (m\<lparr>m_ctl := True\<rparr>)"
  "or (flags_of m) ALT = flags_of (m\<lparr>m_alt := True\<rparr>)"
  by (cases m; simp add: flags_of_def)+

lemma flags_toggle:
  "xor (flags_of m) CAPSLOCK = flags_of (m\<lparr>m_caps := \<not> m_caps m\<rparr>)"
  "xor (flags_of m) NUMLOCK = flags_of (m\<lparr>m_num := \<not> m_num m\<rparr>)"
  "xor (flags_of m) SCROLLLOCK = flags_of (m\<lparr>m_scroll := \<not> m_scroll m\<rparr>)"
  by (cases m; simp add: flags_of_def)+

lemma flags_clear:
  assumes "f = flags_of m \<or> f = or (flags_of m) E0ESC"
  shows "and f (- 66) = flags_of (m\<lparr>m_shift := False\<rparr>)"
    "and f (- 67) = flags_of (m\<lparr>m_ctl := False\<rparr>)"
    "and f (- 69) = flags_of (m\<lparr>m_alt := False\<rparr>)" "and f (- 65) = flags_of m"
  using assms by (cases m; auto simp add: flags_of_def)+

section \<open>One key\<close>

lemma caps_flags: "kbd_caps (flags_of m) x = (if m_caps m then kbd_caps CAPSLOCK x else x)"
  by (simp add: kbd_caps_def [of "flags_of m"] flags_read2(1)) (simp add: kbd_caps_def)

lemma charcode_flags: "charcode (and (flags_of m) 3) =
    (if m_ctl m then ctlmap else if m_shift m then shiftmap else normalmap)"
  using flags_read2(2) [of m] by (simp add: charcode_def)

lemma uint_of_char: "uint (of_char c :: u32) = of_char c"
proof -
  have "(of_char c :: nat) < 4294967296" using nat_of_char_less_256 [of c] by linarith
  then have "uint (of_nat (of_char c :: nat) :: u32) = of_nat (of_char c)"
    by (simp add: unsigned_of_nat take_bit_nat_eq_self_iff del: of_nat_of_char)
  then show ?thesis by (simp only: of_nat_of_char)
qed

lemma of_char_u32_eq: "(of_char a :: u32) = of_char b \<longleftrightarrow> a = b"
  using uint_of_char [of a] uint_of_char [of b] by (metis of_char_eq_iff)

lemma plain_char:
  assumes "c < 0x80"
  shows "uint (kbd_caps (flags_of m) (charcode (and (flags_of m) 3) (unat c))) = key_char m False c"
proof -
  have "unat c < 128" using assms by (simp add: word_less_nat_alt)
  note p = plain_table [OF this, unfolded plain_ok_def]
  show ?thesis
    using p by (auto simp: caps_flags charcode_flags uint_of_char of_char_u32_eq split: option.splits if_splits)
qed

lemma ext_char:
  assumes "c < 0x80"
  shows "uint (kbd_caps s (charcode (and (flags_of m) 3) (unat c + 128))) = key_char m True c"
proof -
  have i: "unat c < 128" using assms by (simp add: word_less_nat_alt)
  have u: "uint (word_of_int (ext_code b (unat c)) :: u32) = ext_code b (unat c)" for b
    using ext_code_range [of b "unat c"] by (simp add: uint_word_of_int_eq take_bit_int_eq_self_iff) force
  show ?thesis
    using u by (simp add: charcode_flags ext_normalmap [OF i] ext_shiftmap [OF i] ext_ctlmap [OF i] kbd_caps_ext)
      (simp add: ext_code_def split: option.split)
qed

lemma unat_key: "(c :: u8) = numeral n \<longleftrightarrow> unat c = unat (numeral n :: u8)"
  by (simp add: word_unat_eq_iff)

lemma press_plain:
  assumes "c < 0x80"
  shows "kbdgetc (flags_of m) (Some c) =
    (key_char (key_mods (Press False c) m) False c, flags_of (key_mods (Press False c) m))"
proof -
  have i: "unat c < 128" using assms by (simp add: word_less_nat_alt)
  have "xor (or (flags_of m) (shiftcode (unat c))) (togglecode (unat c)) = flags_of (key_mods (Press False c) m)"
    by (simp add: shiftcode_plain [OF i] togglecode_plain [OF i] unat_key flags_set flags_toggle)
  then show ?thesis
    using i plain_char [OF assms] by (simp add: kbdgetc_def flags_read Let_def del: key_mods.simps key_char.simps)
qed

lemma press_ext:
  assumes "c < 0x80"
  shows "kbdgetc (or (flags_of m) E0ESC) (Some c) =
    (key_char (key_mods (Press True c) m) True c, flags_of (key_mods (Press True c) m))"
proof -
  have i: "unat c < 128" using assms by (simp add: word_less_nat_alt)
  have "xor (or (flags_of m) (shiftcode (unat c + 128))) (togglecode (unat c + 128)) = flags_of (key_mods (Press True c) m)"
    by (simp add: shiftcode_ext [OF i] togglecode_ext unat_key flags_set)
  then show ?thesis
    using i ext_char [OF assms] flags_read(2,3) [of m] by (simp add: kbdgetc_def Let_def del: key_mods.simps key_char.simps)
qed

lemma release_key:
  assumes "c < 0x80" "c \<noteq> 0x60"
  shows "kbdgetc (flags_of m) (Some (c + 0x80)) = (0, flags_of (key_mods (Release False c) m))"
    and "kbdgetc (or (flags_of m) E0ESC) (Some (c + 0x80)) = (0, flags_of (key_mods (Release True c) m))"
proof -
  have i: "unat c < 128" using assms by (simp add: word_less_nat_alt)
  have d: "unat (c + 0x80) = unat c + 128" using i by (simp add: unat_plus_if')
  have n: "unat c \<noteq> 96" using assms(2) by (simp add: unat_key)
  show "kbdgetc (flags_of m) (Some (c + 0x80)) = (0, flags_of (key_mods (Release False c) m))"
    using d n flags_clear [of "flags_of m" m]
    by (simp add: kbdgetc_def Let_def flags_read shiftcode_plain [OF i] unat_key)
  show "kbdgetc (or (flags_of m) E0ESC) (Some (c + 0x80)) = (0, flags_of (key_mods (Release True c) m))"
    using d n flags_clear [of "or (flags_of m) E0ESC" m] flags_read(2) [of m]
    by (simp add: kbdgetc_def Let_def shiftcode_ext [OF i] unat_key)
qed

lemma prefix_code: "kbdgetc s (Some 0xE0) = (0, or s E0ESC)"
  by (simp add: kbdgetc_def)

lemma kbd_drain_append:
  "kbd_drain s (xs @ ys) = (fst (kbd_drain s xs) @ fst (kbd_drain (snd (kbd_drain s xs)) ys), snd (kbd_drain (snd (kbd_drain s xs)) ys))"
  by (induction xs arbitrary: s) (simp_all add: kbdgetc_def [of _ None] Let_def case_prod_beta)

lemma drain_key:
  assumes "real_key e"
  shows "snd (kbd_drain (flags_of m) (scancodes e)) = flags_of (key_mods e m)"
    and "filter (\<lambda>c. c \<noteq> 0) (fst (kbd_drain (flags_of m) (scancodes e))) = filter (\<lambda>c. c \<noteq> 0) (typed m [e])"
proof -
  have "snd (kbd_drain (flags_of m) (scancodes e)) = flags_of (key_mods e m) \<and>
    filter (\<lambda>c. c \<noteq> 0) (fst (kbd_drain (flags_of m) (scancodes e))) = filter (\<lambda>c. c \<noteq> 0) (typed m [e])"
  proof (cases e)
    case (Press ext c)
    then have "c < 0x80" using assms by (simp add: real_key_def)
    note p = press_plain [OF this, of m] press_ext [OF this, of m]
    show ?thesis
      using p by (cases ext) (simp_all add: Press prefix_code kbdgetc_def [of _ None] del: key_mods.simps key_char.simps)
  next
    case (Release ext c)
    then have "c < 0x80" "c \<noteq> 0x60" using assms by (simp_all add: real_key_def)
    note p = release_key [OF this, of m]
    show ?thesis
      using p by (cases ext) (simp_all add: Release prefix_code kbdgetc_def [of _ None] del: key_mods.simps)
  qed
  then show "snd (kbd_drain (flags_of m) (scancodes e)) = flags_of (key_mods e m)"
    "filter (\<lambda>c. c \<noteq> 0) (fst (kbd_drain (flags_of m) (scancodes e))) = filter (\<lambda>c. c \<noteq> 0) (typed m [e])" by blast+
qed

section \<open>Properties\<close>

text \<open>
  C40: The decoder types what the keyboard says. For any sequence of keys that go down and up, from
  any state of the modifiers, the characters that \<open>kbdgetc\<close> delivers for the scan codes of the
  sequence are those of the layout: plain, shifted, with caps lock exchanging the case of letters,
  as control characters, and the codes of the keys with prefix; and the flags end up as the keys
  left them: a modifier is set when one of its keys goes down and cleared when one goes up.
\<close>

theorem kbd_types_keys:
  assumes "\<forall>e\<in>set es. real_key e"
  shows "filter (\<lambda>c. c \<noteq> 0) (fst (kbd_drain (flags_of m) (concat (map scancodes es)))) = filter (\<lambda>c. c \<noteq> 0) (typed m es) \<and>
    snd (kbd_drain (flags_of m) (concat (map scancodes es))) = flags_of (fold key_mods es m)"
  using assms
proof (induction es arbitrary: m)
  case Nil
  then show ?case by (simp add: kbdgetc_def)
next
  case (Cons e es)
  then have "real_key e" by simp
  note d = drain_key [OF this, of m]
  show ?case
    using Cons.IH [of "key_mods e m"] Cons.prems d by (simp add: kbd_drain_append del: key_mods.simps)
qed

text \<open>Shift and \<open>a\<close>, then \<open>a\<close>; right control and \<open>d\<close>; caps lock and \<open>z\<close>; the up arrow.\<close>

theorem kbd_types_keys_witness:
  "filter (\<lambda>c. c \<noteq> 0) (fst (kbd_drain 0 [0x2A, 0x1E, 0xAA, 0x1E, 0xE0, 0x1D, 0x20, 0xE0, 0x9D, 0x3A, 0x2C, 0xE0, 0x48])) =
   [65, 97, 4, 90, 0xE2]"
proof -
  let ?m = "\<lparr>m_shift = False, m_ctl = False, m_alt = False, m_caps = False, m_num = False, m_scroll = False\<rparr>"
  let ?es = "[Press False 0x2A, Press False 0x1E, Release False 0x2A, Press False 0x1E, Press True 0x1D, Press False 0x20,
    Release True 0x1D, Press False 0x3A, Press False 0x2C, Press True 0x48]"
  have "\<forall>e\<in>set ?es. real_key e" by (simp add: real_key_def)
  from kbd_types_keys [OF this, of ?m] show ?thesis
    by (simp add: flags_of_def key_rows_def ext_keys_def is_letter_def control_of_def del: kbd_drain.simps)
qed

end
