(* ===== verification/Console.thy ===== *)
theory Console
  imports Fs_Inode Kbd
begin

text \<open>
  The console: \<open>console.c\<close>, the interrupt entry points of \<open>kbd.c\<close> and \<open>uart.c\<close>, the process
  listing \<open>procdump\<close> of \<open>proc.c\<close> and the stack walk \<open>getcallerpcs\<close> of \<open>spinlock.c\<close>. Screen memory
  and the cursor register, the bytes sent to and received from the serial line, and the
  scan codes that wait in the keyboard controller are part of the state.
\<close>

section \<open>State\<close>

abbreviation INPUT_BUF :: u32 where "INPUT_BUF \<equiv> 128"
abbreviation BACKSPACE :: int where "BACKSPACE \<equiv> 256"

text \<open>\<open>input\<close>: the line buffer with its read, write and edit index.\<close>

record input_state =
  in_buf :: "u8 list"
  in_r :: u32
  in_w :: u32
  in_e :: u32

record cons_state =
  c_locking :: bool
  c_panicked :: bool
  c_input :: input_state
  crt :: "nat \<Rightarrow> u16"
  crt_pos :: nat
  uart :: bool
  uart_out :: "u8 list"
  uart_in :: "u8 list"
  kbd_shift :: u32
  kbd_in :: "u8 list"

record cn = ic +
  cons :: cons_state

definition set_cons :: "(cons_state \<Rightarrow> cons_state) \<Rightarrow> ('a cn_scheme, unit) kcode" where
  "set_cons f = modk (\<lambda>s. s\<lparr>cons := f (cons s)\<rparr>)"

definition set_input :: "(input_state \<Rightarrow> input_state) \<Rightarrow> ('a cn_scheme, unit) kcode" where
  "set_input f = set_cons (\<lambda>c. c\<lparr>c_input := f (c_input c)\<rparr>)"

section \<open>Output\<close>

definition uartputc :: "int \<Rightarrow> ('a cn_scheme, unit) kcode" where
  "uartputc c = set_cons (\<lambda>k. if uart k then k\<lparr>uart_out := uart_out k @ [word_of_int c]\<rparr> else k)"

text \<open>\<open>has_uart\<close> says whether the line status register reads other than 0xFF.\<close>

definition uartinit :: "bool \<Rightarrow> ('a cn_scheme, unit) kcode" where
  "uartinit has_uart =
     (if \<not> has_uart then retk ()
      else
        thenk (set_cons (\<lambda>c. c\<lparr>uart := True\<rparr>))
        (foreachk (\<lambda>ch. uartputc (of_char ch)) (''xv6...'' @ [CHR 0x0A])))"

text \<open>The screen after one character, and the new cursor position; rows are 80 wide.\<close>

definition scroll :: "(nat \<Rightarrow> u16) \<Rightarrow> nat \<Rightarrow> nat \<Rightarrow> u16" where
  "scroll m pos i = (if pos \<le> i \<and> i < 24 * 80 then 0 else if i < 23 * 80 then m (i + 80) else m i)"

definition cgaputc :: "int \<Rightarrow> ('a cn_scheme, unit) kcode" where
  "cgaputc c =
     bindk (getk (\<lambda>s. crt_pos (cons s))) (\<lambda>pos0.
     bindk (if c = 10 then retk (pos0 + (80 - pos0 mod 80))
            else if c = BACKSPACE then retk (if pos0 > 0 then pos0 - 1 else pos0)
            else thenk (set_cons (\<lambda>k. k\<lparr>crt := (crt k)(pos0 := or (and (word_of_int c) 0xFF) 0x0700)\<rparr>))
                 (retk (pos0 + 1))) (\<lambda>pos1.
       if pos1 > 25 * 80 then panick ''pos under/overflow''
       else
         bindk (if pos1 div 80 \<ge> 24
                then thenk (set_cons (\<lambda>k. k\<lparr>crt := scroll (crt k) (pos1 - 80)\<rparr>)) (retk (pos1 - 80))
                else retk pos1) (\<lambda>pos2.
         set_cons (\<lambda>k. k\<lparr>crt_pos := pos2, crt := (crt k)(pos2 := 0x0720)\<rparr>))))"

definition consputc :: "int \<Rightarrow> ('a cn_scheme, unit) kcode" where
  "consputc c =
     bindk (getk (\<lambda>s. c_panicked (cons s))) (\<lambda>p.
       if p then blockk
       else
         thenk (if c = BACKSPACE then thenk (uartputc 8) (thenk (uartputc 32) (uartputc 8)) else uartputc c)
         (cgaputc c))"

section \<open>Formatted output\<close>

text \<open>The digits of \<open>x\<close>, least significant first; the bases in use are 10 and 16.\<close>

function digits_of :: "nat \<Rightarrow> nat \<Rightarrow> nat list" where
  "digits_of base x = (if base < 2 \<or> x div base = 0 then [x mod base] else x mod base # digits_of base (x div base))"
  by pat_completeness auto
termination
  by (relation "measure snd") (auto simp: div_eq_0_iff)

declare digits_of.simps [simp del]

definition digit_char :: "string \<Rightarrow> nat \<Rightarrow> u8" where
  "digit_char digits d = word_of_nat (of_char (digits ! d))"

text \<open>
  \<open>printint\<close>, shared by the kernel and the user library up to its digits. The absolute value of the
  smallest number is taken in unsigned arithmetic.
\<close>

definition format_int :: "string \<Rightarrow> u32 \<Rightarrow> nat \<Rightarrow> bool \<Rightarrow> u8 list" where
  "format_int digits xx base sign =
     (let neg = (sign \<and> sint xx < 0);
          x = (if neg then - xx else xx)
      in (if neg then [45] else []) @ rev (map (digit_char digits) (digits_of base (unat x))))"

definition printint :: "u32 \<Rightarrow> nat \<Rightarrow> bool \<Rightarrow> ('a cn_scheme, unit) kcode" where
  "printint xx base sign = foreachk (\<lambda>c. consputc (uint c)) (format_int ''0123456789abcdef'' xx base sign)"

text \<open>Arguments of a format string: a word, or a pointer to a string, which may be null.\<close>

datatype carg = WordArg u32 | StrArg "u8 list option"

definition puts :: "u8 list \<Rightarrow> ('a cn_scheme, unit) kcode" where
  "puts bs = foreachk (\<lambda>c. consputc (uint c)) bs"

fun cprintf_loop :: "u8 list \<Rightarrow> carg list \<Rightarrow> ('a cn_scheme, unit) kcode" where
  "cprintf_loop [] as = retk ()"
| "cprintf_loop (c # fmt) as =
     (if c \<noteq> 37 then thenk (consputc (uint c)) (cprintf_loop fmt as)
      else case fmt of
        [] \<Rightarrow> retk ()
      | d # fmt' \<Rightarrow>
          if d = 100
          then (case as of WordArg w # as' \<Rightarrow> thenk (printint w 10 True) (cprintf_loop fmt' as') | _ \<Rightarrow> faultk)
          else if d = 120 \<or> d = 112
          then (case as of WordArg w # as' \<Rightarrow> thenk (printint w 16 False) (cprintf_loop fmt' as') | _ \<Rightarrow> faultk)
          else if d = 115
          then (case as of
                  StrArg (Some bs) # as' \<Rightarrow> thenk (puts bs) (cprintf_loop fmt' as')
                | StrArg None # as' \<Rightarrow> thenk (puts (bytes_of ''(null)'')) (cprintf_loop fmt' as')
                | _ \<Rightarrow> faultk)
          else if d = 37 then thenk (consputc 37) (cprintf_loop fmt' as)
          else thenk (consputc 37) (thenk (consputc (uint d)) (cprintf_loop fmt' as)))"

definition cprintf :: "string \<Rightarrow> carg list \<Rightarrow> ('a cn_scheme, unit) kcode" where
  "cprintf fmt as =
     bindk (getk (\<lambda>s. c_locking (cons s))) (\<lambda>locking.
     thenk (if locking then dok (acquire ConsLock) else retk ())
     (thenk (cprintf_loop (bytes_of fmt) as)
     (if locking then dok (release ConsLock) else retk ())))"

section \<open>Process listing\<close>

fun getcallerpcs_walk :: "nat \<Rightarrow> u32 \<Rightarrow> memory \<Rightarrow> u32 list" where
  "getcallerpcs_walk 0 ebp m = []"
| "getcallerpcs_walk (Suc n) ebp m =
     (if ebp = 0 \<or> ebp < KERNBASE \<or> ebp = 0xFFFFFFFF then replicate (Suc n) 0
      else load32 m (ebp + 4) # getcallerpcs_walk n (load32 m ebp) m)"

definition getcallerpcs :: "u32 \<Rightarrow> memory \<Rightarrow> u32 list" where
  "getcallerpcs v m = getcallerpcs_walk 10 (v - 8) m"

fun state_name :: "procstate \<Rightarrow> string" where
  "state_name UNUSED = ''unused''"
| "state_name EMBRYO = ''embryo''"
| "state_name SLEEPING = ''sleep ''"
| "state_name RUNNABLE = ''runble''"
| "state_name RUNNING = ''run   ''"
| "state_name ZOMBIE = ''zombie''"

text \<open>A C string in an array ends at its first zero byte.\<close>

definition cstr :: "u8 list \<Rightarrow> u8 list" where
  "cstr bs = takeWhile (\<lambda>b. b \<noteq> 0) bs"

definition procdump_one :: "proc \<Rightarrow> ('a cn_scheme, unit) kcode" where
  "procdump_one p =
     (if pstate p = UNUSED then retk ()
      else
        thenk (cprintf ''%d %s %s'' [WordArg (word_of_int (pid p)), StrArg (Some (bytes_of (state_name (pstate p)))),
                                     StrArg (Some (cstr (pname p)))])
        (thenk (if pstate p = SLEEPING
                then bindk (getk (\<lambda>s. getcallerpcs (ctx_ebp (pcontext p) + 8) (kmemory (kmem s)))) (\<lambda>pcs.
                  foreachk (\<lambda>pc. cprintf '' %p'' [WordArg pc]) (takeWhile (\<lambda>pc. pc \<noteq> 0) pcs))
                else retk ())
        (cprintf [CHR 0x0A] [])))"

definition procdump :: "('a cn_scheme, unit) kcode" where
  "procdump = bindk (getk ptable) (foreachk procdump_one)"

section \<open>Input\<close>

text \<open>Control characters: \<open>C('P')\<close> and so on.\<close>

abbreviation ctl_P :: int where "ctl_P \<equiv> 16"
abbreviation ctl_U :: int where "ctl_U \<equiv> 21"
abbreviation ctl_H :: int where "ctl_H \<equiv> 8"
abbreviation ctl_D :: int where "ctl_D \<equiv> 4"

definition in_at :: "u32 \<Rightarrow> input_state \<Rightarrow> u8" where
  "in_at i k = in_buf k ! unat (i mod INPUT_BUF)"

text \<open>The loop of ^U; \<open>n\<close> bounds the characters that can be taken back, at most the buffer size.\<close>

fun kill_line :: "nat \<Rightarrow> ('a cn_scheme, unit) kcode" where
  "kill_line 0 = retk ()"
| "kill_line (Suc n) =
     bindk (getk (\<lambda>s. c_input (cons s))) (\<lambda>k.
       if in_e k \<noteq> in_w k \<and> in_at (in_e k - 1) k \<noteq> 10
       then thenk (set_input (\<lambda>k. k\<lparr>in_e := in_e k - 1\<rparr>))
            (thenk (consputc BACKSPACE)
            (kill_line n))
       else retk ())"

text \<open>One character of \<open>consoleintr\<close>; the result says whether a process listing was asked for.\<close>

definition consoleintr_char :: "int \<Rightarrow> ('a cn_scheme, bool) kcode" where
  "consoleintr_char c =
     bindk (getk (\<lambda>s. c_input (cons s))) (\<lambda>k.
       if c = ctl_P then retk True
       else if c = ctl_U then thenk (kill_line (unat (in_e k - in_w k))) (retk False)
       else if c = ctl_H \<or> c = 127
       then (if in_e k \<noteq> in_w k
             then thenk (set_input (\<lambda>k. k\<lparr>in_e := in_e k - 1\<rparr>)) (thenk (consputc BACKSPACE) (retk False))
             else retk False)
       else if c \<noteq> 0 \<and> in_e k - in_r k < INPUT_BUF
       then
         let c' = (if c = 13 then 10 else c) in
         thenk (set_input (\<lambda>k. k\<lparr>in_buf := (in_buf k)[unat (in_e k mod INPUT_BUF) := word_of_int c'], in_e := in_e k + 1\<rparr>))
         (thenk (consputc c')
         (bindk (getk (\<lambda>s. c_input (cons s))) (\<lambda>k1.
           if c' = 10 \<or> c' = ctl_D \<or> in_e k1 = in_r k1 + INPUT_BUF
           then thenk (set_input (\<lambda>k. k\<lparr>in_w := in_e k\<rparr>)) (thenk (dok (wakeup InputChan)) (retk False))
           else retk False)))
       else retk False)"

fun consoleintr_loop :: "int list \<Rightarrow> bool \<Rightarrow> ('a cn_scheme, bool) kcode" where
  "consoleintr_loop [] dump = retk dump"
| "consoleintr_loop (c # cs) dump = bindk (consoleintr_char c) (\<lambda>d. consoleintr_loop cs (dump \<or> d))"

text \<open>\<open>cs\<close> are the characters that \<open>getc\<close> returns before it returns -1.\<close>

definition consoleintr :: "int list \<Rightarrow> ('a cn_scheme, unit) kcode" where
  "consoleintr cs =
     thenk (dok (acquire ConsLock))
     (bindk (consoleintr_loop cs False) (\<lambda>doprocdump.
      thenk (dok (release ConsLock))
      (if doprocdump then procdump else retk ())))"

definition kbdintr :: "('a cn_scheme, unit) kcode" where
  "kbdintr =
     bindk (getk cons) (\<lambda>k.
       let (cs, sh) = kbd_drain (kbd_shift k) (kbd_in k) in
       thenk (set_cons (\<lambda>k. k\<lparr>kbd_shift := sh, kbd_in := []\<rparr>)) (consoleintr cs))"

definition uartgetc :: "('a cn_scheme, int) kcode" where
  "uartgetc =
     bindk (getk cons) (\<lambda>k.
       if \<not> uart k then retk (-1)
       else case uart_in k of
              [] \<Rightarrow> retk (-1)
            | b # bs \<Rightarrow> thenk (set_cons (\<lambda>k. k\<lparr>uart_in := bs\<rparr>)) (retk (uint b)))"

text \<open>The characters that successive calls of \<open>uartgetc\<close> return.\<close>

definition uartintr :: "('a cn_scheme, unit) kcode" where
  "uartintr =
     bindk (getk cons) (\<lambda>k.
       if \<not> uart k then consoleintr []
       else thenk (set_cons (\<lambda>k. k\<lparr>uart_in := []\<rparr>)) (consoleintr (map uint (uart_in k))))"

text \<open>
  The loop of \<open>consoleread\<close> with \<open>n\<close> bytes to go and \<open>acc\<close> the bytes stored so far. The result
  is \<open>None\<close> if the process was killed.
\<close>

fun consoleread_loop :: "nat \<Rightarrow> nat \<Rightarrow> u8 list \<Rightarrow> ('a cn_scheme, u8 list option) kcode" where
  "consoleread_loop target 0 acc = retk (Some acc)"
| "consoleread_loop target (Suc n) acc =
     bindk (getk (\<lambda>s. c_input (cons s))) (\<lambda>k.
       if in_r k = in_w k
       then
         bindk (\<lambda>s. andthen (myproc s) (\<lambda>(p, s1). case p of None \<Rightarrow> Fault | Some i \<Rightarrow> Ok (killed (ptable s1 ! i), s1))) (\<lambda>kl.
           if kl then retk None else blockk)
       else
         let c = in_at (in_r k) k in
         thenk (set_input (\<lambda>k. k\<lparr>in_r := in_r k + 1\<rparr>))
         (if c = 4
          then thenk (if Suc n < target then set_input (\<lambda>k. k\<lparr>in_r := in_r k - 1\<rparr>) else retk ()) (retk (Some acc))
          else if c = 10 then retk (Some (acc @ [c]))
          else consoleread_loop target n (acc @ [c])))"

text \<open>The bytes read, or \<open>None\<close> where the code returns -1.\<close>

definition consoleread :: "nat \<Rightarrow> int \<Rightarrow> ('a cn_scheme, u8 list option) kcode" where
  "consoleread ip n =
     thenk (iunlock (Some ip))
     (thenk (dok (acquire ConsLock))
     (bindk (consoleread_loop (nat n) (nat n) []) (\<lambda>r.
      thenk (dok (release ConsLock))
      (thenk (ilock (Some ip))
      (retk r)))))"

definition consolewrite :: "nat \<Rightarrow> u8 list \<Rightarrow> ('a cn_scheme, int) kcode" where
  "consolewrite ip bs =
     thenk (iunlock (Some ip))
     (thenk (dok (acquire ConsLock))
     (thenk (foreachk (\<lambda>b. consputc (uint b)) bs)
     (thenk (dok (release ConsLock))
     (thenk (ilock (Some ip))
     (retk (int (length bs)))))))"

definition consoleinit :: "('a cn_scheme, unit) kcode" where
  "consoleinit =
     thenk (modk (initlock ConsLock))
     (thenk (modk (\<lambda>s. s\<lparr>fs := (fs s)\<lparr>devsw := (devsw (fs s))(1 := Some ConsoleFns)\<rparr>\<rparr>))
     (set_cons (\<lambda>c. c\<lparr>c_locking := True\<rparr>)))"

end
