(* ===== verification/Fs_Data.thy ===== *)
theory Fs_Data
  imports Console
begin

text \<open>
  The upper half of \<open>fs.c\<close>: reading and writing the contents of an inode, directories and
  path names. The bytes that \<open>readi\<close> stores at its destination are its result, those that
  \<open>writei\<close> takes from its source are its argument; \<open>None\<close> and \<open>-1\<close> are the error returns. A
  path is the list of its characters before the terminating zero byte.
\<close>

section \<open>Inode contents\<close>

abbreviation NDEV :: int where "NDEV \<equiv> 10"

text \<open>\<open>rest\<close> bytes from offset \<open>off\<close> on, block by block.\<close>

function readi_loop :: "nat \<Rightarrow> nat \<Rightarrow> nat \<Rightarrow> ('a cn_scheme, u8 list) kcode" where
  "readi_loop ip off rest =
     (if rest = 0 then retk []
      else
        let m = min rest (BSIZE - off mod BSIZE) in
        bindk (bmap ip (off div BSIZE)) (\<lambda>addr.
        bindk (getk (\<lambda>s. i_dev (inode_at ip s))) (\<lambda>dev.
        bindk (bread dev addr) (\<lambda>bp.
        bindk (buf_data bp) (\<lambda>bs.
        thenk (brelse bp)
        (bindk (readi_loop ip (off + m) (rest - m)) (\<lambda>more'.
        retk (take m (drop (off mod BSIZE) bs) @ more'))))))))"
  by pat_completeness auto
termination
  by (relation "measure (\<lambda>(ip, off, rest). rest)") auto

declare readi_loop.simps [simp del]

definition readi :: "nat \<Rightarrow> u32 \<Rightarrow> u32 \<Rightarrow> ('a cn_scheme, u8 list option) kcode" where
  "readi ip off n =
     bindk (getk (inode_at ip)) (\<lambda>i.
       if i_type i = T_DEV
       then
         (if sint (i_major i) < 0 \<or> sint (i_major i) \<ge> NDEV then retk None
          else bindk (getk (\<lambda>s. devsw (fs s) (sint (i_major i)))) (\<lambda>d.
            case d of
              None \<Rightarrow> retk None
            | Some ConsoleFns \<Rightarrow> consoleread ip (sint n)))
       else if off > i_size i \<or> off + n < off then retk None
       else
         let m = (if off + n > i_size i then i_size i - off else n) in
         bindk (readi_loop ip (unat off) (unat m)) (\<lambda>bs. retk (Some bs)))"

function writei_loop :: "nat \<Rightarrow> nat \<Rightarrow> u8 list \<Rightarrow> ('a cn_scheme, unit) kcode" where
  "writei_loop ip off src =
     (if src = [] then retk ()
      else
        let m = min (length src) (BSIZE - off mod BSIZE) in
        bindk (bmap ip (off div BSIZE)) (\<lambda>addr.
        bindk (getk (\<lambda>s. i_dev (inode_at ip s))) (\<lambda>dev.
        bindk (bread dev addr) (\<lambda>bp.
        thenk (set_data bp (\<lambda>bs. take (off mod BSIZE) bs @ take m src @ drop (off mod BSIZE + m) bs))
        (thenk (log_write bp)
        (thenk (brelse bp)
        (writei_loop ip (off + m) (drop m src))))))))"
  by pat_completeness auto
termination
  by (relation "measure (\<lambda>(ip, off, src). length src)") auto

declare writei_loop.simps [simp del]

definition writei :: "nat \<Rightarrow> u8 list \<Rightarrow> u32 \<Rightarrow> ('a cn_scheme, int) kcode" where
  "writei ip src off =
     bindk (getk (inode_at ip)) (\<lambda>i.
       let n = word_of_nat (length src) in
       if i_type i = T_DEV
       then
         (if sint (i_major i) < 0 \<or> sint (i_major i) \<ge> NDEV then retk (-1)
          else bindk (getk (\<lambda>s. devsw (fs s) (sint (i_major i)))) (\<lambda>d.
            case d of
              None \<Rightarrow> retk (-1)
            | Some ConsoleFns \<Rightarrow> consolewrite ip src))
       else if off > i_size i \<or> off + n < off then retk (-1)
       else if off + n > word_of_nat (MAXFILE * BSIZE) then retk (-1)
       else
         thenk (writei_loop ip (unat off) src)
         (thenk (bindk (getk (inode_at ip)) (\<lambda>i.
                  if n > 0 \<and> off + n > i_size i
                  then thenk (upd_inode ip (\<lambda>i. i\<lparr>i_size := off + n\<rparr>)) (iupdate ip)
                  else retk ()))
         (retk (int (length src)))))"

section \<open>Directories\<close>

abbreviation DIRSIZ :: nat where "DIRSIZ \<equiv> 14"

text \<open>\<open>struct dirent\<close>: a 16 bit inode number and fourteen characters.\<close>

definition namecmp :: "u8 list \<Rightarrow> u8 list \<Rightarrow> int" where
  "namecmp s t = strncmp (reader_of s) (reader_of t) DIRSIZ"

definition dirent_inum :: "u8 list \<Rightarrow> u16" where
  "dirent_inum de = get16 de 0"

definition dirent_name :: "u8 list \<Rightarrow> u8 list" where
  "dirent_name de = drop 2 de"

text \<open>The offsets \<open>0, 16, \<dots>\<close> below the size of a directory.\<close>

definition dirent_offsets :: "u32 \<Rightarrow> nat list" where
  "dirent_offsets z = map (\<lambda>i. 16 * i) [0..<(unat z + 15) div 16]"

definition dirlookup :: "nat \<Rightarrow> u8 list \<Rightarrow> ('a cn_scheme, (nat \<times> nat) option) kcode" where
  "dirlookup dp nm =
     bindk (getk (inode_at dp)) (\<lambda>d.
       if i_type d \<noteq> T_DIR then panick ''dirlookup not DIR''
       else findk (\<lambda>off.
         bindk (readi dp (word_of_nat off) 16) (\<lambda>r.
           case r of
             None \<Rightarrow> panick ''dirlookup read''
           | Some de \<Rightarrow>
               if length de \<noteq> 16 then panick ''dirlookup read''
               else if dirent_inum de = 0 then retk None
               else if namecmp nm (dirent_name de) = 0
               then bindk (iget (i_dev d) (ucast (dirent_inum de))) (\<lambda>ip. retk (Some (ip, off)))
               else retk None)) (dirent_offsets (i_size d)))"

definition dirlink_slot :: "nat \<Rightarrow> ('a cn_scheme, nat) kcode" where
  "dirlink_slot dp =
     bindk (getk (\<lambda>s. i_size (inode_at dp s))) (\<lambda>z.
     bindk (findk (\<lambda>off.
       bindk (readi dp (word_of_nat off) 16) (\<lambda>r.
         case r of
           None \<Rightarrow> panick ''dirlink read''
         | Some de \<Rightarrow>
             if length de \<noteq> 16 then panick ''dirlink read''
             else if dirent_inum de = 0 then retk (Some off)
             else retk None)) (dirent_offsets z)) (\<lambda>r.
     retk (case r of Some off \<Rightarrow> off | None \<Rightarrow> 16 * ((unat z + 15) div 16))))"

definition make_dirent :: "u8 list \<Rightarrow> u32 \<Rightarrow> u8 list" where
  "make_dirent nm inum = put16 0 (ucast inum) [0, 0] @ strncpy_out (reader_of nm) DIRSIZ"

definition dirlink :: "nat \<Rightarrow> u8 list \<Rightarrow> u32 \<Rightarrow> ('a cn_scheme, int) kcode" where
  "dirlink dp nm inum =
     bindk (dirlookup dp nm) (\<lambda>r.
       case r of
         Some (ip, _) \<Rightarrow> thenk (iput ip) (retk (-1))
       | None \<Rightarrow>
           bindk (dirlink_slot dp) (\<lambda>off.
           bindk (writei dp (make_dirent nm inum) (word_of_nat off)) (\<lambda>w.
             if w \<noteq> 16 then panick ''dirlink'' else retk 0)))"

section \<open>Paths\<close>

abbreviation slash :: u8 where "slash \<equiv> 47"

text \<open>
  The rest of the path after its first element, and the buffer \<open>name\<close> with that element; the
  old contents of the buffer stay behind the terminating zero.
\<close>

definition skipelem :: "u8 list \<Rightarrow> u8 list \<Rightarrow> (u8 list \<times> u8 list) option" where
  "skipelem path nm =
     (let p1 = dropWhile (\<lambda>c. c = slash) path in
      if p1 = [] then None
      else
        let s = takeWhile (\<lambda>c. c \<noteq> slash) p1;
            p2 = dropWhile (\<lambda>c. c \<noteq> slash) p1;
            nm' = (if length s \<ge> DIRSIZ then take DIRSIZ s else s @ [0] @ drop (length s + 1) nm)
        in Some (dropWhile (\<lambda>c. c = slash) p2, nm'))"

lemma dropWhile_length_le: "length (dropWhile P xs) \<le> length xs"
  by (induction xs) auto

lemma skipelem_shorter:
  assumes "skipelem path nm = Some (rest, nm')"
  shows "length rest < length path"
proof -
  define p1 where "p1 = dropWhile (\<lambda>c. c = slash) path"
  from assms have p1: "p1 \<noteq> []" and r: "rest = dropWhile (\<lambda>c. c = slash) (dropWhile (\<lambda>c. c \<noteq> slash) p1)"
    by (auto simp: skipelem_def Let_def p1_def split: if_split_asm)
  obtain c cs where p: "p1 = c # cs" using p1 by (cases p1) auto
  have "c \<noteq> slash" using hd_dropWhile [of "\<lambda>c. c = slash" path] p1 p by (auto simp: p1_def)
  then have "length (dropWhile (\<lambda>c. c \<noteq> slash) p1) \<le> length cs"
    using p dropWhile_length_le [of "\<lambda>c. c \<noteq> slash" cs] by simp
  then have "length (dropWhile (\<lambda>c. c \<noteq> slash) p1) < length p1" using p by simp
  then have "length rest < length p1"
    unfolding r by (rule le_less_trans [OF dropWhile_length_le])
  also have "length p1 \<le> length path" unfolding p1_def by (rule dropWhile_length_le)
  finally show ?thesis .
qed

text \<open>The loop of \<open>namex\<close>; the result is the inode and the last element taken off the path.\<close>

function namex_loop :: "nat \<Rightarrow> u8 list \<Rightarrow> bool \<Rightarrow> u8 list \<Rightarrow> ('a cn_scheme, (nat \<times> u8 list) option) kcode" where
  "namex_loop ip path nameiparent nm =
     (case skipelem path nm of
        None \<Rightarrow> if nameiparent then thenk (iput ip) (retk None) else retk (Some (ip, nm))
      | Some (path', nm') \<Rightarrow>
          thenk (ilock (Some ip))
          (bindk (getk (\<lambda>s. i_type (inode_at ip s))) (\<lambda>ty.
            if ty \<noteq> T_DIR then thenk (iunlockput ip) (retk None)
            else if nameiparent \<and> path' = [] then thenk (iunlock (Some ip)) (retk (Some (ip, nm')))
            else bindk (dirlookup ip nm') (\<lambda>r.
              case r of
                None \<Rightarrow> thenk (iunlockput ip) (retk None)
              | Some (next_ip, _) \<Rightarrow> thenk (iunlockput ip) (namex_loop next_ip path' nameiparent nm')))))"
  by pat_completeness auto
termination
  by (relation "measure (\<lambda>(ip, path, np, nm). length path)") (auto dest: skipelem_shorter)

declare namex_loop.simps [simp del]

definition namex :: "u8 list \<Rightarrow> bool \<Rightarrow> ('a cn_scheme, (nat \<times> u8 list) option) kcode" where
  "namex path nameiparent =
     bindk (if path \<noteq> [] \<and> hd path = slash then iget ROOTDEV ROOTINO
            else bindk (\<lambda>s. andthen (myproc s) (\<lambda>(p, s1).
                   case p of
                     None \<Rightarrow> Fault
                   | Some i \<Rightarrow> (case cwd (ptable s1 ! i) of None \<Rightarrow> Fault | Some c \<Rightarrow> Ok (c, s1)))) idup) (\<lambda>ip.
     namex_loop ip path nameiparent (replicate DIRSIZ 0))"

definition namei :: "u8 list \<Rightarrow> ('a cn_scheme, nat option) kcode" where
  "namei path = bindk (namex path False) (\<lambda>r. retk (map_option fst r))"

definition nameiparent :: "u8 list \<Rightarrow> ('a cn_scheme, (nat \<times> u8 list) option) kcode" where
  "nameiparent path = namex path True"

end
