(* ===== verification/Pipe.thy ===== *)
theory Pipe
  imports Fs_Data
begin

text \<open>
  Pipes, \<open>pipe.c\<close>. A pipe lives in a page of its own and is named by the address of that
  page. \<open>pipewrite\<close> and \<open>piperead\<close> are cut where they sleep: the result is then \<open>Sleeps\<close> with
  what is needed to go on, and \<open>pipe_resume\<close> is the rest of the call, which tests its
  condition again. \<open>pipealloc\<close> is with the file table.
\<close>

section \<open>State\<close>

abbreviation PIPESIZE :: nat where "PIPESIZE \<equiv> 512"

text \<open>\<open>struct pipe\<close>; the lock is \<open>PipeLock\<close> of the address.\<close>

record pipe =
  p_data :: "u8 list"
  p_nread :: u32
  p_nwrite :: u32
  p_readopen :: bool
  p_writeopen :: bool

record pp = cn +
  pipes :: "u32 \<Rightarrow> pipe"

text \<open>Where a process that sleeps in a pipe operation continues.\<close>

datatype pipe_cont = PipeWriteK bool u32 u32 nat int | PipeReadK bool u32 u32 nat

type_synonym 'a pipe_result = "((int, pipe_cont) blocking \<times> 'a pp_scheme) outcome"

definition upd_pipe :: "u32 \<Rightarrow> (pipe \<Rightarrow> pipe) \<Rightarrow> 'a pp_scheme \<Rightarrow> 'a pp_scheme" where
  "upd_pipe p f s = s\<lparr>pipes := (pipes s)(p := f (pipes s p))\<rparr>"

section \<open>Definitions\<close>

definition pipeclose :: "u32 \<Rightarrow> bool \<Rightarrow> 'a pp_scheme \<Rightarrow> 'a pp_scheme outcome" where
  "pipeclose p writable s =
     andthen (acquire (PipeLock p) s) (\<lambda>s1.
     andthen (if writable
              then wakeup (PipeReadChan p) (upd_pipe p (\<lambda>k. k\<lparr>p_writeopen := False\<rparr>) s1)
              else wakeup (PipeWriteChan p) (upd_pipe p (\<lambda>k. k\<lparr>p_readopen := False\<rparr>) s1)) (\<lambda>s2.
       if \<not> p_readopen (pipes s2 p) \<and> \<not> p_writeopen (pipes s2 p)
       then andthen (release (PipeLock p) s2) (kfree p)
       else release (PipeLock p) s2))"

text \<open>A full ring: \<open>nwrite == nread + PIPESIZE\<close>.\<close>

definition pipe_full :: "pipe \<Rightarrow> bool" where
  "pipe_full k \<longleftrightarrow> p_nwrite k = p_nread k + word_of_nat PIPESIZE"

definition pipe_put :: "u8 \<Rightarrow> pipe \<Rightarrow> pipe" where
  "pipe_put b k = k\<lparr>p_data := (p_data k)[unat (p_nwrite k mod word_of_nat PIPESIZE) := b], p_nwrite := p_nwrite k + 1\<rparr>"

definition pipe_get :: "pipe \<Rightarrow> u8" where
  "pipe_get k = p_data k ! unat (p_nread k mod word_of_nat PIPESIZE)"

definition pipe_next :: "pipe \<Rightarrow> pipe" where
  "pipe_next k = k\<lparr>p_nread := p_nread k + 1\<rparr>"

text \<open>\<open>myproc()->killed\<close>.\<close>

definition mykilled :: "'a pt_scheme \<Rightarrow> (bool \<times> 'a pt_scheme) outcome" where
  "mykilled s = andthen (myproc s) (\<lambda>(q, s1). case q of None \<Rightarrow> Fault | Some i \<Rightarrow> Ok (killed (ptable s1 ! i), s1))"

text \<open>
  The loop of \<open>pipewrite\<close> with \<open>rest\<close> of its \<open>n\<close> bytes to go; \<open>a\<close> is the address of the next one in
  the memory of process \<open>q\<close>.
\<close>

fun pipewrite_loop :: "nat \<Rightarrow> u32 \<Rightarrow> u32 \<Rightarrow> nat \<Rightarrow> int \<Rightarrow> 'a pp_scheme \<Rightarrow> 'a pipe_result" where
  "pipewrite_loop q p a rest n s =
     (case rest of
        0 \<Rightarrow>
          andthen (wakeup (PipeReadChan p) s) (\<lambda>s1.
          andthen (release (PipeLock p) s1) (\<lambda>s2. Ok (Return n, s2)))
      | Suc rest' \<Rightarrow>
          if pipe_full (pipes s p)
          then
            andthen (mykilled s) (\<lambda>(kl, s1).
              if \<not> p_readopen (pipes s1 p) \<or> kl
              then andthen (release (PipeLock p) s1) (\<lambda>s2. Ok (Return (-1), s2))
              else
                andthen (wakeup (PipeReadChan p) s1) (\<lambda>s2.
                andthen (sleep (PipeWriteChan p) (Some (PipeLock p)) s2) (\<lambda>(ie, s3).
                Ok (Sleeps (PipeWriteK ie p a rest n), s3))))
          else if \<not> in_uvm q a 1 s then Fault
          else pipewrite_loop q p (a + 1) rest' n (upd_pipe p (pipe_put (umem s q a)) s))"

declare pipewrite_loop.simps [simp del]

definition pipewrite :: "u32 \<Rightarrow> u32 \<Rightarrow> int \<Rightarrow> 'a pp_scheme \<Rightarrow> 'a pipe_result" where
  "pipewrite p addr n s =
     andthen (acquire (PipeLock p) s) (\<lambda>s1.
       case curproc s1 of
         None \<Rightarrow> Fault
       | Some q \<Rightarrow> pipewrite_loop q p addr (nat n) n s1)"

text \<open>The copying loop of \<open>piperead\<close>: \<open>i\<close> bytes are copied, \<open>rest\<close> are still wanted.\<close>

fun piperead_copy :: "nat \<Rightarrow> u32 \<Rightarrow> u32 \<Rightarrow> nat \<Rightarrow> nat \<Rightarrow> 'a pp_scheme \<Rightarrow> (nat \<times> 'a pp_scheme) outcome" where
  "piperead_copy q p a i rest s =
     (case rest of
        0 \<Rightarrow> Ok (i, s)
      | Suc rest' \<Rightarrow>
          if p_nread (pipes s p) = p_nwrite (pipes s p) then Ok (i, s)
          else if \<not> in_uvm q a 1 s then Fault
          else piperead_copy q p (a + 1) (Suc i) rest'
                 (upd_pipe p pipe_next (s\<lparr>umem := (umem s)(q := (umem s q)(a := pipe_get (pipes s p)))\<rparr>)))"

declare piperead_copy.simps [simp del]

text \<open>\<open>piperead\<close> from the test that precedes its \<open>sleep\<close> on, with the lock held.\<close>

definition piperead_tail :: "nat \<Rightarrow> u32 \<Rightarrow> u32 \<Rightarrow> nat \<Rightarrow> 'a pp_scheme \<Rightarrow> 'a pipe_result" where
  "piperead_tail q p addr n s =
     (if p_nread (pipes s p) = p_nwrite (pipes s p) \<and> p_writeopen (pipes s p)
      then
        andthen (mykilled s) (\<lambda>(kl, s1).
          if kl then andthen (release (PipeLock p) s1) (\<lambda>s2. Ok (Return (-1), s2))
          else
            andthen (sleep (PipeReadChan p) (Some (PipeLock p)) s1) (\<lambda>(ie, s2).
            Ok (Sleeps (PipeReadK ie p addr n), s2)))
      else
        andthen (piperead_copy q p addr 0 n s) (\<lambda>(i, s1).
        andthen (wakeup (PipeWriteChan p) s1) (\<lambda>s2.
        andthen (release (PipeLock p) s2) (\<lambda>s3. Ok (Return (int i), s3)))))"

definition piperead :: "u32 \<Rightarrow> u32 \<Rightarrow> int \<Rightarrow> 'a pp_scheme \<Rightarrow> 'a pipe_result" where
  "piperead p addr n s =
     andthen (acquire (PipeLock p) s) (\<lambda>s1.
       case curproc s1 of
         None \<Rightarrow> Fault
       | Some q \<Rightarrow> piperead_tail q p addr (nat n) s1)"

text \<open>The code after \<open>sleep\<close>, run by process \<open>q\<close>: the loop tests its condition again.\<close>

fun pipe_resume :: "nat \<Rightarrow> pipe_cont \<Rightarrow> 'a pp_scheme \<Rightarrow> 'a pipe_result" where
  "pipe_resume q (PipeWriteK ie p a rest n) s =
     andthen (sleep_return ie q (PipeLock p) s) (pipewrite_loop q p a rest n)"
| "pipe_resume q (PipeReadK ie p a n) s =
     andthen (sleep_return ie q (PipeLock p) s) (piperead_tail q p a n)"

end
