(* ===== verification/File.thy ===== *)
theory File
  imports Pipe
begin

text \<open>
  The file table, \<open>file.c\<close>, and \<open>pipealloc\<close> of \<open>pipe.c\<close>. A pointer to an open file is an index
  into \<open>ftable.file\<close>. Buffers of \<open>fileread\<close> and \<open>filewrite\<close> are user memory of the calling
  process.
\<close>

section \<open>State\<close>

abbreviation NFILE :: nat where "NFILE \<equiv> 100"

datatype filetype = FD_NONE | FD_PIPE | FD_INODE

text \<open>\<open>struct file\<close> (\<open>file.h\<close>).\<close>

record kfile =
  f_type :: filetype
  f_ref :: int
  f_readable :: bool
  f_writable :: bool
  f_pipe :: u32
  f_ip :: nat
  f_off :: u32

record ft = pp +
  ftable :: "kfile list"

definition upd_file :: "nat \<Rightarrow> (kfile \<Rightarrow> kfile) \<Rightarrow> 'a ft_scheme \<Rightarrow> 'a ft_scheme" where
  "upd_file f g s = s\<lparr>ftable := (ftable s)[f := g (ftable s ! f)]\<rparr>"

section \<open>References\<close>

definition fileinit :: "('a ft_scheme, unit) kcode" where
  "fileinit = modk (initlock FtableLock)"

definition filealloc :: "('a ft_scheme, nat option) kcode" where
  "filealloc =
     thenk (dok (acquire FtableLock))
     (bindk (getk (\<lambda>s. find_index (\<lambda>f. f_ref f = 0) (ftable s))) (\<lambda>r.
       case r of
         Some f \<Rightarrow>
           thenk (modk (upd_file f (\<lambda>k. k\<lparr>f_ref := 1\<rparr>)))
           (thenk (dok (release FtableLock))
           (retk (Some f)))
       | None \<Rightarrow> thenk (dok (release FtableLock)) (retk None)))"

definition filedup :: "nat \<Rightarrow> ('a ft_scheme, nat) kcode" where
  "filedup f =
     thenk (dok (acquire FtableLock))
     (bindk (getk (\<lambda>s. f_ref (ftable s ! f))) (\<lambda>r.
       if r < 1 then panick ''filedup''
       else
         thenk (modk (upd_file f (\<lambda>k. k\<lparr>f_ref := wrap32 (f_ref k + 1)\<rparr>)))
         (thenk (dok (release FtableLock))
         (retk f))))"

definition fileclose :: "nat \<Rightarrow> ('a ft_scheme, unit) kcode" where
  "fileclose f =
     thenk (dok (acquire FtableLock))
     (bindk (getk (\<lambda>s. f_ref (ftable s ! f))) (\<lambda>r.
       if r < 1 then panick ''fileclose''
       else
         thenk (modk (upd_file f (\<lambda>k. k\<lparr>f_ref := wrap32 (f_ref k - 1)\<rparr>)))
         (bindk (getk (\<lambda>s. ftable s ! f)) (\<lambda>ff.
           if f_ref ff > 0 then dok (release FtableLock)
           else
             thenk (modk (upd_file f (\<lambda>k. k\<lparr>f_ref := 0, f_type := FD_NONE\<rparr>)))
             (thenk (dok (release FtableLock))
             (if f_type ff = FD_PIPE then dok (pipeclose (f_pipe ff) (f_writable ff))
              else if f_type ff = FD_INODE
              then thenk begin_op (thenk (iput (f_ip ff)) end_op)
              else retk ()))))))"

definition filestat :: "nat \<Rightarrow> ('a ft_scheme, stat option) kcode" where
  "filestat f =
     bindk (getk (\<lambda>s. ftable s ! f)) (\<lambda>k.
       if f_type k = FD_INODE
       then
         thenk (ilock (Some (f_ip k)))
         (bindk (stati (f_ip k)) (\<lambda>st.
          thenk (iunlock (Some (f_ip k)))
          (retk (Some st))))
       else retk None)"

section \<open>Reading and writing\<close>

text \<open>User memory of the calling process.\<close>

definition store_user :: "u32 \<Rightarrow> u8 list \<Rightarrow> ('a ft_scheme, unit) kcode" where
  "store_user a bs s =
     (case curproc s of
        None \<Rightarrow> Fault
      | Some q \<Rightarrow> if in_uvm q a (length bs) s
                  then Ok ((), s\<lparr>umem := (umem s)(q := write_bytes (umem s q) a bs)\<rparr>)
                  else Fault)"

definition load_user :: "u32 \<Rightarrow> nat \<Rightarrow> ('a ft_scheme, u8 list) kcode" where
  "load_user a n s =
     (case curproc s of
        None \<Rightarrow> Fault
      | Some q \<Rightarrow> if in_uvm q a n s then Ok (read_bytes (umem s q) a n, s) else Fault)"

definition fileread :: "nat \<Rightarrow> u32 \<Rightarrow> int \<Rightarrow> ('a ft_scheme, (int, pipe_cont) blocking) kcode" where
  "fileread f addr n =
     bindk (getk (\<lambda>s. ftable s ! f)) (\<lambda>k.
       if \<not> f_readable k then retk (Return (-1))
       else if f_type k = FD_PIPE then piperead (f_pipe k) addr n
       else if f_type k = FD_INODE
       then
         thenk (ilock (Some (f_ip k)))
         (bindk (readi (f_ip k) (f_off k) (word_of_int n)) (\<lambda>r.
          bindk (case r of
                   None \<Rightarrow> retk (-1)
                 | Some bs \<Rightarrow>
                     thenk (store_user addr bs)
                     (thenk (modk (upd_file f (\<lambda>k. k\<lparr>f_off := f_off k + word_of_nat (length bs)\<rparr>)))
                     (retk (int (length bs))))) (\<lambda>v.
          thenk (iunlock (Some (f_ip k)))
          (retk (Return v)))))
       else panick ''fileread'')"

text \<open>\<open>((MAXOPBLOCKS-1-1-2) / 2) * 512\<close>.\<close>

abbreviation write_chunk :: nat where "write_chunk \<equiv> 1536"

text \<open>The loop of \<open>filewrite\<close>: \<open>rest\<close> bytes from address \<open>a\<close> on; \<open>False\<close> if a chunk failed.\<close>

function filewrite_loop :: "nat \<Rightarrow> u32 \<Rightarrow> nat \<Rightarrow> ('a ft_scheme, bool) kcode" where
  "filewrite_loop f a rest =
     (if rest = 0 then retk True
      else
        let n1 = min rest write_chunk in
        bindk (getk (\<lambda>s. ftable s ! f)) (\<lambda>k.
        thenk begin_op
        (thenk (ilock (Some (f_ip k)))
        (bindk (load_user a n1) (\<lambda>bs.
         bindk (writei (f_ip k) bs (f_off k)) (\<lambda>r.
         thenk (if r > 0 then modk (upd_file f (\<lambda>k. k\<lparr>f_off := f_off k + word_of_int r\<rparr>)) else retk ())
         (thenk (iunlock (Some (f_ip k)))
         (thenk end_op
         (if r < 0 then retk False
          else if r \<noteq> int n1 then panick ''short filewrite''
          else filewrite_loop f (a + word_of_nat n1) (rest - n1)))))))))) "
  by pat_completeness auto
termination
  by (relation "measure (\<lambda>(f, a, rest). rest)") auto

declare filewrite_loop.simps [simp del]

definition filewrite :: "nat \<Rightarrow> u32 \<Rightarrow> int \<Rightarrow> ('a ft_scheme, (int, pipe_cont) blocking) kcode" where
  "filewrite f addr n =
     bindk (getk (\<lambda>s. ftable s ! f)) (\<lambda>k.
       if \<not> f_writable k then retk (Return (-1))
       else if f_type k = FD_PIPE then pipewrite (f_pipe k) addr n
       else if f_type k = FD_INODE
       then bindk (filewrite_loop f addr (nat n)) (\<lambda>ok. retk (Return (if ok \<and> 0 \<le> n then n else -1)))
       else panick ''filewrite'')"

section \<open>Making a pipe\<close>

definition new_pipe :: pipe where
  "new_pipe = \<lparr>p_data = replicate PIPESIZE 0, p_nread = 0, p_nwrite = 0, p_readopen = True, p_writeopen = True\<rparr>"

text \<open>The cleanup at \<open>bad\<close>; no page has been allocated on any way that leads there.\<close>

definition pipealloc_bad :: "nat option \<Rightarrow> nat option \<Rightarrow> ('a ft_scheme, (nat \<times> nat) option) kcode" where
  "pipealloc_bad f0 f1 =
     thenk (case f0 of None \<Rightarrow> retk () | Some f \<Rightarrow> fileclose f)
     (thenk (case f1 of None \<Rightarrow> retk () | Some f \<Rightarrow> fileclose f)
     (retk None))"

text \<open>The data bytes of a new pipe are whatever the page held; they are not read before they are written.\<close>

definition pipealloc :: "('a ft_scheme, (nat \<times> nat) option) kcode" where
  "pipealloc =
     bindk filealloc (\<lambda>f0.
       case f0 of
         None \<Rightarrow> pipealloc_bad None None
       | Some a \<Rightarrow>
           bindk filealloc (\<lambda>f1.
             case f1 of
               None \<Rightarrow> pipealloc_bad f0 None
             | Some b \<Rightarrow>
                 bindk kalloc (\<lambda>p.
                   if p = 0 then pipealloc_bad f0 f1
                   else
                     thenk (modk (upd_pipe p (\<lambda>_. new_pipe)))
                     (thenk (modk (initlock (PipeLock p)))
                     (thenk (modk (upd_file a (\<lambda>k. k\<lparr>f_type := FD_PIPE, f_readable := True, f_writable := False, f_pipe := p\<rparr>)))
                     (thenk (modk (upd_file b (\<lambda>k. k\<lparr>f_type := FD_PIPE, f_readable := False, f_writable := True, f_pipe := p\<rparr>)))
                     (retk (Some (a, b)))))))))"

end
