(* ===== verification/Proc_Life.thy ===== *)
theory Proc_Life
  imports File
begin

text \<open>
  The life of a process: the rest of \<open>proc.c\<close>. The trap frame and the context that \<open>allocproc\<close>
  lays out on the kernel stack page are components of the process. The user half of an address
  space is held twice, in the pages its page table maps and in \<open>umem\<close>, which the system calls
  read and write: \<open>page_out\<close> brings the pages up to date before kernel code reads them through
  the page table, and \<open>page_in\<close> takes the contents of the pages over after kernel code has
  changed the page table.
\<close>

section \<open>State\<close>

text \<open>The static flag of \<open>forkret\<close> and its address, a symbol of the linker.\<close>

record pl = ft +
  forkret_first :: bool
  forkret_addr :: u32

section \<open>User memory through the page table\<close>

definition pte_at :: "u32 \<Rightarrow> u32 \<Rightarrow> memory \<Rightarrow> u32" where
  "pte_at pd va m =
     (let pde = load32 m (pd + 4 * PDX va) in
      if present pde then load32 m (P2V (PTE_ADDR pde) + 4 * PTX va) else 0)"

definition user_view :: "u32 \<Rightarrow> memory \<Rightarrow> memory" where
  "user_view pd m va =
     (let pte = pte_at pd va m in
      if present pte then m (P2V (PTE_ADDR pte) + and va 0xFFF) else 0)"

definition page_in :: "nat \<Rightarrow> 'a pl_scheme \<Rightarrow> 'a pl_scheme" where
  "page_in p s = s\<lparr>umem := (umem s)(p := user_view (pgdir (ptable s ! p)) (kmemory (kmem s)))\<rparr>"

definition page_out :: "nat \<Rightarrow> 'a pl_scheme \<Rightarrow> 'a pl_scheme" where
  "page_out p s =
     set_mem (\<lambda>m. fold (\<lambda>va m. let pte = pte_at (pgdir (ptable s ! p)) va m in
                                   if present pte
                                   then write_bytes m (P2V (PTE_ADDR pte)) (read_bytes (umem s p) va 4096)
                                   else m)
                  (pages_between 0 (sz (ptable s ! p))) m) s"

section \<open>Creating a process\<close>

text \<open>\<open>safestrcpy(dst, src, sizeof dst)\<close> for two separate objects.\<close>

definition copy_name :: "u8 list \<Rightarrow> u8 list \<Rightarrow> u8 list" where
  "copy_name dst src =
     read_bytes (safestrcpy (write_bytes (write_bytes (\<lambda>_. 0) 0 dst) 0x1000 (take (length dst) src)) 0 0x1000
       (int (length dst))) 0 (length dst)"

definition zero_context :: context_regs where
  "zero_context = \<lparr>ctx_edi = 0, ctx_esi = 0, ctx_ebx = 0, ctx_ebp = 0, ctx_eip = 0\<rparr>"

definition allocproc :: "('a pl_scheme, nat option) kcode" where
  "allocproc =
     thenk (dok (acquire PtableLock))
     (bindk (getk (\<lambda>s. find_index (\<lambda>p. pstate p = UNUSED) (ptable s))) (\<lambda>r.
       case r of
         None \<Rightarrow> thenk (dok (release PtableLock)) (retk None)
       | Some p \<Rightarrow>
           thenk (modk (\<lambda>s. (upd_proc p (\<lambda>q. q\<lparr>pstate := EMBRYO, pid := nextpid s\<rparr>) s)\<lparr>nextpid := nextpid s + 1\<rparr>))
           (thenk (dok (release PtableLock))
           (bindk kalloc (\<lambda>stack.
             thenk (modk (upd_proc p (\<lambda>q. q\<lparr>kstack := stack\<rparr>)))
             (if stack = 0
              then thenk (modk (upd_proc p (\<lambda>q. q\<lparr>pstate := UNUSED\<rparr>))) (retk None)
              else
                thenk (modk (\<lambda>s. upd_proc p (\<lambda>q. q\<lparr>pcontext := zero_context\<lparr>ctx_eip := forkret_addr s\<rparr>\<rparr>) s))
                (retk (Some p))))))))"

text \<open>\<open>(SEG_UCODE << 3) | DPL_USER\<close>, \<open>(SEG_UDATA << 3) | DPL_USER\<close> and \<open>FL_IF\<close>.\<close>

abbreviation user_cs :: u16 where "user_cs \<equiv> 0x1B"
abbreviation user_ds :: u16 where "user_ds \<equiv> 0x23"
abbreviation FL_IF :: u32 where "FL_IF \<equiv> 0x200"

definition zero_trapframe :: trapframe where
  "zero_trapframe = \<lparr>tf_edi = 0, tf_esi = 0, tf_ebp = 0, tf_oesp = 0, tf_ebx = 0, tf_edx = 0, tf_ecx = 0,
     tf_eax = 0, tf_gs = 0, tf_fs = 0, tf_es = 0, tf_ds = 0, tf_trapno = 0, tf_err = 0, tf_eip = 0, tf_cs = 0,
     tf_eflags = 0, tf_esp = 0, tf_ss = 0\<rparr>"

text \<open>\<open>init\<close> is the binary of \<open>initcode.S\<close>, which the linker puts into the kernel.\<close>

definition userinit :: "u8 list \<Rightarrow> ('a pl_scheme, unit) kcode" where
  "userinit init =
     bindk allocproc (\<lambda>r.
     thenk (modk (\<lambda>s. s\<lparr>initproc := r\<rparr>))
     (case r of
        None \<Rightarrow> faultk
      | Some p \<Rightarrow>
          bindk setupkvm (\<lambda>d.
          thenk (modk (upd_proc p (\<lambda>q. q\<lparr>pgdir := d\<rparr>)))
          (if d = 0 then panick ''userinit: out of memory?''
           else
             thenk (dok (inituvm d init))
             (thenk (modk (page_in p))
             (thenk (modk (upd_proc p (\<lambda>q. q\<lparr>sz := PGSIZE,
                 tf := zero_trapframe\<lparr>tf_cs := user_cs, tf_ds := user_ds, tf_es := user_ds, tf_ss := user_ds,
                                      tf_eflags := FL_IF, tf_esp := PGSIZE, tf_eip := 0\<rparr>,
                 pname := copy_name (pname q) (bytes_of ''initcode'')\<rparr>)))
             (bindk (namei (bytes_of ''/'')) (\<lambda>ip.
              thenk (modk (upd_proc p (\<lambda>q. q\<lparr>cwd := ip\<rparr>)))
              (thenk (dok (acquire PtableLock))
              (thenk (modk (upd_proc p (\<lambda>q. q\<lparr>pstate := RUNNABLE\<rparr>)))
              (dok (release PtableLock))))))))))))"

text \<open>The running process, \<open>myproc()\<close> where the code dereferences the result.\<close>

definition mycur :: "('a pt_scheme, nat) kcode" where
  "mycur = bindk myproc (\<lambda>r. case r of None \<Rightarrow> faultk | Some p \<Rightarrow> retk p)"

definition growproc :: "int \<Rightarrow> ('a pl_scheme, int) kcode" where
  "growproc n =
     bindk mycur (\<lambda>p.
     thenk (modk (page_out p))
     (bindk (getk (\<lambda>s. ptable s ! p)) (\<lambda>q.
      bindk (if n > 0 then allocuvm (pgdir q) (sz q) (sz q + word_of_int n)
             else if n < 0 then deallocuvm (pgdir q) (sz q) (sz q + word_of_int n)
             else retk (sz q)) (\<lambda>z.
        if z = 0 \<and> n \<noteq> 0 then retk (-1)
        else
          thenk (modk (upd_proc p (\<lambda>q. q\<lparr>sz := z\<rparr>)))
          (thenk (modk (page_in p))
          (thenk (dok (switchuvm (Some p)))
          (retk 0)))))))"

definition fork :: "('a pl_scheme, int) kcode" where
  "fork =
     bindk mycur (\<lambda>p.
     bindk allocproc (\<lambda>r.
       case r of
         None \<Rightarrow> retk (-1)
       | Some np \<Rightarrow>
           thenk (modk (page_out p))
           (bindk (getk (\<lambda>s. ptable s ! p)) (\<lambda>q.
            bindk (copyuvm (pgdir q) (sz q)) (\<lambda>d.
            thenk (modk (upd_proc np (\<lambda>k. k\<lparr>pgdir := d\<rparr>)))
            (if d = 0
             then
               bindk (getk (\<lambda>s. kstack (ptable s ! np))) (\<lambda>stack.
               thenk (dok (kfree stack))
               (thenk (modk (upd_proc np (\<lambda>k. k\<lparr>kstack := 0, pstate := UNUSED\<rparr>)))
               (retk (-1))))
             else
               thenk (modk (page_in np))
               (thenk (modk (upd_proc np (\<lambda>k. k\<lparr>sz := sz q, parent := Some p, tf := (tf q)\<lparr>tf_eax := 0\<rparr>\<rparr>)))
               (thenk (foreachk (\<lambda>i. case ofile q ! i of
                                       None \<Rightarrow> retk ()
                                     | Some f \<Rightarrow> bindk (filedup f) (\<lambda>g.
                                         modk (upd_proc np (\<lambda>k. k\<lparr>ofile := (ofile k)[i := Some g]\<rparr>)))) [0..<NOFILE])
               (case cwd q of
                  None \<Rightarrow> faultk
                | Some ip \<Rightarrow>
                    bindk (idup ip) (\<lambda>c.
                    thenk (modk (upd_proc np (\<lambda>k. k\<lparr>cwd := Some c, pname := copy_name (pname k) (pname q)\<rparr>)))
                    (bindk (getk (\<lambda>s. pid (ptable s ! np))) (\<lambda>i.
                     thenk (dok (acquire PtableLock))
                     (thenk (modk (upd_proc np (\<lambda>k. k\<lparr>pstate := RUNNABLE\<rparr>)))
                     (thenk (dok (release PtableLock))
                     (retk i)))))))))))))))"

definition forkret :: "('a pl_scheme, unit) kcode" where
  "forkret =
     thenk (dok (release PtableLock))
     (bindk (getk forkret_first) (\<lambda>fst'.
       if fst'
       then
         thenk (modk (\<lambda>s. s\<lparr>forkret_first := False\<rparr>))
         (thenk (iinit ROOTDEV)
         (initlog ROOTDEV))
       else retk ()))"

section \<open>Ending a process\<close>

definition wakeup_opt :: "nat option \<Rightarrow> 'a pt_scheme \<Rightarrow> 'a pt_scheme" where
  "wakeup_opt p s = (case p of None \<Rightarrow> s | Some i \<Rightarrow> wakeup1 (ProcChan i) s)"

text \<open>Abandoned children of \<open>p\<close> go to \<open>init\<close>, which is woken for those that have ended.\<close>

definition abandon :: "nat \<Rightarrow> nat \<Rightarrow> 'a pt_scheme \<Rightarrow> 'a pt_scheme" where
  "abandon p i s =
     (if parent (ptable s ! i) = Some p
      then
        let s1 = upd_proc i (\<lambda>k. k\<lparr>parent := initproc s\<rparr>) s in
        if pstate (ptable s1 ! i) = ZOMBIE then wakeup_opt (initproc s1) s1 else s1
      else s)"

text \<open>\<open>exit\<close> up to the switch to the scheduler, from which it does not come back.\<close>

definition exit :: "('a pl_scheme, unit) kcode" where
  "exit =
     bindk mycur (\<lambda>p.
     bindk (getk initproc) (\<lambda>ip.
       if ip = Some p then panick ''init exiting''
       else
         thenk (foreachk (\<lambda>fd.
                  bindk (getk (\<lambda>s. ofile (ptable s ! p) ! fd)) (\<lambda>f.
                    case f of
                      None \<Rightarrow> retk ()
                    | Some g \<Rightarrow>
                        thenk (fileclose g)
                        (modk (upd_proc p (\<lambda>k. k\<lparr>ofile := (ofile k)[fd := None]\<rparr>))))) [0..<NOFILE])
         (thenk begin_op
         (bindk (getk (\<lambda>s. cwd (ptable s ! p))) (\<lambda>c.
          thenk (case c of None \<Rightarrow> faultk | Some i \<Rightarrow> iput i)
          (thenk end_op
          (thenk (modk (upd_proc p (\<lambda>k. k\<lparr>cwd := None\<rparr>)))
          (thenk (dok (closeprocsocks (Some p)))
          (thenk (dok (acquire PtableLock))
          (thenk (modk (\<lambda>s. wakeup_opt (parent (ptable s ! p)) s))
          (thenk (modk (\<lambda>s. fold (abandon p) [0..<length (ptable s)] s))
          (thenk (modk (upd_proc p (\<lambda>k. k\<lparr>pstate := ZOMBIE\<rparr>)))
          (bindk sched (\<lambda>_. retk ()))))))))))))))"

text \<open>The rest of \<open>wait\<close> from the start of its loop, with the process table locked.\<close>

definition wait_tail :: "nat \<Rightarrow> ('a pl_scheme, (int, bool) blocking) kcode" where
  "wait_tail p =
     bindk (getk ptable) (\<lambda>ps.
       case find_index (\<lambda>q. parent q = Some p \<and> pstate q = ZOMBIE) ps of
         Some i \<Rightarrow>
           thenk (dok (kfree (kstack (ps ! i))))
           (thenk (modk (upd_proc i (\<lambda>k. k\<lparr>kstack := 0\<rparr>)))
           (thenk (dok (freevm (pgdir (ps ! i))))
           (thenk (modk (upd_proc i (\<lambda>k. k\<lparr>pid := 0, parent := None, pname := (pname k)[0 := 0], killed := False,
                                           pstate := UNUSED\<rparr>)))
           (thenk (dok (release PtableLock))
           (retk (Return (pid (ps ! i))))))))
       | None \<Rightarrow>
           if \<not> (\<exists>q\<in>set ps. parent q = Some p) \<or> killed (ps ! p)
           then thenk (dok (release PtableLock)) (retk (Return (-1)))
           else bindk (sleep (ProcChan p) (Some PtableLock)) (\<lambda>ie. retk (Sleeps ie)))"

definition wait :: "('a pl_scheme, (int, bool) blocking) kcode" where
  "wait =
     bindk mycur (\<lambda>p.
     thenk (dok (acquire PtableLock))
     (wait_tail p))"

definition wait_resume :: "nat \<Rightarrow> bool \<Rightarrow> ('a pl_scheme, (int, bool) blocking) kcode" where
  "wait_resume p ie = thenk (dok (sleep_return ie p PtableLock)) (wait_tail p)"

end
