(* ===== verification/Exec.thy ===== *)
theory Exec
  imports Proc_Life
begin

text \<open>
  Loading a program: \<open>loaduvm\<close> of \<open>vm.c\<close>, the executable format of \<open>elf.h\<close>, and \<open>exec\<close> of
  \<open>exec.c\<close>. The path and the arguments, which are in the memory of the calling process, are given
  as the strings they are; that memory does not change before the new image replaces it.
\<close>

section \<open>Executable files\<close>

text \<open>The fields of \<open>struct elfhdr\<close> and \<open>struct proghdr\<close> that are used, at their offsets.\<close>

abbreviation ELF_MAGIC :: u32 where "ELF_MAGIC \<equiv> 0x464C457F"
abbreviation ELF_PROG_LOAD :: u32 where "ELF_PROG_LOAD \<equiv> 1"
abbreviation sizeof_elfhdr :: nat where "sizeof_elfhdr \<equiv> 52"
abbreviation sizeof_proghdr :: nat where "sizeof_proghdr \<equiv> 32"

record elfhdr =
  e_magic :: u32
  e_entry :: u32
  e_phoff :: u32
  e_phnum :: u16

definition decode_elfhdr :: "u8 list \<Rightarrow> elfhdr" where
  "decode_elfhdr bs = \<lparr>e_magic = get32 bs 0, e_entry = get32 bs 24, e_phoff = get32 bs 28, e_phnum = get16 bs 44\<rparr>"

record proghdr =
  ph_type :: u32
  ph_off :: u32
  ph_vaddr :: u32
  ph_filesz :: u32
  ph_memsz :: u32

definition decode_proghdr :: "u8 list \<Rightarrow> proghdr" where
  "decode_proghdr bs = \<lparr>ph_type = get32 bs 0, ph_off = get32 bs 4, ph_vaddr = get32 bs 8,
     ph_filesz = get32 bs 16, ph_memsz = get32 bs 20\<rparr>"

section \<open>Loading\<close>

text \<open>One page of \<open>loaduvm\<close>, at offset \<open>i\<close> of the segment.\<close>

definition loaduvm_page :: "u32 \<Rightarrow> u32 \<Rightarrow> nat \<Rightarrow> u32 \<Rightarrow> u32 \<Rightarrow> u32 \<Rightarrow> ('a pl_scheme, unit option) kcode" where
  "loaduvm_page pd addr ip offset sz' i =
     bindk (walkpgdir pd (addr + i) False) (\<lambda>pte.
       if pte = 0 then panick ''loaduvm: address should exist''
       else
         bindk (getk (\<lambda>s. PTE_ADDR (kload pte s))) (\<lambda>pa.
           let n = (if sz' - i < PGSIZE then sz' - i else PGSIZE) in
           bindk (readi ip (offset + i) n) (\<lambda>r.
             case r of
               None \<Rightarrow> retk (Some ())
             | Some bs \<Rightarrow>
                 thenk (modk (set_mem (\<lambda>m. write_bytes m (P2V pa) bs)))
                 (retk (if length bs = unat n then None else Some ())))))"

definition loaduvm :: "u32 \<Rightarrow> u32 \<Rightarrow> nat \<Rightarrow> u32 \<Rightarrow> u32 \<Rightarrow> ('a pl_scheme, bool) kcode" where
  "loaduvm pd addr ip offset sz' =
     (if addr mod PGSIZE \<noteq> 0 then panick ''loaduvm: addr must be page aligned''
      else bindk (findk (loaduvm_page pd addr ip offset sz') (pages_between 0 sz')) (\<lambda>r. retk (r = None)))"

text \<open>One program header of \<open>exec\<close> at file offset \<open>off\<close>: the new size, or \<open>None\<close> for \<open>bad\<close>.\<close>

definition exec_segment :: "nat \<Rightarrow> u32 \<Rightarrow> u32 \<Rightarrow> u32 \<Rightarrow> ('a pl_scheme, u32 option) kcode" where
  "exec_segment ip pd off sz' =
     bindk (readi ip off (word_of_nat sizeof_proghdr)) (\<lambda>r.
       case r of
         None \<Rightarrow> retk None
       | Some bs \<Rightarrow>
           if length bs \<noteq> sizeof_proghdr then retk None
           else
             let ph = decode_proghdr bs in
             if ph_type ph \<noteq> ELF_PROG_LOAD then retk (Some sz')
             else if ph_memsz ph < ph_filesz ph then retk None
             else if ph_vaddr ph + ph_memsz ph < ph_vaddr ph then retk None
             else
               bindk (allocuvm pd sz' (ph_vaddr ph + ph_memsz ph)) (\<lambda>z.
                 if z = 0 then retk None
                 else if ph_vaddr ph mod PGSIZE \<noteq> 0 then retk None
                 else
                   bindk (loaduvm pd (ph_vaddr ph) ip (ph_off ph) (ph_filesz ph)) (\<lambda>ok.
                   retk (if ok then Some z else None))))"

fun exec_segments :: "nat \<Rightarrow> u32 \<Rightarrow> nat \<Rightarrow> u32 \<Rightarrow> u32 \<Rightarrow> ('a pl_scheme, u32 option) kcode" where
  "exec_segments ip pd 0 off sz' = retk (Some sz')"
| "exec_segments ip pd (Suc n) off sz' =
     bindk (exec_segment ip pd off sz') (\<lambda>r.
       case r of
         None \<Rightarrow> retk None
       | Some z \<Rightarrow> exec_segments ip pd n (off + word_of_nat sizeof_proghdr) z)"

section \<open>The stack of the new image\<close>

abbreviation MAXARG :: nat where "MAXARG \<equiv> 32"

text \<open>
  The loop that pushes the argument strings: \<open>sp\<close> and the addresses of the strings so far; \<open>None\<close>
  for \<open>bad\<close>.
\<close>

fun exec_args :: "u32 \<Rightarrow> u8 list list \<Rightarrow> u32 \<Rightarrow> u32 list \<Rightarrow> ('a pl_scheme, (u32 \<times> u32 list) option) kcode" where
  "exec_args pd [] sp us = retk (Some (sp, us))"
| "exec_args pd (a # as) sp us =
     (if length us \<ge> MAXARG then retk None
      else
        let sp1 = and (sp - word_of_nat (length a + 1)) (not 3) in
        bindk (copyout pd sp1 (a @ [0])) (\<lambda>ok.
          if \<not> ok then retk None else exec_args pd as sp1 (us @ [sp1])))"

definition exec_ustack :: "u32 \<Rightarrow> u32 list \<Rightarrow> u32 list" where
  "exec_ustack sp us =
     (let argc = word_of_nat (length us) in
      [0xFFFFFFFF, argc, sp - (argc + 1) * 4] @ us @ [0])"

text \<open>The four bytes of a word in memory.\<close>

definition word_bytes :: "u32 \<Rightarrow> u8 list" where
  "word_bytes w = [ucast w, ucast (drop_bit 8 w), ucast (drop_bit 16 w), ucast (drop_bit 24 w)]"

text \<open>The code after the program is loaded; \<open>None\<close> for \<open>bad\<close>, else the size and the stack pointer.\<close>

definition exec_stack :: "u32 \<Rightarrow> u32 \<Rightarrow> u8 list list \<Rightarrow> ('a pl_scheme, (u32 \<times> u32) option) kcode" where
  "exec_stack pd sz0 argv =
     (let sz1 = PGROUNDUP sz0 in
      bindk (allocuvm pd sz1 (sz1 + 2 * PGSIZE)) (\<lambda>sz2.
        if sz2 = 0 then retk None
        else
          thenk (dok (clearpteu pd (sz2 - 2 * PGSIZE)))
          (bindk (exec_args pd argv sz2 []) (\<lambda>r.
            case r of
              None \<Rightarrow> retk None
            | Some (sp, us) \<Rightarrow>
                let ustack = exec_ustack sp us; sp1 = sp - word_of_nat (4 * length ustack) in
                bindk (copyout pd sp1 (concat (map word_bytes ustack))) (\<lambda>ok.
                retk (if ok then Some (sz2, sp1) else None))))))"

text \<open>The part of the path after its last slash.\<close>

definition last_elem :: "u8 list \<Rightarrow> u8 list" where
  "last_elem path = rev (takeWhile (\<lambda>c. c \<noteq> slash) (rev path))"

section \<open>The system call\<close>

definition exec_bad :: "u32 \<Rightarrow> nat option \<Rightarrow> ('a pl_scheme, int) kcode" where
  "exec_bad pd ip =
     thenk (if pd \<noteq> 0 then dok (freevm pd) else retk ())
     (thenk (case ip of None \<Rightarrow> retk () | Some i \<Rightarrow> thenk (iunlockput i) end_op)
     (retk (-1)))"

definition exec_commit :: "nat \<Rightarrow> u8 list \<Rightarrow> u32 \<Rightarrow> u32 \<Rightarrow> u32 \<Rightarrow> u32 \<Rightarrow> ('a pl_scheme, int) kcode" where
  "exec_commit p path pd sz' entry' sp =
     thenk (modk (upd_proc p (\<lambda>q. q\<lparr>pname := copy_name (pname q) (last_elem path)\<rparr>)))
     (bindk (getk (\<lambda>s. pgdir (ptable s ! p))) (\<lambda>oldpgdir.
      thenk (modk (upd_proc p (\<lambda>q. q\<lparr>pgdir := pd, sz := sz', tf := (tf q)\<lparr>tf_eip := entry', tf_esp := sp\<rparr>\<rparr>)))
      (thenk (modk (page_in p))
      (thenk (dok (switchuvm (Some p)))
      (thenk (dok (freevm oldpgdir))
      (retk 0))))))"

definition exec :: "u8 list \<Rightarrow> u8 list list \<Rightarrow> ('a pl_scheme, int) kcode" where
  "exec path argv =
     bindk mycur (\<lambda>p.
     thenk begin_op
     (bindk (namei path) (\<lambda>r.
       case r of
         None \<Rightarrow> thenk end_op (thenk (cprintf (''exec: fail'' @ [CHR 0x0A]) []) (retk (-1)))
       | Some ip \<Rightarrow>
           thenk (ilock (Some ip))
           (bindk (readi ip 0 (word_of_nat sizeof_elfhdr)) (\<lambda>h.
             case h of
               None \<Rightarrow> exec_bad 0 (Some ip)
             | Some bs \<Rightarrow>
                 let elf = decode_elfhdr bs in
                 if length bs \<noteq> sizeof_elfhdr \<or> e_magic elf \<noteq> ELF_MAGIC then exec_bad 0 (Some ip)
                 else
                   bindk setupkvm (\<lambda>pd.
                     if pd = 0 then exec_bad 0 (Some ip)
                     else
                       bindk (exec_segments ip pd (unat (e_phnum elf)) (e_phoff elf) 0) (\<lambda>z.
                         case z of
                           None \<Rightarrow> exec_bad pd (Some ip)
                         | Some sz0 \<Rightarrow>
                             thenk (iunlockput ip)
                             (thenk end_op
                             (bindk (exec_stack pd sz0 argv) (\<lambda>st.
                               case st of
                                 None \<Rightarrow> exec_bad pd None
                               | Some (sz2, sp) \<Rightarrow> exec_commit p path pd sz2 (e_entry elf) sp))))))))))"

end
