(* ===== verification/Syscall_Args.thy ===== *)
theory Syscall_Args
  imports Settled
begin

text \<open>
  The arguments of a system call: \<open>fetchint\<close>, \<open>fetchstr\<close>, \<open>argint\<close>, \<open>argptr\<close> and \<open>argstr\<close>
  of \<open>syscall.c\<close>. A function that returns -1 is modelled as returning \<open>None\<close>; a pointer
  argument comes back as an address in user memory. The lemmas show that what is accepted
  lies in the memory of the process.
\<close>

section \<open>Definitions\<close>

definition fetchint :: "u32 \<Rightarrow> 'a pt_scheme \<Rightarrow> (u32 option \<times> 'a pt_scheme) outcome" where
  "fetchint addr s =
     andthen (myproc s) (\<lambda>(p, s1).
       case p of
         None \<Rightarrow> Fault
       | Some i \<Rightarrow>
           let z = sz (ptable s1 ! i) in
           if addr \<ge> z \<or> addr + 4 > z then Ok (None, s1)
           else Ok (Some (load32 (umem s1 i) addr), s1))"

text \<open>The scan for the end of the string: \<open>n\<close> bytes are left before \<open>ep\<close>.\<close>

fun fetchstr_scan :: "memory \<Rightarrow> u32 \<Rightarrow> nat \<Rightarrow> nat option" where
  "fetchstr_scan m a 0 = None"
| "fetchstr_scan m a (Suc n) =
     (if m a = 0 then Some 0 else map_option Suc (fetchstr_scan m (a + 1) n))"

definition fetchstr :: "u32 \<Rightarrow> 'a pt_scheme \<Rightarrow> ((u32 \<times> nat) option \<times> 'a pt_scheme) outcome" where
  "fetchstr addr s =
     andthen (myproc s) (\<lambda>(p, s1).
       case p of
         None \<Rightarrow> Fault
       | Some i \<Rightarrow>
           let z = sz (ptable s1 ! i) in
           if addr \<ge> z then Ok (None, s1)
           else Ok (map_option (\<lambda>n. (addr, n)) (fetchstr_scan (umem s1 i) addr (unat z - unat addr)), s1))"

definition argint :: "nat \<Rightarrow> 'a pt_scheme \<Rightarrow> (u32 option \<times> 'a pt_scheme) outcome" where
  "argint n s =
     andthen (myproc s) (\<lambda>(p, s1).
       case p of
         None \<Rightarrow> Fault
       | Some i \<Rightarrow> fetchint (tf_esp (tf (ptable s1 ! i)) + 4 + 4 * word_of_nat n) s1)"

definition argptr :: "nat \<Rightarrow> int \<Rightarrow> 'a pt_scheme \<Rightarrow> (u32 option \<times> 'a pt_scheme) outcome" where
  "argptr n size' s =
     andthen (myproc s) (\<lambda>(p, s1).
     andthen (argint n s1) (\<lambda>(v, s2).
       case v of
         None \<Rightarrow> Ok (None, s2)
       | Some i \<Rightarrow>
          (case p of
             None \<Rightarrow> Fault
           | Some q \<Rightarrow>
               let z = sz (ptable s2 ! q) in
               if size' < 0 \<or> i \<ge> z \<or> i + word_of_int size' > z then Ok (None, s2)
               else Ok (Some i, s2))))"

definition argstr :: "nat \<Rightarrow> 'a pt_scheme \<Rightarrow> ((u32 \<times> nat) option \<times> 'a pt_scheme) outcome" where
  "argstr n s =
     andthen (argint n s) (\<lambda>(v, s1).
       case v of
         None \<Rightarrow> Ok (None, s1)
       | Some addr \<Rightarrow> fetchstr addr s1)"

section \<open>Arguments of the running process\<close>

text \<open>The \<open>n\<close>-th word of the system call, when it lies in the memory of process \<open>p\<close>.\<close>

definition arg_word :: "nat \<Rightarrow> nat \<Rightarrow> 'a pt_scheme \<Rightarrow> u32 option" where
  "arg_word p n s =
     (let a = tf_esp (tf (ptable s ! p)) + 4 + 4 * word_of_nat n; z = sz (ptable s ! p) in
      if a \<ge> z \<or> a + 4 > z then None else Some (load32 (umem s p) a))"

definition arg_string :: "nat \<Rightarrow> nat \<Rightarrow> 'a pt_scheme \<Rightarrow> (u32 \<times> nat) option" where
  "arg_string p n s =
     (case arg_word p n s of
        None \<Rightarrow> None
      | Some a \<Rightarrow> if a \<ge> sz (ptable s ! p) then None
         else map_option (\<lambda>k. (a, k)) (fetchstr_scan (umem s p) a (unat (sz (ptable s ! p)) - unat a)))"

definition arg_block :: "nat \<Rightarrow> nat \<Rightarrow> int \<Rightarrow> 'a pt_scheme \<Rightarrow> u32 option" where
  "arg_block p n size' s =
     (case arg_word p n s of
        None \<Rightarrow> None
      | Some a \<Rightarrow> if size' < 0 \<or> a \<ge> sz (ptable s ! p) \<or> a + word_of_int size' > sz (ptable s ! p)
                  then None else Some a)"

lemma argint_ok:
  assumes "cpu_ok s" "curproc s = Some p"
  shows "argint n s = Ok (arg_word p n s, touched s)"
  using assms by (simp add: argint_def fetchint_def arg_word_def myproc_ok Let_def touched_touched)

lemma argstr_ok:
  assumes "cpu_ok s" "curproc s = Some p"
  shows "argstr n s = Ok (arg_string p n s, touched s)"
  using assms by (simp add: argstr_def argint_ok fetchstr_def arg_string_def myproc_ok Let_def touched_touched
      split: option.split)

lemma arg_word_touched [simp]: "arg_word p n (touched s) = arg_word p n s"
  "arg_string p n (touched s) = arg_string p n s" "arg_block p n k (touched s) = arg_block p n k s"
  by (simp_all add: arg_word_def arg_string_def arg_block_def Let_def split: option.split)

lemma argptr_ok:
  assumes "cpu_ok s" "curproc s = Some p"
  shows "argptr n k s = Ok (arg_block p n k s, touched s)"
  using assms by (simp add: argptr_def argint_ok arg_block_def myproc_ok Let_def touched_touched
      split: option.split)

text \<open>What the scan finds is the length of the string, and the end lies before \<open>ep\<close>.\<close>

lemma fetchstr_scan_Some:
  "fetchstr_scan m a n = Some k \<Longrightarrow> k < n \<and> strlen (at m a) = Some k"
proof (induction n arbitrary: a k)
  case 0
  then show ?case by simp
next
  case (Suc n)
  show ?case
  proof (cases "m a = 0")
    case True
    with Suc.prems show ?thesis by (simp add: strlen_Some_iff at_def)
  next
    case False
    with Suc.prems obtain j where j: "k = Suc j" "fetchstr_scan m (a + 1) n = Some j" by auto
    moreover have "(\<lambda>i. at m a (Suc i)) = at m (a + 1)" by (simp add: fun_eq_iff at_Suc)
    moreover have "at m a 0 \<noteq> 0" using False by (simp add: at_def)
    ultimately show ?thesis
      using Suc.IH [OF j(2)] strlen_Suc [of "at m a" j] by simp
  qed
qed

lemma fetchstr_scan_None:
  "fetchstr_scan m a n = None \<longleftrightarrow> (\<forall>i<n. at m a i \<noteq> 0)"
  by (induction n arbitrary: a) (auto simp: All_less_Suc2 at_Suc, simp_all add: at_def)

end
