(* ===== verification/Sysfile.thy ===== *)
theory Sysfile
  imports Exec Syscall_Args
begin

text \<open>
  The file system calls, \<open>sysfile.c\<close>. A path argument is the string at the address that \<open>argstr\<close>
  accepts in the memory of the calling process. An error return is -1.
\<close>

section \<open>Arguments\<close>

text \<open>A string argument as a string, and \<open>argfd\<close>: the descriptor and the open file.\<close>

definition argpath :: "nat \<Rightarrow> ('a pl_scheme, u8 list option) kcode" where
  "argpath n =
     bindk (argstr n) (\<lambda>r.
       case r of
         None \<Rightarrow> retk None
       | Some (a, k) \<Rightarrow> bindk mycur (\<lambda>p. getk (\<lambda>s. Some (read_bytes (umem s p) a k))))"

definition argfd :: "nat \<Rightarrow> ('a pl_scheme, (nat \<times> nat) option) kcode" where
  "argfd n =
     bindk (argint n) (\<lambda>r.
       case r of
         None \<Rightarrow> retk None
       | Some w \<Rightarrow>
           if sint w < 0 \<or> sint w \<ge> int NOFILE then retk None
           else
             bindk mycur (\<lambda>p.
             getk (\<lambda>s. map_option (\<lambda>f. (nat (sint w), f)) (ofile (ptable s ! p) ! nat (sint w)))))"

definition fdalloc :: "nat \<Rightarrow> ('a pl_scheme, nat option) kcode" where
  "fdalloc f =
     bindk mycur (\<lambda>p.
     bindk (getk (\<lambda>s. find_index (\<lambda>g. g = None) (ofile (ptable s ! p)))) (\<lambda>r.
       case r of
         None \<Rightarrow> retk None
       | Some fd \<Rightarrow> thenk (modk (upd_proc p (\<lambda>q. q\<lparr>ofile := (ofile q)[fd := Some f]\<rparr>))) (retk (Some fd))))"

section \<open>Descriptors\<close>

definition sys_dup :: "('a pl_scheme, int) kcode" where
  "sys_dup =
     bindk (argfd 0) (\<lambda>r.
       case r of
         None \<Rightarrow> retk (-1)
       | Some (_, f) \<Rightarrow>
           bindk (fdalloc f) (\<lambda>d.
             case d of
               None \<Rightarrow> retk (-1)
             | Some fd \<Rightarrow> thenk (filedup f) (retk (int fd))))"

text \<open>The arguments of \<open>read\<close> and \<open>write\<close>: the file, the buffer and its length.\<close>

definition argrw :: "('a pl_scheme, (nat \<times> u32 \<times> int) option) kcode" where
  "argrw =
     bindk (argfd 0) (\<lambda>r.
       case r of
         None \<Rightarrow> retk None
       | Some (_, f) \<Rightarrow>
           bindk (argint 2) (\<lambda>n.
             case n of
               None \<Rightarrow> retk None
             | Some w \<Rightarrow>
                 bindk (argptr 1 (sint w)) (\<lambda>a.
                 retk (map_option (\<lambda>a. (f, a, sint w)) a))))"

definition sys_read :: "('a pl_scheme, (int, pipe_cont) blocking) kcode" where
  "sys_read =
     bindk argrw (\<lambda>r. case r of None \<Rightarrow> retk (Return (-1)) | Some (f, a, n) \<Rightarrow> fileread f a n)"

definition sys_write :: "('a pl_scheme, (int, pipe_cont) blocking) kcode" where
  "sys_write =
     bindk argrw (\<lambda>r. case r of None \<Rightarrow> retk (Return (-1)) | Some (f, a, n) \<Rightarrow> filewrite f a n)"

definition sys_close :: "('a pl_scheme, int) kcode" where
  "sys_close =
     bindk (argfd 0) (\<lambda>r.
       case r of
         None \<Rightarrow> retk (-1)
       | Some (fd, f) \<Rightarrow>
           bindk mycur (\<lambda>p.
           thenk (modk (upd_proc p (\<lambda>q. q\<lparr>ofile := (ofile q)[fd := None]\<rparr>)))
           (thenk (fileclose f)
           (retk 0))))"

text \<open>\<open>struct stat\<close> at address \<open>a\<close>, field by field; the padding keeps its value.\<close>

definition store_stat :: "u32 \<Rightarrow> stat \<Rightarrow> ('a pl_scheme, unit) kcode" where
  "store_stat a st =
     thenk (store_user a (take 2 (word_bytes (ucast (st_type st)))))
     (thenk (store_user (a + 4) (word_bytes (st_dev st)))
     (thenk (store_user (a + 8) (word_bytes (st_ino st)))
     (thenk (store_user (a + 12) (take 2 (word_bytes (ucast (st_nlink st)))))
     (store_user (a + 16) (word_bytes (st_size st))))))"

definition sys_fstat :: "('a pl_scheme, int) kcode" where
  "sys_fstat =
     bindk (argfd 0) (\<lambda>r.
       case r of
         None \<Rightarrow> retk (-1)
       | Some (_, f) \<Rightarrow>
           bindk (argptr 1 20) (\<lambda>a.
             case a of
               None \<Rightarrow> retk (-1)
             | Some st \<Rightarrow>
                 bindk (filestat f) (\<lambda>v.
                   case v of None \<Rightarrow> retk (-1) | Some x \<Rightarrow> thenk (store_stat st x) (retk 0))))"

section \<open>Links\<close>

definition add_nlink :: "nat \<Rightarrow> u16 \<Rightarrow> ('a pl_scheme, unit) kcode" where
  "add_nlink ip d = thenk (upd_inode ip (\<lambda>i. i\<lparr>i_nlink := i_nlink i + d\<rparr>)) (iupdate ip)"

definition sys_link_bad :: "nat \<Rightarrow> ('a pl_scheme, int) kcode" where
  "sys_link_bad ip =
     thenk (ilock (Some ip))
     (thenk (add_nlink ip (-1))
     (thenk (iunlockput ip)
     (thenk end_op
     (retk (-1)))))"

text \<open>\<open>end_op(); return -1\<close>, and the same after \<open>iunlockput(ip)\<close>.\<close>

definition op_failed :: "('a pl_scheme, int) kcode" where
  "op_failed = thenk end_op (retk (-1))"

definition put_failed :: "nat \<Rightarrow> ('a pl_scheme, int) kcode" where
  "put_failed ip = thenk (iunlockput ip) op_failed"

definition sys_link_new :: "nat \<Rightarrow> u8 list \<Rightarrow> ('a pl_scheme, int) kcode" where
  "sys_link_new ip new =
     bindk (nameiparent new) (\<lambda>r.
       case r of
         None \<Rightarrow> sys_link_bad ip
       | Some (dp, nm) \<Rightarrow>
           thenk (ilock (Some dp))
           (bindk (getk (\<lambda>s. (inode_at dp s, inode_at ip s))) (\<lambda>(d, i).
            bindk (if i_dev d \<noteq> i_dev i then retk (-1) else dirlink dp nm (i_inum i)) (\<lambda>v.
              thenk (iunlockput dp)
              (if v < 0 then sys_link_bad ip
               else thenk (iput ip) (thenk end_op (retk 0)))))))"

definition sys_link :: "('a pl_scheme, int) kcode" where
  "sys_link =
     bindk (argpath 0) (\<lambda>r0.
       case r0 of
         None \<Rightarrow> retk (-1)
       | Some old \<Rightarrow>
           bindk (argpath 1) (\<lambda>r1.
             case r1 of
               None \<Rightarrow> retk (-1)
             | Some new \<Rightarrow>
                 thenk begin_op
                 (bindk (namei old) (\<lambda>r.
                   case r of
                     None \<Rightarrow> op_failed
                   | Some ip \<Rightarrow>
                       thenk (ilock (Some ip))
                       (bindk (getk (inode_at ip)) (\<lambda>i.
                         if i_type i = T_DIR then put_failed ip
                         else
                           thenk (add_nlink ip 1)
                           (thenk (iunlock (Some ip))
                           (sys_link_new ip new))))))))"

text \<open>Is the directory empty except for its first two entries?\<close>

definition isdirempty :: "nat \<Rightarrow> ('a pl_scheme, bool) kcode" where
  "isdirempty dp =
     bindk (getk (inode_at dp)) (\<lambda>d.
     bindk (findk (\<lambda>off.
              bindk (readi dp (word_of_nat off) 16) (\<lambda>r.
                case r of
                  None \<Rightarrow> panick ''isdirempty: readi''
                | Some de \<Rightarrow>
                    if length de \<noteq> 16 then panick ''isdirempty: readi''
                    else retk (if dirent_inum de \<noteq> 0 then Some () else None)))
            (drop 2 (dirent_offsets (i_size d)))) (\<lambda>r.
     retk (r = None)))"

definition sys_unlink_entry :: "nat \<Rightarrow> nat \<Rightarrow> nat \<Rightarrow> ('a pl_scheme, int) kcode" where
  "sys_unlink_entry dp ip off =
     bindk (writei dp (replicate 16 0) (word_of_nat off)) (\<lambda>r.
       if r \<noteq> 16 then panick ''unlink: writei''
       else
         bindk (getk (inode_at ip)) (\<lambda>i.
         thenk (if i_type i = T_DIR then add_nlink dp (-1) else retk ())
         (thenk (iunlockput dp)
         (thenk (add_nlink ip (-1))
         (thenk (iunlockput ip)
         (thenk end_op
         (retk 0)))))))"

definition sys_unlink :: "('a pl_scheme, int) kcode" where
  "sys_unlink =
     bindk (argpath 0) (\<lambda>r0.
       case r0 of
         None \<Rightarrow> retk (-1)
       | Some path \<Rightarrow>
           thenk begin_op
           (bindk (nameiparent path) (\<lambda>r.
             case r of
               None \<Rightarrow> op_failed
             | Some (dp, nm) \<Rightarrow>
                 thenk (ilock (Some dp))
                 (if namecmp nm (bytes_of ''.'') = 0 \<or> namecmp nm (bytes_of ''..'') = 0 then put_failed dp
                  else
                    bindk (dirlookup dp nm) (\<lambda>l.
                      case l of
                        None \<Rightarrow> put_failed dp
                      | Some (ip, off) \<Rightarrow>
                          thenk (ilock (Some ip))
                          (bindk (getk (inode_at ip)) (\<lambda>i.
                            if sint (i_nlink i) < 1 then panick ''unlink: nlink < 1''
                            else
                              bindk (if i_type i = T_DIR then isdirempty ip else retk True) (\<lambda>e.
                                if \<not> e then thenk (iunlockput ip) (put_failed dp)
                                else sys_unlink_entry dp ip off))))))))"

section \<open>Creating and opening\<close>

definition create_new :: "nat \<Rightarrow> u8 list \<Rightarrow> u16 \<Rightarrow> u16 \<Rightarrow> u16 \<Rightarrow> ('a pl_scheme, nat option) kcode" where
  "create_new dp nm type' major minor =
     bindk (getk (inode_at dp)) (\<lambda>d.
     bindk (ialloc (i_dev d) type') (\<lambda>ip.
     thenk (ilock (Some ip))
     (thenk (upd_inode ip (\<lambda>i. i\<lparr>i_major := major, i_minor := minor, i_nlink := 1\<rparr>))
     (thenk (iupdate ip)
     (bindk (getk (\<lambda>s. i_inum (inode_at ip s))) (\<lambda>inum.
      thenk (if type' = T_DIR
             then
               thenk (add_nlink dp 1)
               (bindk (dirlink ip (bytes_of ''.'') inum) (\<lambda>v.
                bindk (if v < 0 then retk v else dirlink ip (bytes_of ''..'') (i_inum d)) (\<lambda>w.
                if w < 0 then panick ''create dots'' else retk ())))
             else retk ())
      (bindk (dirlink dp nm inum) (\<lambda>v.
        if v < 0 then panick ''create: dirlink''
        else thenk (iunlockput dp) (retk (Some ip))))))))))"

definition create :: "u8 list \<Rightarrow> u16 \<Rightarrow> u16 \<Rightarrow> u16 \<Rightarrow> ('a pl_scheme, nat option) kcode" where
  "create path type' major minor =
     bindk (nameiparent path) (\<lambda>r.
       case r of
         None \<Rightarrow> retk None
       | Some (dp, nm) \<Rightarrow>
           thenk (ilock (Some dp))
           (bindk (dirlookup dp nm) (\<lambda>l.
             case l of
               Some (ip, _) \<Rightarrow>
                 thenk (iunlockput dp)
                 (thenk (ilock (Some ip))
                 (bindk (getk (inode_at ip)) (\<lambda>i.
                   if type' = T_FILE \<and> i_type i = T_FILE then retk (Some ip)
                   else thenk (iunlockput ip) (retk None))))
             | None \<Rightarrow> create_new dp nm type' major minor)))"

abbreviation O_RDONLY :: u32 where "O_RDONLY \<equiv> 0"
abbreviation O_WRONLY :: u32 where "O_WRONLY \<equiv> 1"
abbreviation O_RDWR :: u32 where "O_RDWR \<equiv> 2"
abbreviation O_CREATE :: u32 where "O_CREATE \<equiv> 0x200"

text \<open>The inode \<open>sys_open\<close> opens, locked; \<open>None\<close> where it returns -1 after \<open>end_op\<close>.\<close>

definition open_inode :: "u8 list \<Rightarrow> u32 \<Rightarrow> ('a pl_scheme, nat option) kcode" where
  "open_inode path omode =
     (if and omode O_CREATE \<noteq> 0 then create path T_FILE 0 0
      else
        bindk (namei path) (\<lambda>r.
          case r of
            None \<Rightarrow> retk None
          | Some ip \<Rightarrow>
              thenk (ilock (Some ip))
              (bindk (getk (inode_at ip)) (\<lambda>i.
                if i_type i = T_DIR \<and> omode \<noteq> O_RDONLY then thenk (iunlockput ip) (retk None)
                else retk (Some ip)))))"

definition open_file :: "nat \<Rightarrow> u32 \<Rightarrow> ('a pl_scheme, int) kcode" where
  "open_file ip omode =
     bindk filealloc (\<lambda>r.
       case r of
         None \<Rightarrow> put_failed ip
       | Some f \<Rightarrow>
           bindk (fdalloc f) (\<lambda>d.
             case d of
               None \<Rightarrow> thenk (fileclose f) (put_failed ip)
             | Some fd \<Rightarrow>
                 thenk (iunlock (Some ip))
                 (thenk end_op
                 (thenk (modk (upd_file f (\<lambda>k. k\<lparr>f_type := FD_INODE, f_ip := ip, f_off := 0,
                            f_readable := (and omode O_WRONLY = 0),
                            f_writable := (and omode O_WRONLY \<noteq> 0 \<or> and omode O_RDWR \<noteq> 0)\<rparr>)))
                 (retk (int fd))))))"

definition sys_open :: "('a pl_scheme, int) kcode" where
  "sys_open =
     bindk (argpath 0) (\<lambda>r0.
       case r0 of
         None \<Rightarrow> retk (-1)
       | Some path \<Rightarrow>
           bindk (argint 1) (\<lambda>m.
             case m of
               None \<Rightarrow> retk (-1)
             | Some omode \<Rightarrow>
                 thenk begin_op
                 (bindk (open_inode path omode) (\<lambda>r.
                   case r of None \<Rightarrow> op_failed | Some ip \<Rightarrow> open_file ip omode))))"

definition sys_mkdir :: "('a pl_scheme, int) kcode" where
  "sys_mkdir =
     thenk begin_op
     (bindk (argpath 0) (\<lambda>r0.
      bindk (case r0 of None \<Rightarrow> retk None | Some path \<Rightarrow> create path T_DIR 0 0) (\<lambda>r.
        case r of
          None \<Rightarrow> op_failed
        | Some ip \<Rightarrow> thenk (iunlockput ip) (thenk end_op (retk 0)))))"

definition sys_mknod :: "('a pl_scheme, int) kcode" where
  "sys_mknod =
     thenk begin_op
     (bindk (argpath 0) (\<lambda>r0.
      bindk (case r0 of
               None \<Rightarrow> retk None
             | Some path \<Rightarrow>
                 bindk (argint 1) (\<lambda>r1.
                   case r1 of
                     None \<Rightarrow> retk None
                   | Some major \<Rightarrow>
                       bindk (argint 2) (\<lambda>r2.
                         case r2 of
                           None \<Rightarrow> retk None
                         | Some minor \<Rightarrow> create path T_DEV (ucast major) (ucast minor)))) (\<lambda>r.
        case r of
          None \<Rightarrow> op_failed
        | Some ip \<Rightarrow> thenk (iunlockput ip) (thenk end_op (retk 0)))))"

definition sys_chdir :: "('a pl_scheme, int) kcode" where
  "sys_chdir =
     bindk mycur (\<lambda>p.
     thenk begin_op
     (bindk (argpath 0) (\<lambda>r0.
      bindk (case r0 of None \<Rightarrow> retk None | Some path \<Rightarrow> namei path) (\<lambda>r.
        case r of
          None \<Rightarrow> op_failed
        | Some ip \<Rightarrow>
            thenk (ilock (Some ip))
            (bindk (getk (inode_at ip)) (\<lambda>i.
              if i_type i \<noteq> T_DIR then put_failed ip
              else
                thenk (iunlock (Some ip))
                (bindk (getk (\<lambda>s. cwd (ptable s ! p))) (\<lambda>c.
                 thenk (case c of None \<Rightarrow> faultk | Some j \<Rightarrow> iput j)
                 (thenk end_op
                 (thenk (modk (upd_proc p (\<lambda>q. q\<lparr>cwd := Some ip\<rparr>)))
                 (retk 0)))))))))))"

section \<open>Programs and pipes\<close>

text \<open>The loop of \<open>sys_exec\<close> from argument \<open>i\<close> on; \<open>n\<close> elements of \<open>argv\<close> are left.\<close>

fun exec_argv :: "u32 \<Rightarrow> nat \<Rightarrow> u32 \<Rightarrow> ('a pl_scheme, u8 list list option) kcode" where
  "exec_argv uargv 0 i = retk None"
| "exec_argv uargv (Suc n) i =
     bindk (fetchint (uargv + 4 * i)) (\<lambda>r.
       case r of
         None \<Rightarrow> retk None
       | Some uarg \<Rightarrow>
           if uarg = 0 then retk (Some [])
           else
             bindk (fetchstr uarg) (\<lambda>t.
               case t of
                 None \<Rightarrow> retk None
               | Some (a, k) \<Rightarrow>
                   bindk mycur (\<lambda>p.
                   bindk (getk (\<lambda>s. read_bytes (umem s p) a k)) (\<lambda>arg.
                   bindk (exec_argv uargv n (i + 1)) (\<lambda>rest.
                   retk (map_option (\<lambda>as. arg # as) rest))))))"

definition sys_exec :: "('a pl_scheme, int) kcode" where
  "sys_exec =
     bindk (argpath 0) (\<lambda>r0.
       case r0 of
         None \<Rightarrow> retk (-1)
       | Some path \<Rightarrow>
           bindk (argint 1) (\<lambda>r1.
             case r1 of
               None \<Rightarrow> retk (-1)
             | Some uargv \<Rightarrow>
                 bindk (exec_argv uargv MAXARG 0) (\<lambda>a.
                   case a of None \<Rightarrow> retk (-1) | Some argv \<Rightarrow> exec path argv)))"

definition sys_pipe_bad :: "nat option \<Rightarrow> nat \<Rightarrow> nat \<Rightarrow> ('a pl_scheme, int) kcode" where
  "sys_pipe_bad fd0 rfile wfile =
     bindk mycur (\<lambda>p.
     thenk (case fd0 of None \<Rightarrow> retk () | Some d \<Rightarrow> modk (upd_proc p (\<lambda>q. q\<lparr>ofile := (ofile q)[d := None]\<rparr>)))
     (thenk (fileclose rfile)
     (thenk (fileclose wfile)
     (retk (-1)))))"

definition sys_pipe :: "('a pl_scheme, int) kcode" where
  "sys_pipe =
     bindk (argptr 0 8) (\<lambda>r0.
       case r0 of
         None \<Rightarrow> retk (-1)
       | Some fd \<Rightarrow>
           bindk pipealloc (\<lambda>r.
             case r of
               None \<Rightarrow> retk (-1)
             | Some (rfile, wfile) \<Rightarrow>
                 bindk (fdalloc rfile) (\<lambda>d0.
                   case d0 of
                     None \<Rightarrow> sys_pipe_bad None rfile wfile
                   | Some fd0 \<Rightarrow>
                       bindk (fdalloc wfile) (\<lambda>d1.
                         case d1 of
                           None \<Rightarrow> sys_pipe_bad d0 rfile wfile
                         | Some fd1 \<Rightarrow>
                             thenk (store_user fd (word_bytes (word_of_nat fd0)))
                             (thenk (store_user (fd + 4) (word_bytes (word_of_nat fd1)))
                             (retk 0))))))"

end
