(* ===== verification/Sock_Table.thy ===== *)
theory Sock_Table
  imports Sock
begin

text \<open>
  The socket table as a finite map from ports to slots. The invariant says that the
  table has its size, that open sockets have different local ports in range, and that
  \<open>countSock\<close> counts them. The interface \<open>port_map\<close> states what \<open>getsock\<close>, \<open>allocsock\<close> and
  \<open>removesock\<close> promise to the socket operations, and is discharged for the table of
  \<open>sock.c\<close> at the end.
\<close>

section \<open>The invariant of the table\<close>

definition is_open :: "sock \<Rightarrow> bool" where
  "is_open k \<longleftrightarrow> sstate k \<noteq> CLOSED"

definition table_ok :: "sock list \<Rightarrow> bool" where
  "table_ok ks \<longleftrightarrow> length ks = NSOCK \<and>
     (\<forall>i<length ks. length (recvbuffer (ks ! i)) = SBUFFSIZE) \<and>
     (\<forall>i<length ks. is_open (ks ! i) \<longrightarrow> 0 \<le> lPort (ks ! i) \<and> lPort (ks ! i) < NPORT) \<and>
     (\<forall>i<length ks. \<forall>j<length ks. is_open (ks ! i) \<longrightarrow> is_open (ks ! j) \<longrightarrow>
        lPort (ks ! i) = lPort (ks ! j) \<longrightarrow> i = j)"

definition sock_inv :: "'a sk_scheme \<Rightarrow> bool" where
  "sock_inv s \<longleftrightarrow> table_ok (socks s) \<and> countSock s = int (count_slots is_open (socks s))"

lemma table_okD:
  assumes "table_ok ks"
  shows "length ks = NSOCK"
    and "i < NSOCK \<Longrightarrow> length (recvbuffer (ks ! i)) = SBUFFSIZE"
    and "i < NSOCK \<Longrightarrow> is_open (ks ! i) \<Longrightarrow> 0 \<le> lPort (ks ! i) \<and> lPort (ks ! i) < NPORT"
    and "i < NSOCK \<Longrightarrow> j < NSOCK \<Longrightarrow> is_open (ks ! i) \<Longrightarrow> is_open (ks ! j) \<Longrightarrow>
           lPort (ks ! i) = lPort (ks ! j) \<Longrightarrow> i = j"
  using assms by (simp_all add: table_ok_def)

text \<open>A write to one slot keeps the invariant if the slot is closed or its port is not taken.\<close>

lemma table_ok_update:
  assumes ok: "table_ok ks" and i: "i < NSOCK"
    and buf: "length (recvbuffer k) = SBUFFSIZE"
    and port: "is_open k \<Longrightarrow> 0 \<le> lPort k \<and> lPort k < NPORT"
    and other: "\<And>j. is_open k \<Longrightarrow> j < NSOCK \<Longrightarrow> j \<noteq> i \<Longrightarrow> is_open (ks ! j) \<Longrightarrow> lPort (ks ! j) \<noteq> lPort k"
  shows "table_ok (ks[i := k])"
  unfolding table_ok_def
proof (intro conjI allI impI)
  show len: "length (ks[i := k]) = NSOCK" using table_okD(1) [OF ok] by simp
  fix a assume a: "a < length (ks[i := k])"
  show "length (recvbuffer (ks[i := k] ! a)) = SBUFFSIZE"
    using a len table_okD(2) [OF ok, of a] buf by (cases "a = i") simp_all
  show "is_open (ks[i := k] ! a) \<Longrightarrow> 0 \<le> lPort (ks[i := k] ! a)"
    using a len table_okD(3) [OF ok, of a] port by (cases "a = i") simp_all
  show "is_open (ks[i := k] ! a) \<Longrightarrow> lPort (ks[i := k] ! a) < NPORT"
    using a len table_okD(3) [OF ok, of a] port by (cases "a = i") simp_all
  fix b assume b: "b < length (ks[i := k])" "is_open (ks[i := k] ! a)" "is_open (ks[i := k] ! b)"
    "lPort (ks[i := k] ! a) = lPort (ks[i := k] ! b)"
  show "a = b"
    using a b len table_okD(4) [OF ok, of a b] other [of a] other [of b]
    by (cases "a = i"; cases "b = i") simp_all
qed

lemma table_ok_keep:
  assumes "table_ok ks" and "i < NSOCK" and "length (recvbuffer k) = SBUFFSIZE"
    and "is_open k = is_open (ks ! i)" and "lPort k = lPort (ks ! i)"
  shows "table_ok (ks[i := k])"
  using assms table_okD [OF assms(1)] by (intro table_ok_update) auto

lemma count_open_keep:
  assumes "i < length ks" and "is_open k = is_open (ks ! i)"
  shows "count_slots is_open (ks[i := k]) = count_slots is_open ks"
  using count_slots_update [OF assms(1), of is_open k] assms(2) by (simp split: if_splits)

lemma sock_inv_keep:
  assumes "sock_inv s" and "socks s' = (socks s)[i := k]" and "countSock s' = countSock s"
    and "i < NSOCK" and "length (recvbuffer k) = SBUFFSIZE"
    and "is_open k = is_open (socks s ! i)" and "lPort k = lPort (socks s ! i)"
  shows "sock_inv s'"
  using assms table_okD(1) [of "socks s"]
  by (simp add: sock_inv_def table_ok_keep count_open_keep)

lemma sock_inv_count_bounds:
  assumes "sock_inv s" shows "0 \<le> countSock s" and "countSock s \<le> int NSOCK"
  using assms count_slots_le [of is_open "socks s"] by (auto simp: sock_inv_def table_ok_def)

section \<open>Lookup\<close>

lemma getsock_Some:
  assumes "getsock port s = Some i"
  shows "i < length (socks s)" and "is_open (socks s ! i)" and "lPort (socks s ! i) = port"
    and "0 \<le> port" and "port < NPORT"
  using assms by (auto simp: getsock_def is_open_def dest: find_index_SomeD split: if_splits)

text \<open>Under the invariant a slot is found by its port exactly when it is open.\<close>

lemma getsock_iff:
  assumes inv: "sock_inv s"
  shows "getsock port s = Some i \<longleftrightarrow>
    i < NSOCK \<and> is_open (socks s ! i) \<and> lPort (socks s ! i) = port"
proof
  have len: "length (socks s) = NSOCK" and ok: "table_ok (socks s)"
    using inv by (auto simp: sock_inv_def table_ok_def)
  show "getsock port s = Some i \<Longrightarrow> i < NSOCK \<and> is_open (socks s ! i) \<and> lPort (socks s ! i) = port"
    using getsock_Some [of port s i] len by simp
  assume r: "i < NSOCK \<and> is_open (socks s ! i) \<and> lPort (socks s ! i) = port"
  then obtain j where j: "find_index (\<lambda>k. sstate k \<noteq> CLOSED \<and> lPort k = port) (socks s) = Some j"
    using find_index_ex [of i "socks s" "\<lambda>k. sstate k \<noteq> CLOSED \<and> lPort k = port"] len
    by (auto simp: is_open_def)
  then have "j < NSOCK" "is_open (socks s ! j)" "lPort (socks s ! j) = port"
    using len by (auto simp: is_open_def dest: find_index_SomeD)
  then have "j = i" using r table_okD(4) [OF ok, of j i] by simp
  then show "getsock port s = Some i"
    using j r table_okD(3) [OF ok, of i] by (auto simp: getsock_def)
qed

lemma getsock_None_iff:
  assumes "sock_inv s"
  shows "getsock port s = None \<longleftrightarrow> (\<forall>i<NSOCK. is_open (socks s ! i) \<longrightarrow> lPort (socks s ! i) \<noteq> port)"
  using getsock_iff [OF assms, of port] by (metis not_Some_eq)

text \<open>Updates that keep the ports and the set of open slots do not change any lookup.\<close>

lemma getsock_cong:
  assumes "sock_inv s" and "sock_inv s'"
    and "\<And>i. i < NSOCK \<Longrightarrow> is_open (socks s' ! i) = is_open (socks s ! i)"
    and "\<And>i. i < NSOCK \<Longrightarrow> is_open (socks s ! i) \<Longrightarrow> lPort (socks s' ! i) = lPort (socks s ! i)"
  shows "getsock port s' = getsock port s"
proof (cases "getsock port s'")
  case None
  then have "getsock port s = None"
    using assms by (simp add: getsock_None_iff)
  then show ?thesis using None by simp
next
  case (Some i)
  then have "getsock port s = Some i"
    using assms by (auto simp: getsock_iff)
  then show ?thesis using Some by simp
qed

section \<open>Allocation\<close>

text \<open>What \<open>allocsock\<close> writes into the slot it takes.\<close>

definition opened_sock :: "int \<Rightarrow> nat option \<Rightarrow> int \<Rightarrow> sock \<Rightarrow> sock" where
  "opened_sock sid' p lport k = k\<lparr>owner := p, sstate := OPENED, lPort := lport, rPort := INV_PORT,
     hasfullbuffer := False, sid := sid', recvbuffer := 0 # drop 1 (recvbuffer k)\<rparr>"

lemma opened_sock_simps [simp]:
  "sstate (opened_sock n p l k) = OPENED" "lPort (opened_sock n p l k) = l"
  "owner (opened_sock n p l k) = p" "rPort (opened_sock n p l k) = INV_PORT"
  "sid (opened_sock n p l k) = n" "hasfullbuffer (opened_sock n p l k) = False"
  by (simp_all add: opened_sock_def)

lemma setsockvalue_open:
  "setsockvalue (Some i) n OPENED p l INV_PORT False [] True s = upd_sock i (opened_sock n p l) s"
  by (simp add: setsockvalue_def Let_def upd_sock_def opened_sock_def)

lemma allocsock_None:
  assumes "allocsock lport s = Ok (None, s')"
  shows "s' = s"
  using assms by (auto simp: allocsock_def Let_def split: if_splits option.splits elim!: andthen_OkE)

lemma allocsock_Some:
  assumes "allocsock lport s = Ok (Some i, s')"
  shows "0 \<le> lport" and "lport < NPORT" and "getsock lport s = None"
    and "find_index (\<lambda>k. sstate k = CLOSED) (socks s) = Some i"
    and "\<exists>p. (\<exists>s1. myproc s = Ok (p, s1)) \<and>
           socks s' = (socks s)[i := opened_sock (nextsid s) p lport (socks s ! i)]"
    and "countSock s' = wrap32 (countSock s + 1)" and "nextsid s' = wrap32 (nextsid s + 1)"
    and "umem s' = umem s" and "ptable s' = ptable s"
proof -
  from assms obtain p s1 where c: "\<not> (lport < 0 \<or> lport \<ge> NPORT)" "getsock lport s = None"
      "find_index (\<lambda>k. sstate k = CLOSED) (socks s) = Some i" and m: "myproc s = Ok (p, s1)"
    and s': "s' = (upd_sock i (opened_sock (nextsid s1) p lport) s1)
      \<lparr>countSock := wrap32 (countSock s1 + 1), nextsid := wrap32 (nextsid s1 + 1)\<rparr>"
    by (auto simp: allocsock_def Let_def setsockvalue_open elim!: andthen_OkE
      split: if_split_asm option.split_asm)
  have f: "socks s1 = socks s" "countSock s1 = countSock s" "nextsid s1 = nextsid s"
    "umem s1 = umem s" "ptable s1 = ptable s"
    using pt_more_mach [OF myproc_more [OF m]] sk_more [of s1 s] by simp_all
  show "0 \<le> lport" "lport < NPORT" "getsock lport s = None"
    "find_index (\<lambda>k. sstate k = CLOSED) (socks s) = Some i"
    "countSock s' = wrap32 (countSock s + 1)" "nextsid s' = wrap32 (nextsid s + 1)"
    "umem s' = umem s" "ptable s' = ptable s"
    using c f by (simp_all add: s' upd_sock_def)
  show "\<exists>p. (\<exists>s1. myproc s = Ok (p, s1)) \<and>
      socks s' = (socks s)[i := opened_sock (nextsid s) p lport (socks s ! i)]"
    using m f by (auto simp: s' upd_sock_def)
qed

lemma closed_slot:
  assumes "find_index (\<lambda>k. sstate k = CLOSED) ks = Some i"
  shows "i < length ks" and "\<not> is_open (ks ! i)"
  using find_index_SomeD [OF assms] by (simp_all add: is_open_def)

lemma allocsock_inv:
  assumes inv: "sock_inv s" and a: "allocsock lport s = Ok (Some i, s')"
  shows "sock_inv s'"
proof -
  note f = allocsock_Some [OF a]
  note c = closed_slot [OF f(4)]
  obtain p where ks: "socks s' = (socks s)[i := opened_sock (nextsid s) p lport (socks s ! i)]"
    using f(5) by blast
  have ok: "table_ok (socks s)" using inv by (simp add: sock_inv_def)
  have i: "i < NSOCK" using c(1) table_okD(1) [OF ok] by simp
  have "length (recvbuffer (opened_sock (nextsid s) p lport (socks s ! i))) = SBUFFSIZE"
    using table_okD(2) [OF ok i] by (simp add: opened_sock_def)
  moreover have "j < NSOCK \<Longrightarrow> is_open (socks s ! j) \<Longrightarrow> lPort (socks s ! j) \<noteq> lport" for j
    using f(3) getsock_None_iff [OF inv] by blast
  ultimately have "table_ok (socks s')"
    unfolding ks using ok i f(1,2) by (intro table_ok_update) auto
  moreover have "count_slots is_open (socks s') = count_slots is_open (socks s) + 1"
    using count_slots_update [OF c(1), of is_open "opened_sock (nextsid s) p lport (socks s ! i)"] c(2)
    by (simp add: ks is_open_def [of "opened_sock _ _ _ _"])
  ultimately show ?thesis
    using inv f(6) sock_inv_count_bounds [OF inv] by (simp add: sock_inv_def wrap32_id)
qed

lemma allocsock_lookup:
  assumes inv: "sock_inv s" and a: "allocsock lport s = Ok (Some i, s')"
  shows "getsock port s' = (if port = lport then Some i else getsock port s)"
proof -
  note f = allocsock_Some [OF a]
  note c = closed_slot [OF f(4)]
  note inv' = allocsock_inv [OF inv a]
  obtain p where ks: "socks s' = (socks s)[i := opened_sock (nextsid s) p lport (socks s ! i)]"
    using f(5) by blast
  have len: "length (socks s) = NSOCK" using inv by (simp add: sock_inv_def table_ok_def)
  have nth: "socks s' ! j = (if j = i then opened_sock (nextsid s) p lport (socks s ! i) else socks s ! j)"
    if "j < NSOCK" for j using that c(1) len by (simp add: ks)
  show ?thesis
  proof (cases "port = lport")
    case True
    then show ?thesis using c(1) len by (simp add: getsock_iff [OF inv'] nth) (simp add: is_open_def)
  next
    case False
    have "getsock port s' = Some j \<longleftrightarrow> getsock port s = Some j" for j
      using False c(2)
      by (auto simp: getsock_iff [OF inv'] getsock_iff [OF inv] nth split: if_split_asm)
    then show ?thesis using False by (metis not_Some_eq)
  qed
qed

text \<open>Allocation fails exactly when the port is bad or taken, or no slot is closed.\<close>

lemma allocsock_full:
  assumes inv: "sock_inv s"
  shows "find_index (\<lambda>k. sstate k = CLOSED) (socks s) = None \<longleftrightarrow> countSock s = int NSOCK"
  using inv count_slots_full_iff [of is_open "socks s"]
  by (auto simp: sock_inv_def table_ok_def find_index_None_iff is_open_def)

section \<open>Removal\<close>

lemma removesock_inv:
  assumes inv: "sock_inv s" and i: "i < NSOCK" "is_open (socks s ! i)"
    and r: "removesock (Some i) s = Ok (b, s')"
  shows "sock_inv s'"
proof -
  note f = removesock_frame [OF r]
  have ok: "table_ok (socks s)" using inv by (simp add: sock_inv_def)
  have len: "length (socks s) = NSOCK" using ok by (rule table_okD)
  have cl: "\<not> is_open (closed_sock k)" for k by (simp add: is_open_def)
  have "length (recvbuffer (closed_sock (socks s ! i))) = SBUFFSIZE"
    using table_okD(2) [OF ok i(1)] by (simp add: closed_sock_def)
  then have "table_ok (socks s')"
    using f ok i cl by (auto intro!: table_ok_update)
  moreover have "count_slots is_open (socks s') + 1 = count_slots is_open (socks s)"
    using count_slots_update [of i "socks s" is_open "closed_sock (socks s ! i)"] f i len cl by simp
  ultimately show ?thesis
    using inv f sock_inv_count_bounds [OF inv] by (simp add: sock_inv_def wrap32_id)
qed

lemma removesock_lookup:
  assumes inv: "sock_inv s" and i: "getsock lport s = Some i"
    and r: "removesock (Some i) s = Ok (b, s')"
  shows "getsock port s' = (if port = lport then None else getsock port s)"
proof -
  have g: "i < NSOCK" "is_open (socks s ! i)" "lPort (socks s ! i) = lport"
    using i by (auto simp: getsock_iff [OF inv])
  note inv' = removesock_inv [OF inv g(1,2) r]
  have len: "length (socks s) = NSOCK" using inv by (simp add: sock_inv_def table_ok_def)
  have nth: "socks s' ! j = (if j = i then closed_sock (socks s ! i) else socks s ! j)"
    if "j < NSOCK" for j using that g(1) len removesock_frame [OF r] by simp
  have "getsock port s' = Some j \<longleftrightarrow> port \<noteq> lport \<and> getsock port s = Some j" for j
    using g table_okD(4) [of "socks s" i j] inv
    by (auto simp: getsock_iff [OF inv'] getsock_iff [OF inv] nth is_open_def [of "closed_sock _"]
        sock_inv_def split: if_split_asm)
  then show ?thesis by (metis not_Some_eq)
qed

section \<open>The interface of the port map\<close>

text \<open>
  What the socket operations rely on: a lookup by port, an allocation that adds one port
  or leaves the map as it is, and a removal that deletes the port of the slot it is given.
\<close>

locale port_map =
  fixes inv :: "'s \<Rightarrow> bool"
    and lookup :: "int \<Rightarrow> 's \<Rightarrow> nat option"
    and alloc :: "int \<Rightarrow> 's \<Rightarrow> (nat option \<times> 's) outcome"
    and remove :: "nat option \<Rightarrow> 's \<Rightarrow> (bool \<times> 's) outcome"
  assumes alloc_inv: "inv s \<Longrightarrow> alloc p s = Ok (Some i, s') \<Longrightarrow> inv s'"
    and alloc_lookup: "inv s \<Longrightarrow> alloc p s = Ok (Some i, s') \<Longrightarrow>
      lookup q s' = (if q = p then Some i else lookup q s)"
    and alloc_fresh: "inv s \<Longrightarrow> alloc p s = Ok (Some i, s') \<Longrightarrow> lookup q s \<noteq> Some i"
    and alloc_taken: "lookup p s \<noteq> None \<Longrightarrow> alloc p s = Ok (None, s)"
    and alloc_none: "alloc p s = Ok (None, s') \<Longrightarrow> s' = s"
    and remove_inv: "inv s \<Longrightarrow> lookup p s = Some i \<Longrightarrow> remove (Some i) s = Ok (b, s') \<Longrightarrow> inv s'"
    and remove_lookup: "inv s \<Longrightarrow> lookup p s = Some i \<Longrightarrow> remove (Some i) s = Ok (b, s') \<Longrightarrow>
      lookup q s' = (if q = p then None else lookup q s)"
begin

lemma alloc_keeps_inv: "inv s \<Longrightarrow> alloc p s = Ok (r, s') \<Longrightarrow> inv s'"
  by (cases r) (auto dest: alloc_inv alloc_none)

lemma alloc_was_free: "alloc p s = Ok (Some i, s') \<Longrightarrow> lookup p s = None"
  using alloc_taken [of p s] by (cases "lookup p s") auto

lemma alloc_remove_lookup:
  assumes "inv s" and "alloc p s = Ok (Some i, s1)" and "remove (Some i) s1 = Ok (b, s2)"
  shows "lookup q s2 = lookup q s" and "inv s2"
proof -
  have l: "lookup p s1 = Some i" and i: "inv s1"
    using assms alloc_lookup alloc_inv by auto
  show "inv s2" using remove_inv [OF i l assms(3)] .
  show "lookup q s2 = lookup q s"
    using remove_lookup [OF i l assms(3), of q] alloc_lookup [OF assms(1,2), of q]
      alloc_was_free [OF assms(2)] by auto
qed

text \<open>Two allocations in a row get two slots.\<close>

lemma alloc_alloc_distinct:
  assumes "inv s" and "alloc p s = Ok (Some i, s1)" and "alloc q s1 = Ok (Some j, s2)"
  shows "i \<noteq> j" and "p \<noteq> q" and "lookup p s2 = Some i" and "lookup q s2 = Some j"
proof -
  have i1: "inv s1" and l1: "lookup p s1 = Some i"
    using assms alloc_inv alloc_lookup by auto
  show "i \<noteq> j" using alloc_fresh [OF i1 assms(3), of p] l1 by auto
  show pq: "p \<noteq> q" using alloc_was_free [OF assms(3)] l1 by auto
  show "lookup p s2 = Some i" "lookup q s2 = Some j"
    using alloc_lookup [OF i1 assms(3)] pq l1 by auto
qed

end

interpretation pm: port_map sock_inv getsock allocsock removesock
proof
  fix s s' :: "'a sk_scheme" and p q i b
  show "sock_inv s \<Longrightarrow> allocsock p s = Ok (Some i, s') \<Longrightarrow> sock_inv s'"
    by (rule allocsock_inv)
  show "sock_inv s \<Longrightarrow> allocsock p s = Ok (Some i, s') \<Longrightarrow>
      getsock q s' = (if q = p then Some i else getsock q s)"
    by (rule allocsock_lookup)
  show "sock_inv s \<Longrightarrow> allocsock p s = Ok (Some i, s') \<Longrightarrow> getsock q s \<noteq> Some i"
    using closed_slot [OF allocsock_Some(4), of p s i s'] getsock_Some(2) by blast
  show "getsock p s \<noteq> None \<Longrightarrow> allocsock p s = Ok (None, s)"
    by (auto simp: allocsock_def)
  show "allocsock p s = Ok (None, s') \<Longrightarrow> s' = s"
    by (rule allocsock_None)
  show "sock_inv s \<Longrightarrow> getsock p s = Some i \<Longrightarrow> removesock (Some i) s = Ok (b, s') \<Longrightarrow> sock_inv s'"
    using removesock_inv by (blast dest: getsock_iff [THEN iffD1])
  show "sock_inv s \<Longrightarrow> getsock p s = Some i \<Longrightarrow> removesock (Some i) s = Ok (b, s') \<Longrightarrow>
      getsock q s' = (if q = p then None else getsock q s)"
    by (rule removesock_lookup)
qed

end
