(* ===== verification/Sock_Ops.thy ===== *)
theory Sock_Ops
  imports Sock_Table
begin

text \<open>
  The socket operations, run to their end by a process in a state where the locks they
  take are free: the result and the final state of every branch, as equations. The
  properties about single calls and about a call that meets its partner follow.
\<close>

section \<open>A process about to make a socket call\<close>

definition ready :: "nat \<Rightarrow> 'a sk_scheme \<Rightarrow> bool" where
  "ready p s \<longleftrightarrow> cpu_ok s \<and> ncli (curcpu s) = 0 \<and> curproc s = Some p \<and> p < length (ptable s) \<and>
     lock_free StableLock s \<and> lock_free PtableLock s"

lemma readyD:
  assumes "ready p s"
  shows "cpu_ok s" "ncli (curcpu s) = 0" "curproc s = Some p" "p < length (ptable s)"
    "lock_free StableLock s" "lock_free PtableLock s"
  using assms by (simp_all add: ready_def)

definition valid_port :: "int \<Rightarrow> bool" where
  "valid_port port \<longleftrightarrow> 0 \<le> port \<and> port < NPORT"

lemma retsockfunc_ok:
  assumes "cpu_ok s" "lock_free StableLock s"
  shows "retsockfunc c (acquired StableLock s) = Ok (Return c, touched s)"
  using assms by (simp add: retsockfunc_def release_held released_acquired)

lemma allocsock_ok:
  assumes "cpu_ok s" "valid_port lport" "getsock lport s = None"
    "find_index (\<lambda>k. sstate k = CLOSED) (socks s) = Some i"
  shows "allocsock lport (acquired l s) = Ok (Some i, acquired l
    ((upd_sock i (opened_sock (nextsid s) (curproc s) lport) s)
       \<lparr>countSock := wrap32 (countSock s + 1), nextsid := wrap32 (nextsid s + 1)\<rparr>))"
  using assms by (simp add: allocsock_def valid_port_def myproc_ok setsockvalue_open Let_def)

lemma allocsock_fail:
  assumes "getsock lport s \<noteq> None \<or> find_index (\<lambda>k. sstate k = CLOSED) (socks s) = None"
  shows "allocsock lport s = Ok (None, s)"
  using assms by (auto simp: allocsock_def)

definition dropped :: "nat \<Rightarrow> 'a sk_scheme \<Rightarrow> 'a sk_scheme" where
  "dropped i s = (wakeup1 (SockChan i) (upd_sock i closed_sock s))\<lparr>countSock := wrap32 (countSock s - 1)\<rparr>"

lemma dropped_simps [simp]:
  "socks (dropped i s) = (socks s)[i := closed_sock (socks s ! i)]"
  "cpu_ok (dropped i s) = cpu_ok s" "lock_free l (dropped i s) = lock_free l s"
  "curproc (dropped i s) = curproc s" "umem (dropped i s) = umem s"
  "cur (dropped i s) = cur s" "cpus (dropped i s) = cpus s"
  "countSock (dropped i s) = wrap32 (countSock s - 1)" "nextsid (dropped i s) = nextsid s"
  "length (ptable (dropped i s)) = length (ptable s)"
  by (simp_all add: dropped_def socks_upd_sock)

lemma removesock_ok:
  assumes "cpu_ok s" "lock_free PtableLock s" "l \<noteq> PtableLock"
  shows "removesock (Some i) (acquired l s) = Ok (True, acquired l (dropped i s))"
  using assms by (simp add: removesock_def wakeup_ok resetsock_eq Let_def dropped_def)

section \<open>Listen\<close>

lemma listen_invalid: "\<not> valid_port lport \<Longrightarrow> listen lport s = Ok (Return E_INVALID_ARG, s)"
  by (auto simp: listen_def valid_port_def)

lemma listen_full:
  assumes "ready p s" "valid_port lport" "countSock s = int NSOCK"
  shows "listen lport s = Ok (Return E_FAIL, touched s)"
  using assms readyD [OF assms(1)]
  by (simp add: listen_def valid_port_def acquire_free retsockfunc_ok)

lemma listen_taken:
  assumes "ready p s" "valid_port lport" "countSock s \<noteq> int NSOCK" "getsock lport s \<noteq> None"
  shows "listen lport s = Ok (Return E_ACCESS_DENIED, touched s)"
  using assms readyD [OF assms(1)]
  by (simp add: listen_def valid_port_def acquire_free retsockfunc_ok allocsock_fail)

text \<open>The state in which a server sleeps: a new listening socket, the caller asleep on it.\<close>

definition listening :: "nat \<Rightarrow> int \<Rightarrow> nat \<Rightarrow> 'a sk_scheme \<Rightarrow> 'a sk_scheme" where
  "listening p lport i s =
     upd_proc p (\<lambda>q. q\<lparr>chan := Some (SockChan i), pstate := SLEEPING\<rparr>)
       ((upd_sock i (\<lambda>k. (opened_sock (nextsid s) (Some p) lport k)\<lparr>sstate := LISTENING\<rparr>) s)
          \<lparr>countSock := wrap32 (countSock s + 1), nextsid := wrap32 (nextsid s + 1)\<rparr>)"

lemma upd_sock_countSock:
  "upd_sock i f (s\<lparr>countSock := a, nextsid := b\<rparr>) = (upd_sock i f s)\<lparr>countSock := a, nextsid := b\<rparr>"
  by (simp add: upd_sock_def)

lemma upd_sock_upd_sock:
  "i < length (socks s) \<Longrightarrow> upd_sock i f (upd_sock i g s) = upd_sock i (\<lambda>k. f (g k)) s"
  by (simp add: upd_sock_def)

lemma listen_ok:
  assumes r: "ready p s" and inv: "sock_inv s" and "valid_port lport" "countSock s \<noteq> int NSOCK"
    "getsock lport s = None"
  shows "\<exists>i. find_index (\<lambda>k. sstate k = CLOSED) (socks s) = Some i \<and>
     listen lport s = Ok (Sleeps (ListenK (saved_intena s)), acquired PtableLock (listening p lport i s))"
proof -
  obtain i where i: "find_index (\<lambda>k. sstate k = CLOSED) (socks s) = Some i"
    using allocsock_full [OF inv] assms(4) by auto
  then have "i < length (socks s)" by (rule find_index_SomeD)
  then show ?thesis
    using assms i readyD [OF r]
    by (simp add: listen_def valid_port_def acquire_free allocsock_ok sleep_ok listening_def
        upd_sock_countSock upd_sock_upd_sock)
qed

section \<open>The free port\<close>

lemma getfreeport_from_spec:
  "getfreeport_from n s = INV_PORT \<and> (\<forall>q. 1 \<le> q \<and> q \<le> int n \<longrightarrow> getsock q s \<noteq> None) \<or>
   1 \<le> getfreeport_from n s \<and> getfreeport_from n s \<le> int n \<and>
   getsock (getfreeport_from n s) s = None \<and>
   (\<forall>q. getfreeport_from n s < q \<and> q \<le> int n \<longrightarrow> getsock q s \<noteq> None)"
proof (induction n)
  case 0
  then show ?case by auto
next
  case (Suc n)
  show ?case
  proof (cases "getsock (int (Suc n)) s")
    case None
    then show ?thesis by auto
  next
    case (Some i)
    then have "q \<le> int (Suc n) \<Longrightarrow> getsock q s = None \<Longrightarrow> q \<le> int n" for q
      by (cases "q = int (Suc n)") auto
    then show ?thesis using Suc Some by (simp only: getfreeport_from.simps) force
  qed
qed

text \<open>There are more ports than sockets, so a port is always free.\<close>

lemma free_port_exists:
  assumes inv: "sock_inv s"
  shows "\<exists>q. 1 \<le> q \<and> q \<le> 127 \<and> getsock q s = None"
proof (rule ccontr)
  assume a: "\<not> ?thesis"
  define A where "A = {1..127 :: int}"
  define f where "f q = the (getsock q s)" for q
  have g: "q \<in> A \<Longrightarrow> getsock q s = Some (f q)" for q using a by (auto simp: A_def f_def)
  have "inj_on f A"
    using getsock_Some(3) [OF g] by (metis inj_onI)
  moreover have "f ` A \<subseteq> {..<NSOCK}"
    using getsock_iff [OF inv] g by auto
  ultimately have "card A \<le> card {..<NSOCK}"
    by (rule card_inj_on_le) (rule finite_lessThan)
  then show False by (simp add: A_def)
qed

lemma getfreeport_spec:
  assumes inv: "sock_inv s"
  shows "1 \<le> getfreeport s" and "valid_port (getfreeport s)" and "getsock (getfreeport s) s = None"
    and "getfreeport s < q \<Longrightarrow> valid_port q \<Longrightarrow> getsock q s \<noteq> None"
  using getfreeport_from_spec [of 127 s] free_port_exists [OF inv]
  by (auto simp: getfreeport_def valid_port_def)

section \<open>Connect\<close>

definition local_host :: "reader \<Rightarrow> bool" where
  "local_host host \<longleftrightarrow> (\<exists>n. strlen host = Some n \<and>
     (strncmp host (reader_of (bytes_of ''localhost'')) n = 0 \<or>
      strncmp host (reader_of (bytes_of ''127.0.0.1'')) n = 0))"

lemma connect_invalid:
  "\<not> valid_port rport \<Longrightarrow> connect rport host s = Ok (Return E_INVALID_ARG, s)"
  by (auto simp: connect_def valid_port_def)

lemma connect_other_host:
  assumes "valid_port rport" "strlen host = Some n" "\<not> local_host host"
  shows "connect rport host s = Ok (Return E_INVALID_ARG, s)"
  using assms by (auto simp: connect_def valid_port_def local_host_def)

lemma local_hostE:
  assumes "local_host host"
  obtains n where "strlen host = Some n"
    "strncmp host (reader_of (bytes_of ''localhost'')) n \<noteq> 0 \<and>
     strncmp host (reader_of (bytes_of ''127.0.0.1'')) n \<noteq> 0 \<longleftrightarrow> False"
  using assms by (auto simp: local_host_def)

lemma getfreeport_found: "sock_inv s \<Longrightarrow> getfreeport s \<noteq> INV_PORT"
  using getfreeport_spec(1) [of s] by auto

lemma connect_notfound:
  assumes "ready p s" "sock_inv s" "valid_port rport" "local_host host" "getsock rport s = None"
  shows "connect rport host s = Ok (Return E_NOTFOUND, touched s)"
proof -
  from assms(4) obtain n where "strlen host = Some n"
    "strncmp host (reader_of (bytes_of ''localhost'')) n \<noteq> 0 \<and>
     strncmp host (reader_of (bytes_of ''127.0.0.1'')) n \<noteq> 0 \<longleftrightarrow> False"
    by (rule local_hostE)
  then show ?thesis
    using assms(3,5) readyD [OF assms(1)] getfreeport_found [OF assms(2)]
    by (simp add: connect_def valid_port_def acquire_free retsockfunc_ok Let_def)
qed

lemma connect_wrong_state:
  assumes "ready p s" "sock_inv s" "valid_port rport" "local_host host"
    "getsock rport s = Some r" "sstate (socks s ! r) \<noteq> LISTENING"
  shows "connect rport host s = Ok (Return E_WRONG_STATE, touched s)"
proof -
  from assms(4) obtain n where "strlen host = Some n"
    "strncmp host (reader_of (bytes_of ''localhost'')) n \<noteq> 0 \<and>
     strncmp host (reader_of (bytes_of ''127.0.0.1'')) n \<noteq> 0 \<longleftrightarrow> False"
    by (rule local_hostE)
  then show ?thesis
    using assms(3,5,6) readyD [OF assms(1)] getfreeport_found [OF assms(2)]
    by (simp add: connect_def valid_port_def acquire_free retsockfunc_ok Let_def)
qed

lemma connect_full:
  assumes "ready p s" "sock_inv s" "valid_port rport" "local_host host"
    "getsock rport s = Some r" "sstate (socks s ! r) = LISTENING" "countSock s = int NSOCK"
  shows "connect rport host s = Ok (Return E_FAIL, touched s)"
proof -
  from assms(4) obtain n where "strlen host = Some n"
    "strncmp host (reader_of (bytes_of ''localhost'')) n \<noteq> 0 \<and>
     strncmp host (reader_of (bytes_of ''127.0.0.1'')) n \<noteq> 0 \<longleftrightarrow> False"
    by (rule local_hostE)
  then show ?thesis
    using assms(3,5,6) readyD [OF assms(1)] getfreeport_found [OF assms(2)]
      allocsock_full [OF assms(2)] assms(7)
    by (simp add: connect_def valid_port_def acquire_free retsockfunc_ok Let_def allocsock_fail)
qed

text \<open>The two ends after a successful \<open>connect\<close>.\<close>

definition linked :: "nat \<Rightarrow> nat \<Rightarrow> nat \<Rightarrow> int \<Rightarrow> int \<Rightarrow> 'a sk_scheme \<Rightarrow> 'a sk_scheme" where
  "linked p l r lport rport s =
     (wakeup1 (SockChan r)
       (upd_sock r (\<lambda>k. k\<lparr>sstate := CONNECTED, rPort := lport, hasfullbuffer := False\<rparr>)
         (upd_sock l (\<lambda>k. (opened_sock (nextsid s) (Some p) lport k)\<lparr>sstate := CONNECTED, rPort := rport\<rparr>) s)))
     \<lparr>countSock := wrap32 (countSock s + 1), nextsid := wrap32 (nextsid s + 1)\<rparr>"

lemma linked_simps [simp]:
  "cpu_ok (linked p l r a b s) = cpu_ok s" "lock_free k (linked p l r a b s) = lock_free k s"
  "curproc (linked p l r a b s) = curproc s" "umem (linked p l r a b s) = umem s"
  "countSock (linked p l r a b s) = wrap32 (countSock s + 1)"
  "length (ptable (linked p l r a b s)) = length (ptable s)"
  by (simp_all add: linked_def)

lemma opened_connected:
  "(opened_sock n p l k)\<lparr>sstate := st, rPort := r, hasfullbuffer := False\<rparr> =
   (opened_sock n p l k)\<lparr>sstate := st, rPort := r\<rparr>"
  by (cases k) (simp add: opened_sock_def)

lemma list_update_two:
  assumes "i \<noteq> j"
  shows "xs[i := a, j := b, i := c] = xs[i := c, j := b]"
  using assms by (simp add: list_update_swap)

lemma connect_ok:
  assumes r: "ready p s" and inv: "sock_inv s" and "local_host host"
    and g: "getsock rport s = Some r" and st: "sstate (socks s ! r) = LISTENING"
    and l: "find_index (\<lambda>k. sstate k = CLOSED) (socks s) = Some l"
  shows "connect rport host s = Ok (Return (getfreeport s), touched (linked p l r (getfreeport s) rport s))"
proof -
  have v: "valid_port rport" using getsock_Some(4,5) [OF g] by (simp add: valid_port_def)
  have ll: "l < length (socks s)" "r < length (socks s)" "l \<noteq> r"
    using find_index_SomeD [OF l] getsock_Some(1) [OF g] st by auto
  have port: "lPort (socks s ! r) = rport" using getsock_Some(3) [OF g] .
  obtain n where h: "strlen host = Some n"
    "strncmp host (reader_of (bytes_of ''localhost'')) n \<noteq> 0 \<and>
     strncmp host (reader_of (bytes_of ''127.0.0.1'')) n \<noteq> 0 \<longleftrightarrow> False"
    using assms(3) by (rule local_hostE)
  let ?s2 = "(upd_sock l (opened_sock (nextsid s) (Some p) (getfreeport s)) s)
       \<lparr>countSock := wrap32 (countSock s + 1), nextsid := wrap32 (nextsid s + 1)\<rparr>"
  let ?s3 = "upd_sock l (\<lambda>k. k\<lparr>sstate := CONNECTED\<rparr>) (upd_sock r (\<lambda>k. k\<lparr>sstate := CONNECTED\<rparr>) ?s2)"
  let ?s4 = "upd_sock l (\<lambda>k. k\<lparr>rPort := lPort (socks ?s3 ! r)\<rparr>) ?s3"
  let ?s5 = "upd_sock r (\<lambda>k. k\<lparr>rPort := lPort (socks ?s4 ! l)\<rparr>) ?s4"
  let ?s6 = "upd_sock r (\<lambda>k. k\<lparr>hasfullbuffer := False\<rparr>) (upd_sock l (\<lambda>k. k\<lparr>hasfullbuffer := False\<rparr>) ?s5)"
  have "wakeup1 (SockChan r) ?s6 = linked p l r (getfreeport s) rport s"
    using ll port by (intro sk.equality)
      (simp_all add: upd_sock_def linked_def wakeup1_def list_update_two list_update_swap [of r l]
        opened_connected)
  then show ?thesis
    using h v g st readyD [OF r] getfreeport_spec [OF inv] getfreeport_found [OF inv] l
    by (simp add: connect_def valid_port_def acquire_free allocsock_ok wakeup_ok retsockfunc_ok Let_def)
qed

section \<open>Send and recv\<close>

text \<open>
  The guards that \<open>send\<close> and \<open>recv\<close> share, as one function of the table: an error code, or
  the slots of the two ends.
\<close>

definition endpoint :: "nat \<Rightarrow> int \<Rightarrow> 'a sk_scheme \<Rightarrow> int + (nat \<times> nat)" where
  "endpoint p lport s =
     (if \<not> valid_port lport then Inl E_INVALID_ARG
      else case getsock lport s of
        None \<Rightarrow> Inl E_NOTFOUND
      | Some l \<Rightarrow>
        if owner (socks s ! l) \<noteq> Some p then Inl E_ACCESS_DENIED
        else if sstate (socks s ! l) \<noteq> CONNECTED then Inl E_WRONG_STATE
        else case getsock (rPort (socks s ! l)) s of
          None \<Rightarrow> Inl E_NOTFOUND
        | Some r \<Rightarrow> if sstate (socks s ! r) \<noteq> CONNECTED then Inl E_WRONG_STATE else Inr (l, r))"

lemma endpoint_Inr:
  assumes "endpoint p lport s = Inr (l, r)"
  shows "valid_port lport" "getsock lport s = Some l" "owner (socks s ! l) = Some p"
    "sstate (socks s ! l) = CONNECTED" "getsock (rPort (socks s ! l)) s = Some r"
    "sstate (socks s ! r) = CONNECTED"
  using assms by (auto simp: endpoint_def split: if_split_asm option.split_asm)

text \<open>An error leaves everything but the processor's saved interrupt flag as it was.\<close>

lemma send_error:
  assumes "ready p s" and "endpoint p lport s = Inl c"
  shows "send lport data n s = Ok (Return c, if valid_port lport then touched s else s)"
  using assms(2) readyD [OF assms(1)]
  by (auto simp: send_def endpoint_def valid_port_def acquire_free retsockfunc_ok myproc_ok
      split: if_split_asm option.split_asm)

lemma recv_error:
  assumes "ready p s" and "endpoint p lport s = Inl c"
  shows "recv lport data n s = Ok (Return c, if valid_port lport then touched s else s)"
  using assms(2) readyD [OF assms(1)]
  by (auto simp: recv_def endpoint_def valid_port_def acquire_free retsockfunc_ok myproc_ok
      split: if_split_asm option.split_asm)

text \<open>The state in which a process sleeps on slot \<open>i\<close>.\<close>

definition asleep :: "nat \<Rightarrow> nat \<Rightarrow> 'a sk_scheme \<Rightarrow> 'a sk_scheme" where
  "asleep p i s = upd_proc p (\<lambda>q. q\<lparr>chan := Some (SockChan i), pstate := SLEEPING\<rparr>) s"

lemma send_entry:
  assumes "ready p s" and "endpoint p lport s = Inr (l, r)"
  shows "send lport data n s =
    (if hasfullbuffer (socks s ! r)
     then Ok (Sleeps (SendK (saved_intena s) l r data n), acquired PtableLock (asleep p r s))
     else send_tail p l r data n (acquired StableLock s))"
  using endpoint_Inr [OF assms(2)] readyD [OF assms(1)]
  by (simp add: send_def valid_port_def acquire_free myproc_ok sleep_ok asleep_def)

lemma recv_entry:
  assumes "ready p s" and "endpoint p lport s = Inr (l, r)"
  shows "recv lport data n s =
    (if \<not> hasfullbuffer (socks s ! l)
     then Ok (Sleeps (RecvK (saved_intena s) l r data n), acquired PtableLock (asleep p r s))
     else recv_tail p l data n (acquired StableLock s))"
  using endpoint_Inr [OF assms(2)] readyD [OF assms(1)]
  by (simp add: recv_def valid_port_def acquire_free myproc_ok sleep_ok asleep_def)

lemma in_uvm_frame [simp]:
  "in_uvm p a n (acquired l s) = in_uvm p a n s" "in_uvm p a n (touched s) = in_uvm p a n s"
  "in_uvm p a n (upd_sock i f s) = in_uvm p a n s"
  by (simp_all add: in_uvm_def)

text \<open>The second halves, run inside the section, on every branch.\<close>

lemma send_tail_reset:
  assumes "cpu_ok s" "lock_free StableLock s" "lock_free PtableLock s"
    "getsock (rPort (socks s ! l)) s = None"
  shows "send_tail p l r data n (acquired StableLock s) =
    Ok (Return E_CONNECTION_RESET_BY_REMOTE, touched (dropped l s))"
  using assms by (simp add: send_tail_def removesock_ok retsockfunc_ok)

definition delivered :: "nat \<Rightarrow> nat \<Rightarrow> nat \<Rightarrow> u32 \<Rightarrow> int \<Rightarrow> 'a sk_scheme \<Rightarrow> 'a sk_scheme" where
  "delivered p l r data n s =
     wakeup1 (SockChan l)
       (upd_sock r (\<lambda>k. k\<lparr>recvbuffer := strncpy_out (at (umem s p) data) (nat n) @ drop (nat n) (recvbuffer k),
                          hasfullbuffer := True\<rparr>) s)"

lemma send_tail_ok:
  assumes "cpu_ok s" "lock_free StableLock s" "lock_free PtableLock s"
    "getsock (rPort (socks s ! l)) s \<noteq> None" "\<not> strncpy_overflows n" "nat n \<le> SBUFFSIZE"
    "in_uvm p data (strncpy_reads (at (umem s p) data) (nat n)) s"
  shows "send_tail p l r data n (acquired StableLock s) = Ok (Return 0, touched (delivered p l r data n s))"
  using assms by (auto simp: send_tail_def wakeup_ok retsockfunc_ok delivered_def)

lemma send_tail_overflow:
  assumes "getsock (rPort (socks s ! l)) s \<noteq> None" "nat n > SBUFFSIZE"
  shows "send_tail p l r data n (acquired StableLock s) = Fault"
  using assms by (auto simp: send_tail_def)

definition fetched :: "nat \<Rightarrow> nat \<Rightarrow> u32 \<Rightarrow> int \<Rightarrow> 'a sk_scheme \<Rightarrow> 'a sk_scheme" where
  "fetched p l data n s =
     wakeup1 (SockChan l)
       (upd_sock l (\<lambda>k. k\<lparr>recvbuffer := (recvbuffer k)[0 := 0], hasfullbuffer := False\<rparr>)
         (s\<lparr>umem := (umem s)(p := write_bytes (umem s p) data
            (strncpy_out (reader_of (recvbuffer (socks s ! l))) (nat n)))\<rparr>))"

definition readable :: "nat \<Rightarrow> nat \<Rightarrow> u32 \<Rightarrow> int \<Rightarrow> 'a sk_scheme \<Rightarrow> bool" where
  "readable p l data n s \<longleftrightarrow> \<not> strncpy_overflows n \<and>
     strncpy_reads (reader_of (recvbuffer (socks s ! l))) (nat n) \<le> SBUFFSIZE \<and> in_uvm p data (nat n) s"

lemma fetched_simps [simp]:
  "cpu_ok (fetched p l d n s) = cpu_ok s" "lock_free k (fetched p l d n s) = lock_free k s"
  "curproc (fetched p l d n s) = curproc s" "countSock (fetched p l d n s) = countSock s"
  "length (socks (fetched p l d n s)) = length (socks s)"
  "socks (fetched p l d n s) = (socks s)[l := (socks s ! l)
     \<lparr>recvbuffer := (recvbuffer (socks s ! l))[0 := 0], hasfullbuffer := False\<rparr>]"
  by (simp_all add: fetched_def socks_upd_sock)

lemma getsock_same_ports:
  assumes "map sstate (socks s') = map sstate (socks s)" "map lPort (socks s') = map lPort (socks s)"
  shows "getsock port s' = getsock port s"
proof -
  have len: "length (socks s') = length (socks s)" using assms(1) by (rule map_eq_imp_length_eq)
  have "sstate (socks s' ! i) = sstate (socks s ! i) \<and> lPort (socks s' ! i) = lPort (socks s ! i)"
    if "i < length (socks s')" for i
    using assms that len by (metis nth_map)
  then show ?thesis
    using len by (auto simp: getsock_def intro!: find_index_cong_set)
qed

lemma getsock_fetched [simp]: "getsock port (fetched p l data n s) = getsock port s"
  by (rule getsock_same_ports) (simp_all add: map_update_same)

lemma getsock_delivered [simp]: "getsock port (delivered p l r data n s) = getsock port s"
  by (rule getsock_same_ports) (simp_all add: delivered_def socks_upd_sock map_update_same)

lemma recv_tail_cases:
  assumes "cpu_ok s" "lock_free StableLock s" "lock_free PtableLock s" "readable p l data n s"
  shows "recv_tail p l data n (acquired StableLock s) =
    (if getsock (rPort (socks s ! l)) s = None
     then Ok (Return E_CONNECTION_RESET_BY_REMOTE, touched (dropped l (fetched p l data n s)))
     else Ok (Return 0, touched (fetched p l data n s)))"
proof -
  let ?s2 = "upd_sock l (\<lambda>k. k\<lparr>recvbuffer := (recvbuffer k)[0 := 0], hasfullbuffer := False\<rparr>)
         (s\<lparr>umem := (umem s)(p := write_bytes (umem s p) data
            (strncpy_out (reader_of (recvbuffer (socks s ! l))) (nat n)))\<rparr>)"
  have "wakeup (SockChan l) (acquired StableLock ?s2) = Ok (acquired StableLock (fetched p l data n s))"
    using assms by (simp add: wakeup_ok fetched_def)
  moreover have "rPort (socks (fetched p l data n s) ! l) = rPort (socks s ! l)"
    by (simp add: nth_update_same)
  ultimately show ?thesis
    using assms unfolding readable_def
    by (simp add: recv_tail_def Let_def removesock_ok retsockfunc_ok)
qed

section \<open>What a socket call changes\<close>

text \<open>
  Outside the socket table, a call that returns changes nothing but saved interrupt flags
  and, by \<open>wakeup\<close>, sleeping processes that become runnable.
\<close>

definition quiet :: "'a sk_scheme \<Rightarrow> 'a sk_scheme \<Rightarrow> bool" where
  "quiet s s' \<longleftrightarrow> hwid s' = hwid s \<and> locks s' = locks s \<and>
     map apicid (cpus s') = map apicid (cpus s) \<and> map ncli (cpus s') = map ncli (cpus s) \<and>
     map cproc (cpus s') = map cproc (cpus s) \<and> length (ptable s') = length (ptable s) \<and>
     (\<forall>q<length (ptable s). pstate (ptable s' ! q) = pstate (ptable s ! q) \<or>
        pstate (ptable s ! q) = SLEEPING \<and> pstate (ptable s' ! q) = RUNNABLE)"

lemma quiet_refl: "quiet s s"
  by (simp add: quiet_def)

lemma quiet_trans:
  assumes "quiet s s'" and "quiet s' s''"
  shows "quiet s s''"
  unfolding quiet_def
proof (intro conjI allI impI)
  fix q assume "q < length (ptable s)"
  then have "pstate (ptable s' ! q) = pstate (ptable s ! q) \<or>
        pstate (ptable s ! q) = SLEEPING \<and> pstate (ptable s' ! q) = RUNNABLE"
    "pstate (ptable s'' ! q) = pstate (ptable s' ! q) \<or>
        pstate (ptable s' ! q) = SLEEPING \<and> pstate (ptable s'' ! q) = RUNNABLE"
    using assms by (auto simp: quiet_def)
  then show "pstate (ptable s'' ! q) = pstate (ptable s ! q) \<or>
        pstate (ptable s ! q) = SLEEPING \<and> pstate (ptable s'' ! q) = RUNNABLE" by auto
qed (use assms in \<open>simp_all add: quiet_def\<close>)

lemma quiet_same:
  "hwid s' = hwid s \<Longrightarrow> locks s' = locks s \<Longrightarrow> cpus s' = cpus s \<Longrightarrow> ptable s' = ptable s \<Longrightarrow> quiet s s'"
  by (simp add: quiet_def)

lemma quiet_touched: "quiet s (touched s)"
  unfolding quiet_def by (simp add: touched_def map_update_same)

lemma quiet_wakeup1: "quiet s (wakeup1 c s)"
  unfolding quiet_def by (simp add: wakeup1_def)

lemma quiet_resumed: "quiet s (resumed ie s)"
  unfolding quiet_def by (simp add: resumed_def map_update_same)

lemma quiet_wakeup1_upd:
  assumes "hwid s' = hwid s" "locks s' = locks s" "cpus s' = cpus s" "ptable s' = ptable (wakeup1 c s)"
  shows "quiet s s'"
  using quiet_trans [OF quiet_wakeup1 [of s c] quiet_same [of s' "wakeup1 c s"]] assms
  by (simp add: wakeup1_def)

lemma quiet_dropped: "quiet s (dropped i s)"
  by (rule quiet_wakeup1_upd [of _ _ "SockChan i"]) (simp_all add: dropped_def wakeup1_def upd_sock_def)

lemma quiet_delivered: "quiet s (delivered p l r data n s)"
  by (rule quiet_wakeup1_upd [of _ _ "SockChan l"]) (simp_all add: delivered_def wakeup1_def upd_sock_def)

lemma quiet_fetched: "quiet s (fetched p l data n s)"
  by (rule quiet_wakeup1_upd [of _ _ "SockChan l"]) (simp_all add: fetched_def wakeup1_def upd_sock_def)

lemma quiet_linked: "quiet s (linked p l r a b s)"
  by (rule quiet_wakeup1_upd [of _ _ "SockChan r"]) (simp_all add: linked_def wakeup1_def upd_sock_def)

section \<open>Disconnect\<close>

lemma disconnect_cases:
  assumes "ready p s"
  shows "disconnect lport s =
    (if \<not> valid_port lport then Ok (Return E_INVALID_ARG, s)
     else case getsock lport s of
       None \<Rightarrow> Ok (Return E_NOTFOUND, touched s)
     | Some l \<Rightarrow> if owner (socks s ! l) \<noteq> Some p then Ok (Return E_ACCESS_DENIED, touched s)
         else Ok (Return 0, touched (dropped l s)))"
  using readyD [OF assms]
  by (auto simp: disconnect_def disconnect_locked_def valid_port_def acquire_free retsockfunc_ok myproc_ok removesock_ok
      split: option.split)

section \<open>Closing the sockets of a process\<close>

definition owned_by :: "nat \<Rightarrow> sock \<Rightarrow> bool" where
  "owned_by p k \<longleftrightarrow> sstate k \<noteq> CLOSED \<and> owner k = Some p"

lemma getprocsock_Some:
  assumes "getprocsock p s = Some i"
  shows "i < length (socks s)" and "owned_by p (socks s ! i)"
  using find_index_SomeD [OF assms [unfolded getprocsock_def]] by (simp_all add: owned_by_def)

lemma close_map_step:
  assumes "i < length ks" and "owned_by p (ks ! i)"
  shows "map (\<lambda>k. if owned_by p k then closed_sock k else k) (ks[i := closed_sock (ks ! i)]) =
         map (\<lambda>k. if owned_by p k then closed_sock k else k) ks"
  using assms by (intro nth_equalityI) (auto simp: nth_list_update owned_by_def)

lemma closeprocsocks_loop_ok:
  assumes "cpu_ok s" "lock_free PtableLock s"
  shows "\<exists>s'. closeprocsocks_loop p (acquired StableLock s) = Ok (acquired StableLock s') \<and>
     socks s' = map (\<lambda>k. if owned_by p k then closed_sock k else k) (socks s) \<and>
     (sock_inv s \<longrightarrow> sock_inv s') \<and> quiet s s' \<and> cpu_ok s' \<and> umem s' = umem s \<and>
     (\<forall>l. lock_free l s' = lock_free l s)"
  using assms
proof (induction "count_slots (owned_by p) (socks s)" arbitrary: s rule: less_induct)
  case less
  show ?case
  proof (cases "getprocsock p s")
    case None
    then have "map (\<lambda>k. if owned_by p k then closed_sock k else k) (socks s) = socks s"
      by (intro map_idI) (auto simp: getprocsock_def find_index_None_iff owned_by_def)
    then show ?thesis using None less.prems quiet_refl by (subst closeprocsocks_loop.simps) auto
  next
    case (Some i)
    note o = getprocsock_Some [OF Some]
    have r: "removesock (Some i) (acquired StableLock s) = Ok (True, acquired StableLock (dropped i s))"
      using less.prems by (simp add: removesock_ok)
    have "count_slots (owned_by p) (socks (dropped i s)) < count_slots (owned_by p) (socks s)"
      using count_slots_update [OF o(1), of "owned_by p" "closed_sock (socks s ! i)"] o(2)
      by (simp add: owned_by_def [of p "closed_sock _"])
    then obtain s' where s': "closeprocsocks_loop p (acquired StableLock (dropped i s)) = Ok (acquired StableLock s')"
      "socks s' = map (\<lambda>k. if owned_by p k then closed_sock k else k) (socks (dropped i s))"
      "sock_inv (dropped i s) \<longrightarrow> sock_inv s'" "quiet (dropped i s) s'" "cpu_ok s'" "umem s' = umem s"
      "\<forall>l. lock_free l s' = lock_free l s"
      using less.hyps [of "dropped i s"] less.prems by auto
    have "sock_inv s \<Longrightarrow> sock_inv (acquired StableLock (dropped i s))"
      using removesock_inv [OF _ _ _ r] o by (auto simp: sock_inv_def table_ok_def is_open_def owned_by_def)
    then have "sock_inv s \<longrightarrow> sock_inv s'" using s'(3) by (simp add: sock_inv_def)
    then show ?thesis
      using s' r Some close_map_step [OF o] quiet_trans [OF quiet_dropped s'(4)]
      by (subst closeprocsocks_loop.simps) auto
  qed
qed

lemma closeprocsocks_ok:
  assumes "cpu_ok s" "lock_free PtableLock s" "lock_free StableLock s"
  shows "\<exists>s'. closeprocsocks (Some p) s = Ok s' \<and>
     socks s' = map (\<lambda>k. if owned_by p k then closed_sock k else k) (socks s) \<and>
     (sock_inv s \<longrightarrow> sock_inv s') \<and> quiet s s' \<and> cpu_ok s' \<and> umem s' = umem s \<and>
     (\<forall>l. lock_free l s' = lock_free l s)"
proof -
  obtain s' where s': "closeprocsocks_loop p (acquired StableLock s) = Ok (acquired StableLock s')"
    "socks s' = map (\<lambda>k. if owned_by p k then closed_sock k else k) (socks s)"
    "sock_inv s \<longrightarrow> sock_inv s'" "quiet s s'" "cpu_ok s'" "umem s' = umem s" "\<forall>l. lock_free l s' = lock_free l s"
    using closeprocsocks_loop_ok [OF assms(1,2)] by blast
  then show ?thesis
    using assms quiet_trans [OF s'(4) quiet_touched]
    by (intro exI [of _ "touched s'"])
      (auto simp: closeprocsocks_def acquire_free release_held released_acquired sock_inv_def)
qed

section \<open>The second halves after a sleep\<close>

text \<open>
  The scheduler switches back to process \<open>p\<close> with the table lock held; \<open>woken\<close> is the state
  in which the process then enters the socket section again.
\<close>

lemma sk_resumed [simp]:
  "socks (resumed ie s) = socks s" "countSock (resumed ie s) = countSock s"
  "nextsid (resumed ie s) = nextsid s"
  by (simp_all add: resumed_def)

definition woken :: "bool \<Rightarrow> nat \<Rightarrow> 'a sk_scheme \<Rightarrow> 'a sk_scheme" where
  "woken ie p s = resumed ie (upd_proc p (\<lambda>q. q\<lparr>chan := None\<rparr>) s)"

lemma woken_simps [simp]:
  "socks (woken ie p s) = socks s" "countSock (woken ie p s) = countSock s"
  "nextsid (woken ie p s) = nextsid s" "umem (woken ie p s) = umem s"
  "lock_free l (woken ie p s) = lock_free l s" "length (ptable (woken ie p s)) = length (ptable s)"
  "getsock port (woken ie p s) = getsock port s"
  "cpu_ok s \<Longrightarrow> ncli (curcpu s) = 0 \<Longrightarrow> cpu_ok (woken ie p s)"
  "cpu_ok s \<Longrightarrow> curproc (woken ie p s) = curproc s"
  by (simp_all add: woken_def getsock_def)

lemma sock_resume_ok:
  assumes "ready p s"
  shows "sock_resume p (ListenK ie) (acquired PtableLock s) = Ok (Return 0, touched (woken ie p s))"
    and "sock_resume p (SendK ie l r data n) (acquired PtableLock s) =
         send_tail p l r data n (acquired StableLock (woken ie p s))"
    and "sock_resume p (RecvK ie l r data n) (acquired PtableLock s) =
         recv_tail p l data n (acquired StableLock (woken ie p s))"
  using readyD [OF assms]
  by (simp_all add: sleep_return_ok woken_def [symmetric] retsockfunc_ok)

lemma quiet_woken: "quiet s (woken ie p s)"
proof -
  have "quiet s (upd_proc p (\<lambda>q. q\<lparr>chan := None\<rparr>) s)"
    unfolding quiet_def by (simp add: upd_proc_def nth_update_same)
  then show ?thesis unfolding woken_def using quiet_resumed by (rule quiet_trans)
qed

end
