(* ===== verification/Kill.thy ===== *)
theory Kill
  imports Sock_Ops Kcode
begin

text \<open>
  Killing a process: \<open>kill\<close> of \<open>proc.c\<close>, which closes the sockets of its victim while it holds
  \<open>ptable.lock\<close>, and its outcome for a victim with and without sockets.
\<close>

text \<open>\<open>kill\<close> from the point on where it has \<open>ptable.lock\<close>.\<close>

definition kill_locked :: "int \<Rightarrow> ('a sk_scheme, int) kcode" where
  "kill_locked i =
     bindk (getk (\<lambda>s. find_index (\<lambda>q. pid q = i) (ptable s))) (\<lambda>r.
       case r of
         None \<Rightarrow> thenk (dok (release PtableLock)) (retk (-1))
       | Some p \<Rightarrow>
           thenk (modk (upd_proc p (\<lambda>q. q\<lparr>killed := True\<rparr>)))
           (thenk (dok (closeprocsocks (Some p)))
           (thenk (modk (upd_proc p (\<lambda>q. if pstate q = SLEEPING then q\<lparr>pstate := RUNNABLE\<rparr> else q)))
           (thenk (dok (release PtableLock))
           (retk 0)))))"

definition kill :: "int \<Rightarrow> ('a sk_scheme, int) kcode" where
  "kill i = thenk (dok (acquire PtableLock)) (kill_locked i)"

definition owns_socket :: "nat \<Rightarrow> 'a sk_scheme \<Rightarrow> bool" where
  "owns_socket p s \<longleftrightarrow> (\<exists>k\<in>set (socks s). sstate k \<noteq> CLOSED \<and> owner k = Some p)"

lemma getprocsock_owns: "getprocsock p s = None \<longleftrightarrow> \<not> owns_socket p s"
  by (auto simp: getprocsock_def owns_socket_def find_index_None_iff)

lemma upd_proc_twice: "upd_proc p f (upd_proc p g s) = upd_proc p (\<lambda>q. f (g q)) s" if "p < length (ptable s)"
  using that by (simp add: upd_proc_def)

lemma closeprocsocks_none:
  assumes "cpu_ok s" "lock_free StableLock s" "getprocsock p s = None"
  shows "closeprocsocks (Some p) s = Ok (touched s)"
proof -
  have "getprocsock p (acquired StableLock s) = None" using assms(3) by (simp add: getprocsock_def)
  then show ?thesis
    using assms(1,2) by (simp add: closeprocsocks_def closeprocsocks_loop.simps acquire_free release_held released_acquired)
qed

lemma closeprocsocks_some:
  assumes "cpu_ok s" "lock_free StableLock s" "held PtableLock s" "getprocsock p s = Some k"
  shows "closeprocsocks (Some p) s = Panic ''acquire''"
proof -
  let ?t = "acquired StableLock s"
  have "getprocsock p ?t = Some k" using assms(4) by (simp add: getprocsock_def)
  moreover have "cpu_ok ?t" "held PtableLock ?t"
    using assms(1,3) by simp_all
  then have "removesock (Some k) ?t = Panic ''acquire''" by (simp add: removesock_def wakeup_deadlock)
  ultimately show ?thesis
    using assms(1,2) by (simp add: closeprocsocks_def closeprocsocks_loop.simps acquire_free)
qed

definition victim :: "nat \<Rightarrow> 'a sk_scheme \<Rightarrow> 'a sk_scheme" where
  "victim p s = upd_proc p (\<lambda>q. q\<lparr>killed := True, pstate := (if pstate q = SLEEPING then RUNNABLE else pstate q)\<rparr>) s"

lemma kill_outcome:
  fixes s :: "'a sk_scheme"
  assumes c: "cpu_ok s" "lock_free StableLock s" "lock_free PtableLock s"
  shows "kill i s = (case find_index (\<lambda>q. pid q = i) (ptable s) of
      None \<Rightarrow> Ok (-1, touched s)
    | Some p \<Rightarrow> if owns_socket p s then Panic ''acquire'' else Ok (0, touched (victim p s)))"
proof (cases "find_index (\<lambda>q. pid q = i) (ptable s)")
  case None
  then show ?thesis
    using c by (simp add: kill_def kill_locked_def bindk_def thenk_def dok_def getk_def retk_def acquire_free release_held released_acquired)
next
  case (Some p)
  then have p: "p < length (ptable s)" by (rule find_index_SomeD)
  let ?f = "\<lambda>q :: proc. q\<lparr>killed := True\<rparr>" and ?g = "\<lambda>q :: proc. if pstate q = SLEEPING then q\<lparr>pstate := RUNNABLE\<rparr> else q"
  let ?s = "upd_proc p ?f s"
  have g: "getprocsock p (acquired PtableLock ?s) = getprocsock p s" by (simp add: getprocsock_def)
  have e: "(\<lambda>q. ?g (?f q)) = (\<lambda>q. q\<lparr>killed := True, pstate := (if pstate q = SLEEPING then RUNNABLE else pstate q)\<rparr>)"
    by (auto simp: fun_eq_iff intro: proc.equality)
  show ?thesis
  proof (cases "owns_socket p s")
    case True
    then obtain k where "getprocsock p (acquired PtableLock ?s) = Some k" using getprocsock_owns [of p s] g by auto
    then have "closeprocsocks (Some p) (acquired PtableLock ?s) = Panic ''acquire''"
      using c by (intro closeprocsocks_some) simp_all
    then show ?thesis
      using Some True c by (simp add: kill_def kill_locked_def bindk_def thenk_def dok_def getk_def modk_def acquire_free)
  next
    case False
    then have "closeprocsocks (Some p) (acquired PtableLock ?s) = Ok (acquired PtableLock ?s)"
      using c g getprocsock_owns [of p s] by (subst closeprocsocks_none) simp_all
    then show ?thesis
      using Some False c p e by (simp add: kill_def kill_locked_def victim_def bindk_def thenk_def dok_def getk_def modk_def retk_def
          acquire_free release_held released_acquired upd_proc_twice)
  qed
qed

end
