(* ===== verification/Sock_System.thy ===== *)
theory Sock_System
  imports Kill
begin

text \<open>
  All interleavings of socket calls: several processors run processes that make socket
  calls, are preempted, sleep inside a call and are resumed by the scheduler, in any
  order. The invariant of the socket table holds in every reachable state, which needs
  that the socket of a process asleep in \<open>send\<close> or \<open>recv\<close> is still open and its own when
  the call goes on.
\<close>

section \<open>The system\<close>

datatype sock_op = Listen int | Connect int reader | Send int u32 int | Recv int u32 int | Disconnect int

fun sock_call :: "sock_op \<Rightarrow> 'a sk_scheme \<Rightarrow> 'a sock_result" where
  "sock_call (Listen port) s = listen port s"
| "sock_call (Connect port host) s = connect port host s"
| "sock_call (Send port data n) s = send port data n s"
| "sock_call (Recv port data n) s = recv port data n s"
| "sock_call (Disconnect port) s = disconnect port s"

text \<open>What the kernel stack of a process that is switched out holds.\<close>

datatype saved = InSock sock_cont | Preempted bool

type_synonym sys = "sk \<times> (nat \<Rightarrow> saved option)"

text \<open>
  The scheduler's scan from slot \<open>k\<close> on, with the table lock held: it ends the round, or
  switches to the first runnable process, which goes on where it was switched out.
\<close>

definition scan :: "nat \<Rightarrow> sys \<Rightarrow> sys outcome" where
  "scan k x =
     andthen (scheduler_pick k (fst x)) (\<lambda>(q, s1).
       case q of
         None \<Rightarrow> andthen (scheduler_end s1) (\<lambda>s2. Ok (s2, snd x))
       | Some i \<Rightarrow>
           (case snd x i of
              None \<Rightarrow> Fault
            | Some (Preempted ie) \<Rightarrow> andthen (yield_return ie s1) (\<lambda>s2. Ok (s2, (snd x)(i := None)))
            | Some (InSock c) \<Rightarrow>
                andthen (sock_resume i c s1) (\<lambda>(r, s2).
                  case r of Return _ \<Rightarrow> Ok (s2, (snd x)(i := None)) | Sleeps _ \<Rightarrow> Fault)))"

text \<open>
  One step of the processor that executes: another processor takes its turn; the running
  process makes a socket call that returns or sleeps, closes its sockets, kills a process,
  writes its own memory, or is preempted; an idle processor starts a round of the scheduler.
  A call that waits for a lock or panics is no step.
\<close>

inductive sys_step :: "sys \<Rightarrow> sys \<Rightarrow> bool" where
  turn: "k \<in> set (cpus s) \<Longrightarrow> sys_step (s, ks) (s\<lparr>hwid := apicid k\<rparr>, ks)"
| call: "curproc s = Some p \<Longrightarrow> sock_call c s = Ok (Return r, s') \<Longrightarrow> sys_step (s, ks) (s', ks)"
| call_sleeps: "curproc s = Some p \<Longrightarrow> sock_call c s = Ok (Sleeps k, s1) \<Longrightarrow> scheduler_back s1 = Ok s2 \<Longrightarrow>
    scan (Suc p) (s2, ks(p := Some (InSock k))) = Ok y \<Longrightarrow> sys_step (s, ks) y"
| close_all: "curproc s = Some p \<Longrightarrow> closeprocsocks (Some p) s = Ok s' \<Longrightarrow> sys_step (s, ks) (s', ks)"
| kills: "curproc s = Some p \<Longrightarrow> kill i s = Ok (r, s') \<Longrightarrow> sys_step (s, ks) (s', ks)"
| user: "curproc s = Some p \<Longrightarrow> sys_step (s, ks) (s\<lparr>umem := (umem s)(p := m)\<rparr>, ks)"
| preempt: "curproc s = Some p \<Longrightarrow> yield s = Ok (ie, s1) \<Longrightarrow> scheduler_back s1 = Ok s2 \<Longrightarrow>
    scan (Suc p) (s2, ks(p := Some (Preempted ie))) = Ok y \<Longrightarrow> sys_step (s, ks) y"
| idle: "curproc s = None \<Longrightarrow> scheduler_round s = Ok s1 \<Longrightarrow> scan 0 (s1, ks) = Ok y \<Longrightarrow> sys_step (s, ks) y"

text \<open>The start: processors idle, locks free, no socket open, every process switched out.\<close>

definition sys_init :: "sys \<Rightarrow> bool" where
  "sys_init x \<longleftrightarrow> (let s = fst x; ks = snd x in
     distinct (map apicid (cpus s)) \<and> hwid s \<in> apicid ` set (cpus s) \<and>
     (\<forall>k\<in>set (cpus s). ncli k = 0 \<and> cproc k = None) \<and>
     lock_free StableLock s \<and> lock_free PtableLock s \<and>
     length (socks s) = NSOCK \<and> (\<forall>k\<in>set (socks s). sstate k = CLOSED \<and> length (recvbuffer k) = SBUFFSIZE) \<and>
     countSock s = 0 \<and>
     (\<forall>q<length (ptable s). pstate (ptable s ! q) = RUNNABLE \<and> (\<exists>ie. ks q = Some (Preempted ie)) \<or>
        pstate (ptable s ! q) = UNUSED \<and> ks q = None))"

inductive sys_reachable :: "sys \<Rightarrow> bool" where
  start: "sys_init x \<Longrightarrow> sys_reachable x"
| go: "sys_reachable x \<Longrightarrow> sys_step x y \<Longrightarrow> sys_reachable y"

section \<open>The invariant of the system\<close>

text \<open>The socket a suspended call works on is open, connected and owned by the process.\<close>

definition holds_sock :: "nat \<Rightarrow> nat \<Rightarrow> 'a sk_scheme \<Rightarrow> bool" where
  "holds_sock q l s \<longleftrightarrow> l < NSOCK \<and> sstate (socks s ! l) = CONNECTED \<and> owner (socks s ! l) = Some q"

fun cont_ok :: "nat \<Rightarrow> sock_cont \<Rightarrow> 'a sk_scheme \<Rightarrow> bool" where
  "cont_ok q (ListenK ie) s = True"
| "cont_ok q (SendK ie l r data n) s = (holds_sock q l s \<and> r < NSOCK)"
| "cont_ok q (RecvK ie l r data n) s = (holds_sock q l s \<and> r < NSOCK)"

definition owners_ok :: "'a sk_scheme \<Rightarrow> bool" where
  "owners_ok s \<longleftrightarrow> (\<forall>i<NSOCK. is_open (socks s ! i) \<longrightarrow>
     (\<exists>q<length (ptable s). owner (socks s ! i) = Some q))"

definition proc_ok :: "nat \<Rightarrow> saved option \<Rightarrow> 'a sk_scheme \<Rightarrow> bool" where
  "proc_ok q k s \<longleftrightarrow>
     (case k of
        None \<Rightarrow> pstate (ptable s ! q) \<in> {RUNNING, UNUSED}
      | Some (Preempted ie) \<Rightarrow> pstate (ptable s ! q) = RUNNABLE
      | Some (InSock c) \<Rightarrow> pstate (ptable s ! q) \<in> {SLEEPING, RUNNABLE} \<and> cont_ok q c s)"

text \<open>Processors, between two steps: identified by APIC id, in no section, no process twice.\<close>

definition cpus_ok :: "'a sk_scheme \<Rightarrow> bool" where
  "cpus_ok s \<longleftrightarrow> distinct (map apicid (cpus s)) \<and> hwid s \<in> apicid ` set (cpus s) \<and>
     (\<forall>c<length (cpus s). ncli (cpus s ! c) = 0) \<and>
     (\<forall>c<length (cpus s). \<forall>p. cproc (cpus s ! c) = Some p \<longrightarrow>
        p < length (ptable s) \<and> pstate (ptable s ! p) = RUNNING) \<and>
     (\<forall>c<length (cpus s). \<forall>d<length (cpus s). \<forall>p. cproc (cpus s ! c) = Some p \<longrightarrow>
        cproc (cpus s ! d) = Some p \<longrightarrow> c = d)"

definition sys_inv :: "sys \<Rightarrow> bool" where
  "sys_inv x \<longleftrightarrow> (let s = fst x; ks = snd x in
     cpus_ok s \<and> lock_free StableLock s \<and> lock_free PtableLock s \<and>
     sock_inv s \<and> owners_ok s \<and> (\<forall>q<length (ptable s). proc_ok q (ks q) s))"

lemma cpus_okD:
  assumes "cpus_ok s" and "c < length (cpus s)"
  shows "ncli (cpus s ! c) = 0"
    and "cproc (cpus s ! c) = Some p \<Longrightarrow> p < length (ptable s) \<and> pstate (ptable s ! p) = RUNNING"
    and "d < length (cpus s) \<Longrightarrow> cproc (cpus s ! c) = Some p \<Longrightarrow> cproc (cpus s ! d) = Some p \<Longrightarrow> c = d"
  using assms unfolding cpus_ok_def by simp_all

lemma cpus_ok_cpu_ok:
  assumes "cpus_ok s"
  shows "cpu_ok s" and "ncli (curcpu s) = 0"
proof -
  have "hwid s \<in> apicid ` set (cpus s)" using assms by (simp add: cpus_ok_def)
  then have "find_index (\<lambda>c. apicid c = hwid s) (cpus s) \<noteq> None"
    by (auto simp: find_index_None_iff)
  then obtain c where c: "find_index (\<lambda>k. apicid k = hwid s) (cpus s) = Some c" by blast
  then have "cur s = c" "c < length (cpus s)" by (auto simp: cur_def dest: find_index_SomeD)
  then show "cpu_ok s" "ncli (curcpu s) = 0"
    using cpus_okD(1) [OF assms] c by (auto simp: cpu_ok_def)
qed

lemma sys_inv_ready:
  assumes "sys_inv (s, ks)" and "curproc s = Some p"
  shows "ready p s" and "pstate (ptable s ! p) = RUNNING" and "p < length (ptable s)" and "ks p = None"
proof -
  have c: "cpus_ok s" and l: "lock_free StableLock s" "lock_free PtableLock s"
    using assms by (auto simp: sys_inv_def)
  note k = cpus_ok_cpu_ok [OF c]
  show p: "p < length (ptable s)" "pstate (ptable s ! p) = RUNNING"
    using cpus_okD(2) [OF c cur_less [OF k(1)]] assms(2) by (simp_all add: curproc_def)
  show "ready p s" using k l p assms(2) by (simp add: ready_def)
  have "proc_ok p (ks p) s" using assms(1) p by (simp add: sys_inv_def)
  then show "ks p = None" using p by (auto simp: proc_ok_def split: option.splits saved.splits)
qed

section \<open>What a socket call changes in the table\<close>

text \<open>
  Inside the table, a call of process \<open>p\<close> keeps the invariant, opens sockets for \<open>p\<close> only,
  and leaves connected sockets of other processes connected.
\<close>

definition table_step :: "nat \<Rightarrow> 'a sk_scheme \<Rightarrow> 'a sk_scheme \<Rightarrow> bool" where
  "table_step p s s' \<longleftrightarrow> (sock_inv s \<longrightarrow> sock_inv s' \<and>
     (\<forall>i<NSOCK. is_open (socks s' ! i) \<longrightarrow>
        owner (socks s' ! i) = Some p \<or> is_open (socks s ! i) \<and> owner (socks s' ! i) = owner (socks s ! i)) \<and>
     (\<forall>q i. q \<noteq> p \<longrightarrow> holds_sock q i s \<longrightarrow> holds_sock q i s'))"

lemma table_step_same:
  "socks s' = socks s \<Longrightarrow> countSock s' = countSock s \<Longrightarrow> table_step p s s'"
  by (simp add: table_step_def sock_inv_def holds_sock_def)

lemma table_step_trans: "table_step p s s' \<Longrightarrow> table_step p s' s'' \<Longrightarrow> table_step p s s''"
  unfolding table_step_def by metis

lemma table_step_slot:
  assumes "socks s' = (socks s)[i := k]" and "sock_inv s \<Longrightarrow> sock_inv s'"
    and "is_open k \<Longrightarrow> owner k = Some p \<or> is_open (socks s ! i) \<and> owner k = owner (socks s ! i)"
    and "sstate (socks s ! i) = CONNECTED \<Longrightarrow>
      owner (socks s ! i) = Some p \<or> sstate k = CONNECTED \<and> owner k = owner (socks s ! i)"
  shows "table_step p s s'"
  unfolding table_step_def
proof (intro impI conjI allI)
  assume inv: "sock_inv s"
  then show "sock_inv s'" by (rule assms(2))
  have nth: "socks s' ! j = (if j = i then k else socks s ! j)" if "j < NSOCK" for j
    using that inv assms(1) by (auto simp: sock_inv_def table_ok_def)
  show "owner (socks s' ! j) = Some p \<or> is_open (socks s ! j) \<and> owner (socks s' ! j) = owner (socks s ! j)"
    if "j < NSOCK" "is_open (socks s' ! j)" for j
    using that nth [OF that(1)] assms(3) by (cases "j = i") auto
  show "holds_sock q j s'" if "q \<noteq> p" "holds_sock q j s" for q j
    using that nth [of j] assms(4) by (cases "j = i") (auto simp: holds_sock_def)
qed

lemma sock_inv_view:
  "socks s' = socks s \<Longrightarrow> countSock s' = countSock s \<Longrightarrow> sock_inv s' = sock_inv s"
  by (simp add: sock_inv_def)

lemma slot_len: "sock_inv s \<Longrightarrow> length (socks s) = NSOCK"
  by (simp add: sock_inv_def table_ok_def)

lemma slot_buf: "sock_inv s \<Longrightarrow> i < NSOCK \<Longrightarrow> length (recvbuffer (socks s ! i)) = SBUFFSIZE"
  by (simp add: sock_inv_def table_okD)

lemma dropped_inv:
  assumes "sock_inv s" "i < NSOCK" "is_open (socks s ! i)"
  shows "sock_inv (dropped i s)"
proof -
  have cl: "\<not> is_open (closed_sock k)" for k by (simp add: is_open_def)
  have "length (recvbuffer (closed_sock (socks s ! i))) = SBUFFSIZE"
    using slot_buf [OF assms(1,2)] by (simp add: closed_sock_def)
  then have "table_ok (socks (dropped i s))"
    using assms cl by (auto simp: sock_inv_def intro!: table_ok_update)
  moreover have "count_slots is_open (socks (dropped i s)) + 1 = count_slots is_open (socks s)"
    using count_slots_update [of i "socks s" is_open "closed_sock (socks s ! i)"] assms cl slot_len [OF assms(1)]
    by simp
  ultimately show ?thesis
    using assms(1) sock_inv_count_bounds [OF assms(1)] by (simp add: sock_inv_def wrap32_id)
qed

lemma table_step_dropped:
  assumes "i < NSOCK" "is_open (socks s ! i)" "owner (socks s ! i) = Some p"
  shows "table_step p s (dropped i s)"
  by (rule table_step_slot [OF dropped_simps(1)]) (use assms dropped_inv in \<open>simp_all add: is_open_def\<close>)

lemma table_step_delivered:
  assumes "r < NSOCK" "nat n \<le> SBUFFSIZE"
  shows "table_step p s (delivered p l r data n s)"
proof (rule table_step_slot)
  let ?k = "(socks s ! r)\<lparr>recvbuffer := strncpy_out (at (umem s p) data) (nat n) @ drop (nat n) (recvbuffer (socks s ! r)),
    hasfullbuffer := True\<rparr>"
  show ks: "socks (delivered p l r data n s) = (socks s)[r := ?k]"
    by (simp add: delivered_def socks_upd_sock)
  show "sock_inv s \<Longrightarrow> sock_inv (delivered p l r data n s)"
    using assms slot_buf [of s r] by (rule_tac sock_inv_keep [OF _ ks])
      (simp_all add: delivered_def is_open_def)
qed (simp_all add: is_open_def)

lemma table_step_fetched:
  assumes "l < NSOCK"
  shows "table_step p s (fetched p l data n s)"
proof (rule table_step_slot [OF fetched_simps(6)])
  show "sock_inv s \<Longrightarrow> sock_inv (fetched p l data n s)"
    using assms slot_buf [of s l] by (rule_tac sock_inv_keep [OF _ fetched_simps(6)])
      (simp_all add: is_open_def)
qed (simp_all add: is_open_def)

lemma getsock_slot: "sock_inv s \<Longrightarrow> getsock port s = Some i \<Longrightarrow> i < NSOCK"
  using getsock_Some(1) slot_len by metis

text \<open>The state after \<open>allocsock\<close> took slot \<open>i\<close> for process \<open>p\<close>, with a further change \<open>f\<close> of the slot.\<close>

definition allocated :: "nat \<Rightarrow> int \<Rightarrow> nat \<Rightarrow> (sock \<Rightarrow> sock) \<Rightarrow> 'a sk_scheme \<Rightarrow> 'a sk_scheme" where
  "allocated p lport i f s =
     (upd_sock i (\<lambda>k. f (opened_sock (nextsid s) (Some p) lport k)) s)
       \<lparr>countSock := wrap32 (countSock s + 1), nextsid := wrap32 (nextsid s + 1)\<rparr>"

lemma table_step_allocated:
  assumes "valid_port lport" "getsock lport s = None"
    and i: "find_index (\<lambda>k. sstate k = CLOSED) (socks s) = Some i"
    and f: "\<And>k. is_open (f (opened_sock n (Some p) lport k))"
      "\<And>k. owner (f (opened_sock n (Some p) lport k)) = Some p"
      "\<And>k. lPort (f (opened_sock n (Some p) lport k)) = lport"
      "\<And>k. recvbuffer (f (opened_sock n (Some p) lport k)) = recvbuffer (opened_sock n (Some p) lport k)"
    and n: "n = nextsid s"
  shows "table_step p s (allocated p lport i f s)"
proof (rule table_step_slot)
  let ?k = "f (opened_sock (nextsid s) (Some p) lport (socks s ! i))"
  note c = closed_slot [OF i]
  show ks: "socks (allocated p lport i f s) = (socks s)[i := ?k]"
    by (simp add: allocated_def socks_upd_sock)
  show "sock_inv (allocated p lport i f s)" if inv: "sock_inv s"
  proof -
    have il: "i < NSOCK" using c(1) slot_len [OF inv] by simp
    have "length (recvbuffer ?k) = SBUFFSIZE"
      using f(4) slot_buf [OF inv il] n by (simp add: opened_sock_def)
    moreover have "j < NSOCK \<Longrightarrow> is_open (socks s ! j) \<Longrightarrow> lPort (socks s ! j) \<noteq> lport" for j
      using assms(2) getsock_None_iff [OF inv] by blast
    ultimately have "table_ok ((socks s)[i := ?k])"
      using inv il assms(1) f(3) n by (intro table_ok_update) (auto simp: sock_inv_def valid_port_def)
    moreover have "count_slots is_open ((socks s)[i := ?k]) = count_slots is_open (socks s) + 1"
      using count_slots_update [OF c(1), of is_open ?k] c(2) f(1) n by simp
    ultimately show ?thesis
      using inv sock_inv_count_bounds [OF inv] unfolding sock_inv_def ks
      by (simp add: allocated_def wrap32_id)
  qed
qed (use f n closed_slot [OF i] in \<open>auto simp: is_open_def\<close>)

lemma table_step_linked:
  assumes inv: "sock_inv s" and "valid_port lport" "getsock lport s = None"
    and l: "find_index (\<lambda>k. sstate k = CLOSED) (socks s) = Some l"
    and r: "getsock rport s = Some r" "sstate (socks s ! r) = LISTENING"
  shows "table_step p s (linked p l r lport rport s)"
proof -
  let ?a = "allocated p lport l (\<lambda>k. k\<lparr>sstate := CONNECTED, rPort := rport\<rparr>) s"
  have a: "table_step p s ?a"
    using assms by (intro table_step_allocated) (simp_all add: is_open_def)
  have lr: "l \<noteq> r" using closed_slot [OF l] r(2) by (auto simp: is_open_def)
  then have ar: "socks ?a ! r = socks s ! r" by (simp add: allocated_def socks_upd_sock)
  have rl: "r < NSOCK" using getsock_slot [OF inv r(1)] .
  have "table_step p ?a (linked p l r lport rport s)"
  proof (rule table_step_slot)
    let ?k = "(socks ?a ! r)\<lparr>sstate := CONNECTED, rPort := lport, hasfullbuffer := False\<rparr>"
    show ks: "socks (linked p l r lport rport s) = (socks ?a)[r := ?k]"
      using lr by (simp add: linked_def allocated_def socks_upd_sock)
    show "sock_inv ?a \<Longrightarrow> sock_inv (linked p l r lport rport s)"
      using rl r(2) ar slot_buf [of ?a r]
      by (rule_tac sock_inv_keep [OF _ ks]) (simp_all add: allocated_def is_open_def)
  qed (use ar r(2) in \<open>simp_all add: is_open_def\<close>)
  with a show ?thesis by (rule table_step_trans)
qed

section \<open>Every outcome of a call\<close>

text \<open>
  A call, or the rest of one, that is made with the locks free: it returns, it sleeps with
  the table lock handed to the scheduler, or it leaves a buffer. It never panics and never
  waits for a lock.
\<close>

definition sleeping :: "nat \<Rightarrow> nat \<Rightarrow> 'a sk_scheme \<Rightarrow> 'a sk_scheme" where
  "sleeping p i s = upd_proc p (\<lambda>q. q\<lparr>chan := Some (SockChan i), pstate := SLEEPING\<rparr>) s"

inductive good_outcome :: "nat \<Rightarrow> 'a sk_scheme \<Rightarrow> 'a sock_result \<Rightarrow> bool" for p s where
  returns: "quiet s s' \<Longrightarrow> table_step p s s' \<Longrightarrow> good_outcome p s (Ok (Return r, s'))"
| sleeps: "quiet s s' \<Longrightarrow> table_step p s s' \<Longrightarrow> cont_ok p k s' \<Longrightarrow>
    good_outcome p s (Ok (Sleeps k, acquired PtableLock (sleeping p i s')))"
| faults: "good_outcome p s Fault"

inductive_cases good_returnE: "good_outcome p s (Ok (Return r, s'))"
inductive_cases good_sleepE: "good_outcome p s (Ok (Sleeps k, s'))"
inductive_simps good_outcome_bad: "good_outcome p s (Panic m)" "good_outcome p s Block"

lemma good_return:
  assumes "quiet s s'" "table_step p s s'"
  shows "good_outcome p s (Ok (Return r, touched s'))"
  using quiet_trans [OF assms(1) quiet_touched] table_step_trans [OF assms(2) table_step_same]
  by (intro good_outcome.returns) simp_all

lemma good_return_same: "good_outcome p s (Ok (Return r, touched s))" "good_outcome p s (Ok (Return r, s))"
  by (simp_all add: good_return good_outcome.returns quiet_refl table_step_same)

lemma good_before:
  assumes "good_outcome p s' x" "quiet s s'" "table_step p s s'"
  shows "good_outcome p s x"
  using assms(1)
  by cases (auto intro: good_outcome.intros quiet_trans [OF assms(2)] table_step_trans [OF assms(3)])

lemma listen_good:
  assumes r: "ready p s" and inv: "sock_inv s"
  shows "good_outcome p s (listen lport s)"
proof (cases "valid_port lport \<and> countSock s \<noteq> int NSOCK \<and> getsock lport s = None")
  case True
  then obtain i where i: "find_index (\<lambda>k. sstate k = CLOSED) (socks s) = Some i"
    "listen lport s = Ok (Sleeps (ListenK (saved_intena s)), acquired PtableLock (listening p lport i s))"
    using listen_ok [OF r inv] by blast
  let ?a = "allocated p lport i (\<lambda>k. k\<lparr>sstate := LISTENING\<rparr>) s"
  have "listening p lport i s = sleeping p i ?a"
    by (simp add: listening_def sleeping_def allocated_def)
  moreover have "quiet s ?a"
    by (rule quiet_same) (simp_all add: allocated_def upd_sock_def)
  moreover have "table_step p s ?a"
    using True i by (intro table_step_allocated) (simp_all add: is_open_def)
  ultimately show ?thesis using i by (simp add: good_outcome.sleeps)
next
  case False
  then show ?thesis
    using listen_invalid [of lport s] listen_full [OF r] listen_taken [OF r]
    by (cases "valid_port lport"; cases "countSock s = int NSOCK") (auto simp: good_return_same)
qed

lemma connect_good:
  assumes r: "ready p s" and inv: "sock_inv s"
  shows "good_outcome p s (connect rport host s)"
proof (cases "valid_port rport")
  case v: True
  show ?thesis
  proof (cases "local_host host")
    case h: True
    show ?thesis
    proof (cases "getsock rport s")
      case None
      then show ?thesis using connect_notfound [OF r inv v h] by (simp add: good_return_same)
    next
      case (Some q)
      note c = connect_wrong_state [OF r inv v h Some] connect_full [OF r inv v h Some]
        connect_ok [OF r inv h Some]
      show ?thesis
      proof (cases "sstate (socks s ! q) = LISTENING \<and> countSock s \<noteq> int NSOCK")
        case True
        then obtain l where l: "find_index (\<lambda>k. sstate k = CLOSED) (socks s) = Some l"
          using allocsock_full [OF inv] by auto
        have "table_step p s (linked p l q (getfreeport s) rport s)"
          using table_step_linked [OF inv _ _ l Some] getfreeport_spec [OF inv] True by simp
        then show ?thesis using True c(3) l good_return [OF quiet_linked] by simp
      next
        case False
        then show ?thesis
          using c(1,2) by (cases "sstate (socks s ! q) = LISTENING") (simp_all add: good_return_same)
      qed
    qed
  next
    case False
    show ?thesis
    proof (cases "strlen host")
      case None
      then show ?thesis using v by (simp add: connect_def valid_port_def good_outcome.faults)
    next
      case (Some n)
      then show ?thesis using connect_other_host [OF v Some False, of s] by (simp add: good_return_same)
    qed
  qed
qed (simp add: connect_invalid good_return_same)

lemma tails_good:
  assumes c: "cpu_ok s" "lock_free StableLock s" "lock_free PtableLock s"
    and h: "holds_sock p l s" "r < NSOCK"
  shows "good_outcome p s (send_tail p l r data n (acquired StableLock s))"
    and "good_outcome p s (recv_tail p l data n (acquired StableLock s))"
proof -
  have o: "l < NSOCK" "is_open (socks s ! l)" "owner (socks s ! l) = Some p"
    using h by (auto simp: holds_sock_def is_open_def)
  have d: "good_outcome p s (Ok (Return e, touched (dropped l s)))" for e
    using good_return [OF quiet_dropped table_step_dropped [OF o]] .
  show "good_outcome p s (send_tail p l r data n (acquired StableLock s))"
  proof (cases "getsock (rPort (socks s ! l)) s")
    case None
    then show ?thesis using send_tail_reset [OF c] d by simp
  next
    case (Some q)
    show ?thesis
    proof (cases "\<not> strncpy_overflows n \<and> nat n \<le> SBUFFSIZE \<and>
        in_uvm p data (strncpy_reads (at (umem s p) data) (nat n)) s")
      case True
      then show ?thesis
        using send_tail_ok [OF c] Some
          good_return [OF quiet_delivered table_step_delivered [OF h(2), of n p s l data]] by simp
    next
      case False
      then have "send_tail p l r data n (acquired StableLock s) = Fault"
        using Some by (auto simp: send_tail_def)
      then show ?thesis by (simp add: good_outcome.faults)
    qed
  qed
  let ?f = "fetched p l data n s"
  have f: "quiet s ?f" "table_step p s ?f"
    using quiet_fetched table_step_fetched o(1) by blast+
  have "is_open (socks ?f ! l)" "owner (socks ?f ! l) = Some p"
    using o by (simp_all add: nth_update_same is_open_def)
  then have fd: "good_outcome p s (Ok (Return e, touched (dropped l ?f)))" for e
    using good_before [OF good_return [OF quiet_dropped table_step_dropped] f] o(1) by blast
  show "good_outcome p s (recv_tail p l data n (acquired StableLock s))"
  proof (cases "readable p l data n s")
    case True
    then show ?thesis
      using recv_tail_cases [OF c] fd good_return [OF f] by simp
  next
    case False
    then have "recv_tail p l data n (acquired StableLock s) = Fault"
      by (auto simp: recv_tail_def readable_def Let_def)
    then show ?thesis by (simp add: good_outcome.faults)
  qed
qed

lemma asleep_sleeping: "asleep = sleeping"
  by (intro ext) (simp add: asleep_def sleeping_def)

lemma send_recv_good:
  assumes r: "ready p s" and inv: "sock_inv s"
  shows "good_outcome p s (send lport data n s)" and "good_outcome p s (recv lport data n s)"
proof -
  have "good_outcome p s (send lport data n s) \<and> good_outcome p s (recv lport data n s)"
  proof (cases "endpoint p lport s")
    case (Inl e)
    then show ?thesis using send_error [OF r Inl] recv_error [OF r Inl] by (simp add: good_return_same)
  next
    case (Inr lr)
    obtain l q where lr: "endpoint p lport s = Inr (l, q)" using Inr by (cases lr) simp
    note e = endpoint_Inr [OF lr]
    have h: "holds_sock p l s" "q < NSOCK"
      using e getsock_slot [OF inv] by (auto simp: holds_sock_def)
    note t = tails_good [OF readyD(1,5,6) [OF r] h]
    have "good_outcome p s (Ok (Sleeps (SendK (saved_intena s) l q data n), acquired PtableLock (asleep p q s)))"
      "good_outcome p s (Ok (Sleeps (RecvK (saved_intena s) l q data n), acquired PtableLock (asleep p q s)))"
      unfolding asleep_sleeping using h
      by (intro good_outcome.sleeps quiet_refl table_step_same; simp)+
    then show ?thesis
      using send_entry [OF r lr] recv_entry [OF r lr] t by simp
  qed
  then show "good_outcome p s (send lport data n s)" "good_outcome p s (recv lport data n s)" by blast+
qed

lemma disconnect_good:
  assumes r: "ready p s" and inv: "sock_inv s"
  shows "good_outcome p s (disconnect lport s)"
proof -
  have "good_outcome p s (Ok (Return 0, touched (dropped l s)))"
    if "getsock lport s = Some l" "owner (socks s ! l) = Some p" for l
    using that getsock_slot [OF inv that(1)] getsock_Some(2) [OF that(1)]
    by (intro good_return quiet_dropped table_step_dropped)
  then show ?thesis
    using disconnect_cases [OF r, of lport] by (auto simp: good_return_same split: option.split)
qed

lemma sock_call_good: "ready p s \<Longrightarrow> sock_inv s \<Longrightarrow> good_outcome p s (sock_call c s)"
  by (cases c) (simp_all add: listen_good connect_good send_recv_good disconnect_good)

lemma sock_resume_good:
  assumes r: "ready p s" and inv: "sock_inv s" and k: "cont_ok p c s"
  shows "good_outcome p s (sock_resume p c (acquired PtableLock s))"
proof -
  have w: "quiet s (woken ie p s)" "table_step p s (woken ie p s)" for ie
    by (simp_all add: quiet_woken table_step_same)
  have t: "good_outcome p s (send_tail p l q data n (acquired StableLock (woken ie p s)))"
    "good_outcome p s (recv_tail p l data n (acquired StableLock (woken ie p s)))"
    if "holds_sock p l s" "q < NSOCK" for l q data n ie
    using that readyD [OF r]
    by (intro good_before [OF tails_good(1) w] good_before [OF tails_good(2) w]; simp add: holds_sock_def)+
  show ?thesis
    using k good_return [OF w] t by (cases c) (auto simp: sock_resume_ok [OF r] simp del: sock_resume.simps)
qed

text \<open>A call that was resumed does not sleep again.\<close>

lemma resume_returns: "sock_resume p c s = Ok (r, s') \<Longrightarrow> \<exists>v. r = Return v"
  by (cases c) (auto simp: send_tail_def recv_tail_def retsockfunc_def Let_def elim!: andthen_OkE
      split: if_split_asm prod.split_asm)

section \<open>Preservation\<close>

lemma quietD:
  assumes "quiet s s'"
  shows "hwid s' = hwid s" "locks s' = locks s" "length (cpus s') = length (cpus s)"
    "map apicid (cpus s') = map apicid (cpus s)" "length (ptable s') = length (ptable s)"
    and "c < length (cpus s) \<Longrightarrow> ncli (cpus s' ! c) = ncli (cpus s ! c)"
    and "c < length (cpus s) \<Longrightarrow> cproc (cpus s' ! c) = cproc (cpus s ! c)"
    and "q < length (ptable s) \<Longrightarrow> pstate (ptable s' ! q) = pstate (ptable s ! q) \<or>
        pstate (ptable s ! q) = SLEEPING \<and> pstate (ptable s' ! q) = RUNNABLE"
proof -
  show len: "length (cpus s') = length (cpus s)"
    using assms unfolding quiet_def by (metis length_map)
  show "c < length (cpus s) \<Longrightarrow> ncli (cpus s' ! c) = ncli (cpus s ! c)"
    "c < length (cpus s) \<Longrightarrow> cproc (cpus s' ! c) = cproc (cpus s ! c)"
    using assms len unfolding quiet_def by (metis nth_map)+
qed (use assms in \<open>simp_all add: quiet_def\<close>)

lemma cpus_okI:
  assumes "distinct (map apicid (cpus s))" "hwid s \<in> set (map apicid (cpus s))"
    and "\<And>c. c < length (cpus s) \<Longrightarrow> ncli (cpus s ! c) = 0"
    and "\<And>c p. c < length (cpus s) \<Longrightarrow> cproc (cpus s ! c) = Some p \<Longrightarrow>
      p < length (ptable s) \<and> pstate (ptable s ! p) = RUNNING"
    and "\<And>c d p. c < length (cpus s) \<Longrightarrow> d < length (cpus s) \<Longrightarrow> cproc (cpus s ! c) = Some p \<Longrightarrow>
      cproc (cpus s ! d) = Some p \<Longrightarrow> c = d"
  shows "cpus_ok s"
  using assms unfolding cpus_ok_def by simp

lemma cpus_ok_ids:
  assumes "cpus_ok s"
  shows "distinct (map apicid (cpus s))" "hwid s \<in> set (map apicid (cpus s))"
  using assms by (simp_all add: cpus_ok_def)

lemma cpus_ok_quiet:
  assumes "cpus_ok s" and q: "quiet s s'"
  shows "cpus_ok s'"
proof (rule cpus_okI)
  note d = quietD [OF q]
  show "distinct (map apicid (cpus s'))" "hwid s' \<in> set (map apicid (cpus s'))"
    using cpus_ok_ids [OF assms(1)] by (simp_all only: d)
  show "ncli (cpus s' ! c) = 0" if "c < length (cpus s')" for c
    using that d(3,6) cpus_okD(1) [OF assms(1)] by simp
  show "p < length (ptable s') \<and> pstate (ptable s' ! p) = RUNNING"
    if "c < length (cpus s')" "cproc (cpus s' ! c) = Some p" for c p
    using that d(3,5,7) d(8) [of p] cpus_okD(2) [OF assms(1), of c p] by auto
  show "c = e" if "c < length (cpus s')" "e < length (cpus s')" "cproc (cpus s' ! c) = Some p"
    "cproc (cpus s' ! e) = Some p" for c e p
    using that d(3,7) cpus_okD(3) [OF assms(1), of c e p] by simp
qed

lemma cont_ok_step:
  assumes "sock_inv s" "table_step p s s'" "cont_ok q c s" "q \<noteq> p"
  shows "cont_ok q c s'"
  using assms unfolding table_step_def by (cases c) auto

lemma sys_inv_quiet:
  assumes inv: "sys_inv (s, ks)" and q: "quiet s s'" and t: "table_step p s s'"
    and p: "p < length (ptable s)" "\<And>c. ks p \<noteq> Some (InSock c)"
  shows "sys_inv (s', ks)"
proof -
  have i: "cpus_ok s" "lock_free StableLock s" "lock_free PtableLock s" "sock_inv s" "owners_ok s"
    and pr: "\<And>j. j < length (ptable s) \<Longrightarrow> proc_ok j (ks j) s"
    using inv by (auto simp: sys_inv_def)
  note d = quietD [OF q]
  have "owners_ok s'"
    unfolding owners_ok_def
  proof (intro allI impI)
    fix j assume "j < NSOCK" "is_open (socks s' ! j)"
    then have "owner (socks s' ! j) = Some p \<or> is_open (socks s ! j) \<and> owner (socks s' ! j) = owner (socks s ! j)"
      using t i(4) by (simp add: table_step_def)
    then show "\<exists>q<length (ptable s'). owner (socks s' ! j) = Some q"
      using p(1) i(5) \<open>j < NSOCK\<close> d(5) by (auto simp: owners_ok_def)
  qed
  moreover have "proc_ok j (ks j) s'" if "j < length (ptable s)" for j
  proof (cases "\<exists>c. ks j = Some (InSock c)")
    case True
    then obtain c where c: "ks j = Some (InSock c)" by blast
    then have "j \<noteq> p" using p(2) by auto
    then show ?thesis
      using pr [OF that] c d(8) [OF that] cont_ok_step [OF i(4) t, of j c] by (auto simp: proc_ok_def)
  next
    case False
    then show ?thesis
      using pr [OF that] d(8) [OF that] by (auto simp: proc_ok_def split: option.splits saved.splits)
  qed
  moreover have "sock_inv s'" using t i(4) by (simp add: table_step_def)
  ultimately show ?thesis
    using i d cpus_ok_quiet [OF i(1) q] by (simp add: sys_inv_def lock_free_def)
qed

text \<open>A processor leaves process \<open>p\<close>, or takes up process \<open>p\<close>, and the process changes its state.\<close>

definition leave :: "nat \<Rightarrow> (proc \<Rightarrow> proc) \<Rightarrow> u32 \<Rightarrow> 'a sk_scheme \<Rightarrow> 'a sk_scheme" where
  "leave p f v s = set_cproc None ((upd_proc p f s)\<lparr>cr3 := v\<rparr>)"

definition enter :: "nat \<Rightarrow> u32 \<Rightarrow> 'a sk_scheme \<Rightarrow> 'a sk_scheme" where
  "enter p v s = upd_proc p (\<lambda>q. q\<lparr>pstate := RUNNING\<rparr>) (set_cproc (Some p) (s\<lparr>cr3 := v\<rparr>))"

lemma sk_set_cproc [simp]:
  "socks (set_cproc x s) = socks s" "countSock (set_cproc x s) = countSock s"
  "hwid (set_cproc x s) = hwid s"
  by (simp_all add: set_cproc_def upd_cpu_def)

lemma sk_leave_enter [simp]:
  "socks (leave p f v s) = socks s" "countSock (leave p f v s) = countSock s"
  "socks (enter p v s) = socks s" "countSock (enter p v s) = countSock s"
  "lock_free l (leave p f v s) = lock_free l s" "lock_free l (enter p v s) = lock_free l s"
  "hwid (leave p f v s) = hwid s" "hwid (enter p v s) = hwid s"
  "ptable (leave p f v s) = (ptable s)[p := f (ptable s ! p)]"
  "ptable (enter p v s) = (ptable s)[p := (ptable s ! p)\<lparr>pstate := RUNNING\<rparr>]"
  "cpus (leave p f v s) = (cpus s)[cur s := (curcpu s)\<lparr>cproc := None\<rparr>]"
  "cpus (enter p v s) = (cpus s)[cur s := (curcpu s)\<lparr>cproc := Some p\<rparr>]"
  by (simp_all add: leave_def enter_def ptable_upd_proc set_cproc_basic(5)) (simp_all add: upd_proc_def)

lemma owners_ok_frame:
  "owners_ok s \<Longrightarrow> socks s' = socks s \<Longrightarrow> length (ptable s') = length (ptable s) \<Longrightarrow> owners_ok s'"
  by (simp add: owners_ok_def)

lemma proc_ok_frame:
  "proc_ok q k s \<Longrightarrow> socks s' = socks s \<Longrightarrow> pstate (ptable s' ! q) = pstate (ptable s ! q) \<Longrightarrow> proc_ok q k s'"
  by (auto simp: proc_ok_def holds_sock_def elim!: cont_ok.elims split: option.splits saved.splits)

lemma sys_invD:
  assumes "sys_inv (s, ks)"
  shows "cpus_ok s" "lock_free StableLock s" "lock_free PtableLock s" "sock_inv s" "owners_ok s"
    "j < length (ptable s) \<Longrightarrow> proc_ok j (ks j) s"
  using assms by (simp_all add: sys_inv_def)

lemma leave_inv:
  assumes inv: "sys_inv (s, ks)" and p: "curproc s = Some p"
    and k: "proc_ok p (Some k) (leave p f v s)"
  shows "sys_inv (leave p f v s, ks(p := Some k))"
proof -
  note i = sys_invD [OF inv] and r = sys_inv_ready [OF inv p]
  have c: "cur s < length (cpus s)" "cproc (curcpu s) = Some p"
    using cur_less [OF readyD(1) [OF r(1)]] p by (simp_all add: curproc_def)
  have "cpus_ok (leave p f v s)"
  proof (rule cpus_okI)
    show "distinct (map apicid (cpus (leave p f v s)))"
      "hwid (leave p f v s) \<in> set (map apicid (cpus (leave p f v s)))"
      using cpus_ok_ids [OF i(1)] by (simp_all add: map_update_same del: list.set_map set_map)
    show "ncli (cpus (leave p f v s) ! d) = 0" if "d < length (cpus (leave p f v s))" for d
      using that cpus_okD(1) [OF i(1), of d] by (simp add: nth_update_same)
    show "q < length (ptable (leave p f v s)) \<and> pstate (ptable (leave p f v s) ! q) = RUNNING"
      if "d < length (cpus (leave p f v s))" "cproc (cpus (leave p f v s) ! d) = Some q" for d q
    proof -
      from that have "d \<noteq> cur s" "cproc (cpus s ! d) = Some q" using c by (auto simp: nth_list_update split: if_splits)
      moreover from this have "q \<noteq> p" using cpus_okD(3) [OF i(1), of d "cur s" p] c that by auto
      ultimately show ?thesis using cpus_okD(2) [OF i(1), of d q] that by simp
    qed
    show "d = e" if "d < length (cpus (leave p f v s))" "e < length (cpus (leave p f v s))"
      "cproc (cpus (leave p f v s) ! d) = Some q" "cproc (cpus (leave p f v s) ! e) = Some q" for d e q
      using that cpus_okD(3) [OF i(1), of d e q] c by (auto simp: nth_list_update split: if_splits)
  qed
  moreover have "proc_ok j ((ks(p := Some k)) j) (leave p f v s)" if "j < length (ptable s)" for j
    using k i(6) [OF that] by (cases "j = p") (auto intro: proc_ok_frame)
  ultimately show ?thesis
    using i owners_ok_frame [OF i(5), of "leave p f v s"] sock_inv_view [of "leave p f v s" s]
    by (simp add: sys_inv_def)
qed

lemma enter_inv:
  assumes inv: "sys_inv (s, ks)" and n: "curproc s = None"
    and p: "p < length (ptable s)" "pstate (ptable s ! p) = RUNNABLE"
  shows "sys_inv (enter p v s, ks(p := None))"
proof -
  note i = sys_invD [OF inv]
  have c: "cur s < length (cpus s)" "cproc (curcpu s) = None"
    using cur_less [OF cpus_ok_cpu_ok(1) [OF i(1)]] n by (simp_all add: curproc_def)
  have fresh: "d < length (cpus s) \<Longrightarrow> cproc (cpus s ! d) \<noteq> Some p" for d
    using cpus_okD(2) [OF i(1), of d p] p(2) by auto
  have "cpus_ok (enter p v s)"
  proof (rule cpus_okI)
    show "distinct (map apicid (cpus (enter p v s)))"
      "hwid (enter p v s) \<in> set (map apicid (cpus (enter p v s)))"
      using cpus_ok_ids [OF i(1)] by (simp_all add: map_update_same del: list.set_map set_map)
    show "ncli (cpus (enter p v s) ! d) = 0" if "d < length (cpus (enter p v s))" for d
      using that cpus_okD(1) [OF i(1), of d] by (simp add: nth_update_same)
    show "q < length (ptable (enter p v s)) \<and> pstate (ptable (enter p v s) ! q) = RUNNING"
      if "d < length (cpus (enter p v s))" "cproc (cpus (enter p v s) ! d) = Some q" for d q
      using that cpus_okD(2) [OF i(1), of d q] p c by (cases "d = cur s"; cases "q = p") auto
    show "d = e" if "d < length (cpus (enter p v s))" "e < length (cpus (enter p v s))"
      "cproc (cpus (enter p v s) ! d) = Some q" "cproc (cpus (enter p v s) ! e) = Some q" for d e q
      using that cpus_okD(3) [OF i(1), of d e q] fresh [of d] fresh [of e] c(1)
      by (cases "d = cur s"; cases "e = cur s") auto
  qed
  moreover have "proc_ok j ((ks(p := None)) j) (enter p v s)" if "j < length (ptable s)" for j
  proof (cases "j = p")
    case True
    then show ?thesis using that by (simp add: proc_ok_def)
  next
    case False
    then show ?thesis using i(6) [OF that] by (auto intro: proc_ok_frame)
  qed
  ultimately show ?thesis
    using i owners_ok_frame [OF i(5), of "enter p v s"] sock_inv_view [of "enter p v s" s]
    by (simp add: sys_inv_def)
qed

lemma ready_enter:
  assumes "sys_inv (s, ks)" "curproc s = None" "p < length (ptable s)" "pstate (ptable s ! p) = RUNNABLE"
  shows "ready p (enter p v s)"
proof -
  note i = sys_invD [OF assms(1)]
  have "cpu_ok s" by (rule cpus_ok_cpu_ok [OF i(1)])
  then have "curproc (enter p v s) = Some p" by (simp add: enter_def)
  then show ?thesis using sys_inv_ready(1) [OF enter_inv [OF assms]] by simp
qed

lemma scan_inv:
  assumes inv: "sys_inv (s, ks)" and n: "curproc s = None"
    and sc: "scan k (acquired PtableLock s, ks) = Ok y"
  shows "sys_inv y"
proof -
  note i = sys_invD [OF inv]
  note c = cpus_ok_cpu_ok [OF i(1)]
  obtain q s1 where pick: "scheduler_pick k (acquired PtableLock s) = Ok (q, s1)"
    using sc by (auto simp: scan_def elim!: andthen_OkE)
  show ?thesis
  proof (cases q)
    case None
    have "y = (touched s, ks)"
      using sc pick scheduler_pick_None [of k "acquired PtableLock s" s1] c i(3)
      by (simp add: scan_def None scheduler_end_ok)
    moreover have "proc_ok j (ks j) (touched s)" if "j < length (ptable s)" for j
      by (rule proc_ok_frame [OF i(6) [OF that]]) simp_all
    ultimately show ?thesis
      using i cpus_ok_quiet [OF i(1) quiet_touched] owners_ok_frame [OF i(5), of "touched s"]
        sock_inv_view [of "touched s" s]
      by (simp add: sys_inv_def)
  next
    case (Some p)
    note pk = scheduler_pick_Some [OF c(1) pick [unfolded Some]]
    define e where "e = enter p (pgdir (ptable s ! p) - KERNBASE) s"
    have s1: "s1 = acquired PtableLock e" using pk(4) by (simp add: e_def enter_def)
    note pp = pk(2,3)
    have ei: "sys_inv (e, ks(p := None))" unfolding e_def using enter_inv [OF inv n pp] .
    have er: "ready p e" unfolding e_def using ready_enter [OF inv n pp] .
    note er' = readyD [OF er]
    have fin: "quiet e s2 \<Longrightarrow> table_step p e s2 \<Longrightarrow> sys_inv (s2, ks(p := None))" for s2
      using sys_inv_quiet [OF ei, of s2 p] er' by simp
    show ?thesis
    proof (cases "ks p")
      case None
      then show ?thesis using sc pick Some by (simp add: scan_def)
    next
      case (Some w)
      show ?thesis
      proof (cases w)
        case (Preempted ie)
        then have "y = (resumed ie e, ks(p := None))"
          using sc pick \<open>q = Some p\<close> Some er' by (simp add: scan_def s1 yield_return_ok)
        then show ?thesis using fin quiet_resumed [of e ie] by (simp add: table_step_same)
      next
        case (InSock g)
        have "cont_ok p g s" using i(6) [OF pp(1)] Some InSock by (simp add: proc_ok_def)
        then have "cont_ok p g e" by (cases g) (simp_all add: e_def holds_sock_def)
        then have go: "good_outcome p e (sock_resume p g (acquired PtableLock e))"
          using sock_resume_good [OF er] sys_invD(4) [OF ei] by simp
        obtain r s2 where r: "sock_resume p g (acquired PtableLock e) = Ok (Return r, s2)" "y = (s2, ks(p := None))"
          using sc pick \<open>q = Some p\<close> Some InSock
          by (auto simp: scan_def s1 elim!: andthen_OkE split: blocking.split_asm)
        then show ?thesis using go fin by (auto elim: good_returnE)
      qed
    qed
  qed
qed

lemma quiet_cpu:
  assumes "quiet s s'" and "cpu_ok s"
  shows "cur s' = cur s" and "curproc s' = curproc s"
proof -
  note d = quietD [OF assms(1)]
  have "find_index (\<lambda>k. apicid k = hwid s) (cpus s') = find_index (\<lambda>k. apicid k = hwid s) (cpus s)"
    using d(3,4) by (intro find_index_cong_set) (simp, metis nth_map)
  then show c: "cur s' = cur s" by (simp add: cur_def d(1))
  show "curproc s' = curproc s"
    using d(7) [OF cur_less [OF assms(2)]] by (simp add: curproc_def c)
qed

lemma back_leave:
  assumes "cpu_ok s" "scheduler_back (acquired PtableLock (upd_proc p f s)) = Ok s2"
  shows "s2 = acquired PtableLock (leave p f (kpgdir s - KERNBASE) s)"
  using assms by (simp add: scheduler_back_ok leave_def) (simp add: upd_proc_def)

lemma curproc_leave: "cpu_ok s \<Longrightarrow> curproc (leave p f v s) = None"
  by (simp add: leave_def)

lemma closeprocsocks_effect:
  assumes r: "ready p s" and c: "closeprocsocks (Some p) s = Ok s'"
  shows "quiet s s'" and "table_step p s s'"
proof -
  obtain s'' where s': "closeprocsocks (Some p) s = Ok s''"
     "socks s'' = map (\<lambda>k. if owned_by p k then closed_sock k else k) (socks s)"
     "sock_inv s \<longrightarrow> sock_inv s''" "quiet s s''"
    using closeprocsocks_ok [OF readyD(1,6,5) [OF r], of p] by blast
  have "s'' = s'" using c s'(1) by simp
  then show "quiet s s'" "table_step p s s'"
    using s' slot_len [of s] unfolding table_step_def holds_sock_def
    by (auto simp: is_open_def owned_by_def)
qed

lemma sys_inv_call_sleeps:
  assumes inv: "sys_inv (s, ks)" and p: "curproc s = Some p"
    and c: "sock_call c s = Ok (Sleeps k, s1)" and b: "scheduler_back s1 = Ok s2"
    and sc: "scan (Suc p) (s2, ks(p := Some (InSock k))) = Ok y"
  shows "sys_inv y"
proof -
  note r = sys_inv_ready [OF inv p] and i = sys_invD [OF inv]
  have "good_outcome p s (Ok (Sleeps k, s1))"
    using sock_call_good [OF r(1) i(4), of c] c by simp
  then obtain a s' where g: "s1 = acquired PtableLock (sleeping p a s')" "quiet s s'" "table_step p s s'"
    "cont_ok p k s'" by (rule good_sleepE)
  have inv': "sys_inv (s', ks)" using sys_inv_quiet [OF inv g(2,3)] r by simp
  have ok': "cpu_ok s'" using cpus_ok_cpu_ok(1) [OF sys_invD(1) [OF inv']] .
  have p': "curproc s' = Some p" using quiet_cpu(2) [OF g(2)] readyD(1) [OF r(1)] p by simp
  let ?f = "\<lambda>q. q\<lparr>chan := Some (SockChan a), pstate := SLEEPING\<rparr>"
  let ?l = "leave p ?f (kpgdir s' - KERNBASE) s'"
  have s2: "s2 = acquired PtableLock ?l"
    using back_leave [OF ok'] b g(1) unfolding sleeping_def by blast
  have "proc_ok p (Some (InSock k)) ?l"
    using g(4) quietD(5) [OF g(2)] r(3) by (cases k) (simp_all add: proc_ok_def holds_sock_def)
  then have "sys_inv (?l, ks(p := Some (InSock k)))"
    by (rule leave_inv [OF inv' p'])
  then show ?thesis
    using scan_inv [OF _ curproc_leave [OF ok']] sc unfolding s2 by blast
qed

lemma sys_inv_preempt:
  assumes inv: "sys_inv (s, ks)" and p: "curproc s = Some p"
    and c: "yield s = Ok (ie, s1)" and b: "scheduler_back s1 = Ok s2"
    and sc: "scan (Suc p) (s2, ks(p := Some (Preempted ie))) = Ok y"
  shows "sys_inv y"
proof -
  note r = sys_inv_ready [OF inv p] and i = sys_invD [OF inv]
  note ok = readyD [OF r(1)]
  let ?l = "leave p (\<lambda>q. q\<lparr>pstate := RUNNABLE\<rparr>) (kpgdir s - KERNBASE) s"
  have "s1 = acquired PtableLock (upd_proc p (\<lambda>q. q\<lparr>pstate := RUNNABLE\<rparr>) s)"
    using yield_ok [OF ok(1,6,2,3,4)] c by simp
  then have s2: "s2 = acquired PtableLock ?l"
    using back_leave [OF ok(1)] b by simp
  have "proc_ok p (Some (Preempted ie)) ?l"
    using r(3) by (simp add: proc_ok_def)
  then have "sys_inv (?l, ks(p := Some (Preempted ie)))"
    by (rule leave_inv [OF inv p])
  then show ?thesis
    using scan_inv [OF _ curproc_leave [OF ok(1)]] sc unfolding s2 by blast
qed

lemma sys_inv_frame:
  assumes inv: "sys_inv (s, ks)" and c: "cpus_ok s'"
    and same: "locks s' = locks s" "socks s' = socks s" "countSock s' = countSock s" "ptable s' = ptable s"
  shows "sys_inv (s', ks)"
proof -
  note i = sys_invD [OF inv]
  have "proc_ok j (ks j) s'" if "j < length (ptable s)" for j
    by (rule proc_ok_frame [OF i(6) [OF that]]) (simp_all add: same)
  then show ?thesis
    using i c same sock_inv_view [OF same(2,3)] owners_ok_frame [OF i(5) same(2)]
    by (simp add: sys_inv_def lock_free_def)
qed

lemma sys_inv_sti:
  assumes inv: "sys_inv (s, ks)"
  shows "sys_inv (sti s, ks)" and "curproc (sti s) = curproc s"
proof -
  have "cpus_ok (sti s)"
    using sys_invD(1) [OF inv] by (simp add: cpus_ok_def sti_def)
  then show "sys_inv (sti s, ks)"
    by (rule sys_inv_frame [OF inv]) (simp_all add: sti_def)
qed (simp add: sti_def curproc_def cur_def)

lemma sys_inv_idle:
  assumes inv: "sys_inv (s, ks)" and n: "curproc s = None"
    and c: "scheduler_round s = Ok s1" and sc: "scan 0 (s1, ks) = Ok y"
  shows "sys_inv y"
proof -
  note st = sys_inv_sti [OF inv]
  note i = sys_invD [OF st(1)]
  have "s1 = acquired PtableLock (sti s)"
    using c cpus_ok_cpu_ok(1) [OF i(1)] i(3) by (simp add: scheduler_round_def acquire_free)
  then show ?thesis using scan_inv [OF st(1)] st(2) n sc by simp
qed

lemma sys_inv_hwid:
  assumes inv: "sys_inv (s, ks)" and k: "k \<in> set (cpus s)"
  shows "sys_inv (s\<lparr>hwid := apicid k\<rparr>, ks)"
proof (rule sys_inv_frame [OF inv])
  show "cpus_ok (s\<lparr>hwid := apicid k\<rparr>)"
    using sys_invD(1) [OF inv] k by (simp add: cpus_ok_def)
qed simp_all

lemma quiet_victim: "quiet s (touched (victim p s))"
proof -
  have "quiet s (victim p s)"
    unfolding quiet_def by (cases "p < length (ptable s)") (auto simp: victim_def upd_proc_def nth_list_update)
  then show ?thesis using quiet_touched by (rule quiet_trans)
qed

lemma kill_effect:
  assumes r: "ready p s" and k: "kill i s = Ok (v, s')"
  shows "quiet s s'" "table_step p s s'"
proof -
  have "s' = touched s \<or> (\<exists>q. s' = touched (victim q s))"
    using k kill_outcome [OF readyD(1,5,6) [OF r], of i] by (auto split: option.splits if_splits)
  then show "quiet s s'" "table_step p s s'"
    by (auto simp: victim_def intro: quiet_victim [unfolded victim_def] quiet_touched table_step_same)
qed

lemma sys_step_inv:
  assumes "sys_step x y" and "sys_inv x"
  shows "sys_inv y"
  using assms
proof cases
  case (call s p c r s' ks)
  note rd = sys_inv_ready [OF assms(2) [unfolded call(1)] call(3)]
  have "good_outcome p s (Ok (Return r, s'))"
    using sock_call_good [OF rd(1), of c] sys_invD(4) [OF assms(2) [unfolded call(1)]] call(4) by simp
  then show ?thesis
    using sys_inv_quiet [OF assms(2) [unfolded call(1)]] rd call(2) by (auto elim!: good_returnE)
next
  case (close_all s p s' ks)
  note rd = sys_inv_ready [OF assms(2) [unfolded close_all(1)] close_all(3)]
  show ?thesis
    using sys_inv_quiet [OF assms(2) [unfolded close_all(1)] closeprocsocks_effect [OF rd(1) close_all(4)]]
      rd close_all(2) by simp
next
  case (kills s p i r s' ks)
  note rd = sys_inv_ready [OF assms(2) [unfolded kills(1)] kills(3)]
  show ?thesis
    using sys_inv_quiet [OF assms(2) [unfolded kills(1)] kill_effect [OF rd(1) kills(4)]] rd kills(2) by simp
next
  case (user s p ks m)
  note rd = sys_inv_ready [OF assms(2) [unfolded user(1)] user(3)]
  show ?thesis
    using sys_inv_quiet [OF assms(2) [unfolded user(1)], of "s\<lparr>umem := (umem s)(p := m)\<rparr>" p] rd user(2)
    by (simp add: quiet_same table_step_same)
qed (use assms in \<open>auto intro: sys_inv_call_sleeps sys_inv_preempt sys_inv_idle sys_inv_hwid\<close>)

lemma sys_init_inv:
  assumes "sys_init x"
  shows "sys_inv x"
proof -
  obtain s ks where x: "x = (s, ks)" by (cases x)
  note i = assms [unfolded sys_init_def x Let_def, simplified]
  have cl: "j < NSOCK \<Longrightarrow> \<not> is_open (socks s ! j)" for j
    using i by (simp add: is_open_def)
  have "table_ok (socks s)" using i cl by (simp add: table_ok_def)
  moreover have "count_slots is_open (socks s) = 0"
    using i by (simp add: count_slots_0_iff is_open_def)
  ultimately have "sock_inv s" using i by (simp add: sock_inv_def)
  moreover have "owners_ok s" using cl by (simp add: owners_ok_def)
  moreover have "cpus_ok s" using i by (intro cpus_okI) auto
  moreover have "proc_ok j (ks j) s" if "j < length (ptable s)" for j
    using i that by (auto simp: proc_ok_def)
  ultimately show ?thesis using i by (simp add: sys_inv_def x)
qed

lemma sys_reachable_inv: "sys_reachable x \<Longrightarrow> sys_inv x"
  by (induction rule: sys_reachable.induct) (auto intro: sys_init_inv sys_step_inv)

end
