(* ===== verification/Sock_Props.thy ===== *)
theory Sock_Props
  imports Sock_System
begin

text \<open>
  The properties of the socket component, and the concrete machine on which their
  hypotheses are shown to hold: one processor, three processes, and a socket table given
  as the list of its open slots.
\<close>

section \<open>A concrete machine\<close>

definition demo_proc :: "procstate \<Rightarrow> proc" where
  "demo_proc st = \<lparr>sz = 0x4000, pgdir = 0x80100000, kstack = 0x80200000, pstate = st, pid = 1,
     parent = None,
     tf = \<lparr>tf_edi = 0, tf_esi = 0, tf_ebp = 0, tf_oesp = 0, tf_ebx = 0, tf_edx = 0, tf_ecx = 0, tf_eax = 0,
       tf_gs = 0, tf_fs = 0, tf_es = 0, tf_ds = 0, tf_trapno = 0, tf_err = 0, tf_eip = 0, tf_cs = 0,
       tf_eflags = 0, tf_esp = 0x3F00, tf_ss = 0\<rparr>,
     pcontext = \<lparr>ctx_edi = 0, ctx_esi = 0, ctx_ebx = 0, ctx_ebp = 0, ctx_eip = 0\<rparr>,
     chan = None, killed = False, ofile = replicate NOFILE None, cwd = None, pname = replicate 16 0\<rparr>"

definition demo_closed :: sock where
  "demo_closed = \<lparr>sid = -1, sstate = CLOSED, owner = None, recvbuffer = replicate 128 0,
     hasfullbuffer = False, lPort = -1, rPort = -1\<rparr>"

definition demo_open :: "int \<Rightarrow> sockstate \<Rightarrow> nat \<Rightarrow> int \<Rightarrow> int \<Rightarrow> sock" where
  "demo_open n st p lp rp = demo_closed\<lparr>sid := n, sstate := st, owner := Some p, lPort := lp, rPort := rp\<rparr>"

text \<open>Process \<open>p\<close> runs, or none does; the first slots of the table are \<open>ks\<close>.\<close>

definition demo :: "nat option \<Rightarrow> proc list \<Rightarrow> sock list \<Rightarrow> (nat \<Rightarrow> u32 \<Rightarrow> u8) \<Rightarrow> sk" where
  "demo p ps ks m = \<lparr>cpus = [\<lparr>apicid = 0, ncli = 0, intena = False, cproc = p\<rparr>,
       \<lparr>apicid = 1, ncli = 0, intena = False, cproc = None\<rparr>], hwid = 0,
     intr = (\<lambda>_. True), locks = (\<lambda>_. \<lparr>locked = False, lcpu = None\<rparr>),
     ptable = ps, nextpid = 1, initproc = None, cr3 = 0, kpgdir = 0x80000000, ticks = 0, umem = m,
     socks = ks @ replicate (NSOCK - length ks) demo_closed, countSock = int (length ks), nextsid = 0\<rparr>"

definition demo_procs :: "proc list" where
  "demo_procs = [demo_proc RUNNING, demo_proc RUNNABLE, demo_proc RUNNABLE]"

lemma demo_ready: "p < length ps \<Longrightarrow> ready p (demo (Some p) ps ks m)"
  by (simp add: ready_def demo_def cpu_ok_def cur_def curproc_def lock_free_def readeflags_def)

lemma demo_table:
  assumes "length ks \<le> NSOCK"
    and "\<forall>k\<in>set ks. is_open k \<and> 0 \<le> lPort k \<and> lPort k < NPORT \<and> length (recvbuffer k) = SBUFFSIZE"
    and "distinct (map lPort ks)"
  shows "sock_inv (demo p ps ks m)"
proof -
  let ?t = "ks @ replicate (NSOCK - length ks) demo_closed"
  have nth: "?t ! i = (if i < length ks then ks ! i else demo_closed)" if "i < NSOCK" for i
    using that assms(1) by (simp add: nth_append)
  have c: "\<not> is_open demo_closed" "length (recvbuffer demo_closed) = SBUFFSIZE"
    by (simp_all add: is_open_def demo_closed_def)
  have "table_ok ?t"
    unfolding table_ok_def
  proof (intro conjI allI impI)
    show "length ?t = NSOCK" using assms(1) by simp
    fix i assume "i < length ?t"
    then have i: "i < NSOCK" using assms(1) by simp
    show "length (recvbuffer (?t ! i)) = SBUFFSIZE" "is_open (?t ! i) \<Longrightarrow> 0 \<le> lPort (?t ! i)"
      "is_open (?t ! i) \<Longrightarrow> lPort (?t ! i) < NPORT"
      unfolding nth [OF i] using assms(2) c by auto
    fix j assume "j < length ?t" "is_open (?t ! i)" "is_open (?t ! j)" "lPort (?t ! i) = lPort (?t ! j)"
    moreover from this have "j < NSOCK" using assms(1) by simp
    ultimately show "i = j"
      using nth [OF i] nth [of j] c(1) assms(3) by (auto simp: distinct_conv_nth split: if_splits)
  qed
  moreover have "filter is_open ks = ks" using assms(2) by (simp add: filter_id_conv)
  ultimately show ?thesis by (simp add: sock_inv_def demo_def count_slots_def c)
qed

lemma demo_getsock:
  "getsock port (demo p ps ks m) =
   (if 0 \<le> port \<and> port < NPORT then find_index (\<lambda>k. sstate k \<noteq> CLOSED \<and> lPort k = port) ks else None)"
proof -
  have "find_index P (xs @ ys) = (case find_index P xs of Some i \<Rightarrow> Some i | None \<Rightarrow> map_option (\<lambda>i. i + length xs) (find_index P ys))"
    for P :: "sock \<Rightarrow> bool" and xs ys
    by (induction xs) (auto split: option.split simp: option.map_comp comp_def option.map_id0 [unfolded id_def])
  moreover have "find_index (\<lambda>k. sstate k \<noteq> CLOSED \<and> lPort k = port) (replicate n demo_closed) = None" for n
    by (simp add: find_index_None_iff demo_closed_def)
  ultimately show ?thesis
    by (simp add: getsock_def demo_def split: option.split)
qed

text \<open>The scheduler takes up a preempted process.\<close>

lemma scan_preempted:
  assumes c: "cpu_ok s" "ncli (curcpu s) = 0" "lock_free PtableLock s"
    and f: "find_index (\<lambda>p. pstate p = RUNNABLE) (drop k (ptable s)) = Some j"
    and g: "kstack (ptable s ! (k + j)) \<noteq> 0" "pgdir (ptable s ! (k + j)) \<noteq> 0"
    and ks: "ks (k + j) = Some (Preempted ie)"
  shows "scan k (acquired PtableLock s, ks) =
    Ok (resumed ie (enter (k + j) (pgdir (ptable s ! (k + j)) - KERNBASE) s), ks(k + j := None))"
proof -
  let ?i = "k + j"
  let ?e = "enter ?i (pgdir (ptable s ! ?i) - KERNBASE) s"
  have s: "scheduler_pick k (acquired PtableLock s) = Ok (Some ?i, acquired PtableLock ?e)"
  proof -
    have "upd_cpu (cur s) (\<lambda>q. q\<lparr>cproc := Some ?i\<rparr>) (acquired PtableLock s) =
        acquired PtableLock (set_cproc (Some ?i) s)"
      using acquired_set_cproc [OF c(1), of "Some ?i" PtableLock] c(1) by (simp add: set_cproc_def)
    then show ?thesis
      using c f g by (simp add: scheduler_pick_def mycpu_acquired Let_def switchuvm_ok enter_def)
  qed
  have "cpu_ok ?e" "lock_free PtableLock ?e" "ncli (curcpu ?e) = 0"
    using c curcpu_set_cproc [OF c(1), of "Some ?i"] by (simp_all add: enter_def)
  then show ?thesis
    using s ks by (simp add: scan_def yield_return_ok)
qed

text \<open>The machine at its start, and after the first round of the scheduler.\<close>

definition start_sys :: sys where
  "start_sys = (demo None [demo_proc RUNNABLE, demo_proc RUNNABLE] [] (\<lambda>_ _. 0), (\<lambda>q. Some (Preempted True)))"

definition running_sys :: sys where
  "running_sys = (resumed True (enter 0 0x100000 (sti (fst start_sys))), (\<lambda>q. Some (Preempted True))(0 := None))"

lemma start_reachable: "sys_reachable start_sys"
  by (rule sys_reachable.start)
    (auto simp: sys_init_def start_sys_def demo_def lock_free_def demo_closed_def demo_proc_def less_Suc_eq)

lemma running_reachable: "sys_reachable running_sys" "curproc (fst running_sys) = Some 0"
proof -
  let ?s = "sti (fst start_sys)"
  have c: "cpu_ok (fst start_sys)" "cpu_ok ?s" "ncli (curcpu ?s) = 0" "lock_free PtableLock ?s"
    by (simp_all add: start_sys_def demo_def cpu_ok_def cur_def readeflags_def sti_def lock_free_def)
  have "scan 0 (acquired PtableLock ?s, \<lambda>q. Some (Preempted True)) = Ok running_sys"
    using scan_preempted [of ?s 0 0 "\<lambda>q. Some (Preempted True)" True] c
    by (simp add: running_sys_def start_sys_def demo_def sti_def demo_proc_def)
  moreover have "scheduler_round (fst start_sys) = Ok (acquired PtableLock ?s)"
    using c by (simp add: scheduler_round_def acquire_free)
  moreover have "curproc (fst start_sys) = None"
    by (simp add: start_sys_def demo_def curproc_def cur_def)
  ultimately have "sys_step start_sys running_sys"
    using sys_step.idle [of "fst start_sys" "acquired PtableLock ?s" "\<lambda>q. Some (Preempted True)" running_sys]
    by (simp add: start_sys_def)
  then show "sys_reachable running_sys"
    by (rule sys_reachable.go [OF start_reachable])
  show "curproc (fst running_sys) = Some 0"
    using c by (simp add: running_sys_def enter_def)
qed

section \<open>Properties of all interleavings\<close>

text \<open>
  C1: In every state that any interleaving of socket calls, kills, preemptions, sleeps and wakeups
  on any number of processors can reach, the socket table is well formed: its open sockets have
  pairwise different local ports in range and \<open>countSock\<close> is their number; and the socket that
  a process asleep in \<open>send\<close> or \<open>recv\<close> will go on with is still open, connected and its own.
\<close>

theorem sock_table_invariant:
  assumes "sys_reachable (s, ks)"
  shows "sock_inv s \<and> owners_ok s \<and>
    (\<forall>q<length (ptable s). \<forall>c. ks q = Some (InSock c) \<longrightarrow> cont_ok q c s)"
proof -
  note i = sys_invD [OF sys_reachable_inv [OF assms]]
  have "cont_ok q c s" if "q < length (ptable s)" "ks q = Some (InSock c)" for q c
    using i(6) [OF that(1)] that(2) by (simp add: proc_ok_def)
  then show ?thesis using i by blast
qed

theorem sock_table_invariant_witness:
  "sys_reachable (fst running_sys, snd running_sys) \<and> sock_inv (fst running_sys)"
  using sock_table_invariant [of "fst running_sys" "snd running_sys"] running_reachable by simp

section \<open>Connection establishment\<close>

lemma linked_nth:
  assumes "l < length (socks s)" "r < length (socks s)" "l \<noteq> r"
  shows "socks (linked p l r a b s) ! l =
      (opened_sock (nextsid s) (Some p) a (socks s ! l))\<lparr>sstate := CONNECTED, rPort := b\<rparr>"
    and "socks (linked p l r a b s) ! r = (socks s ! r)\<lparr>sstate := CONNECTED, rPort := a, hasfullbuffer := False\<rparr>"
    and "i \<noteq> l \<Longrightarrow> i \<noteq> r \<Longrightarrow> socks (linked p l r a b s) ! i = socks s ! i"
  using assms by (simp_all add: linked_def socks_upd_sock)

text \<open>
  C3: \<open>connect\<close> to a listening port takes the highest free port and a closed slot for the
  caller, makes both ends connected to each other with empty buffers, leaves every other slot
  as it was, and makes every process asleep on the listening socket runnable.
\<close>

theorem connect_links_ends:
  assumes "ready p s" and inv: "sock_inv s" and "local_host host"
    and r: "getsock rport s = Some r" "sstate (socks s ! r) = LISTENING" and n: "countSock s < int NSOCK"
  shows "\<exists>l s'. connect rport host s = Ok (Return (getfreeport s), s') \<and> sock_inv s' \<and>
    countSock s' = countSock s + 1 \<and> l \<noteq> r \<and> l < NSOCK \<and> \<not> is_open (socks s ! l) \<and>
    (\<forall>port. getsock port s' = (if port = getfreeport s then Some l else getsock port s)) \<and>
    sstate (socks s' ! l) = CONNECTED \<and> owner (socks s' ! l) = Some p \<and>
    lPort (socks s' ! l) = getfreeport s \<and> rPort (socks s' ! l) = rport \<and> \<not> hasfullbuffer (socks s' ! l) \<and>
    socks s' ! r = (socks s ! r)\<lparr>sstate := CONNECTED, rPort := getfreeport s, hasfullbuffer := False\<rparr> \<and>
    (\<forall>i<NSOCK. i \<noteq> l \<and> i \<noteq> r \<longrightarrow> socks s' ! i = socks s ! i) \<and>
    (\<forall>q<length (ptable s). pstate (ptable s ! q) = SLEEPING \<and> chan (ptable s ! q) = Some (SockChan r) \<longrightarrow>
       pstate (ptable s' ! q) = RUNNABLE)"
proof -
  obtain l where l: "find_index (\<lambda>k. sstate k = CLOSED) (socks s) = Some l"
    using allocsock_full [OF inv] n by auto
  let ?L = "linked p l r (getfreeport s) rport s"
  have c: "connect rport host s = Ok (Return (getfreeport s), touched ?L)"
    using connect_ok [OF assms(1,2,3) r l] .
  note f = getfreeport_spec [OF inv]
  have ll: "l < NSOCK" "r < NSOCK" "l \<noteq> r" "\<not> is_open (socks s ! l)"
    using closed_slot [OF l] slot_len [OF inv] getsock_slot [OF inv r(1)] r(2) by (auto simp: is_open_def)
  have inv': "sock_inv ?L"
    using table_step_linked [OF inv f(2,3) l r] inv by (simp add: table_step_def)
  have len: "l < length (socks s)" "r < length (socks s)" using ll slot_len [OF inv] by simp_all
  note nth = linked_nth [OF len ll(3), where p = p and a = "getfreeport s" and b = rport]
  have g: "getsock port ?L = (if port = getfreeport s then Some l else getsock port s)" for port
  proof -
    have "getsock port ?L = Some i \<longleftrightarrow> (if port = getfreeport s then Some l else getsock port s) = Some i" for i
      using ll nth nth(3) [of i] f(3) r(2)
      by (cases "i = l"; cases "i = r") (auto simp: getsock_iff [OF inv'] getsock_iff [OF inv] getsock_None_iff [OF inv] is_open_def)
    then show ?thesis by (metis option.exhaust)
  qed
  have w: "pstate (ptable ?L ! q) = RUNNABLE"
    if "q < length (ptable s)" "pstate (ptable s ! q) = SLEEPING" "chan (ptable s ! q) = Some (SockChan r)" for q
    using that by (simp add: linked_def wakeup1_def)
  show ?thesis
    using c inv' ll nth g w sock_inv_count_bounds [OF inv] sock_inv_view [of "touched ?L" ?L] n
    by (intro exI [of _ l] exI [of _ "touched ?L"]) (simp add: wrap32_id)
qed

lemma strlen_reader_of: "0 \<notin> set xs \<Longrightarrow> strlen (reader_of xs) = Some (length xs)"
  by (auto simp: strlen_Some_iff reader_of_def in_set_conv_nth)

lemma strncmp_refl: "strncmp h h n = 0"
  by (simp add: strncmp_0_iff)

lemma localhost_bytes: "0 \<notin> set (bytes_of ''localhost'')"
  by (simp add: bytes_of_def)

lemma demo_local_host: "local_host (reader_of (bytes_of ''localhost''))"
  unfolding local_host_def using strlen_reader_of [OF localhost_bytes] strncmp_refl by blast

lemma demo_listening:
  "ready 0 (demo (Some 0) demo_procs [demo_open 0 LISTENING 1 80 (-1)] m)"
  "sock_inv (demo p demo_procs [demo_open 0 LISTENING 1 80 (-1)] m)"
  "getsock 80 (demo p demo_procs [demo_open 0 LISTENING 1 80 (-1)] m) = Some 0"
  by (simp_all add: demo_ready demo_procs_def demo_getsock)
    (auto intro!: demo_table simp: demo_open_def demo_closed_def is_open_def)

theorem connect_links_ends_witness:
  "\<exists>l s'. connect 80 (reader_of (bytes_of ''localhost'')) (demo (Some 0) demo_procs [demo_open 0 LISTENING 1 80 (-1)] (\<lambda>_ _. 0)) =
     Ok (Return (getfreeport (demo (Some 0) demo_procs [demo_open 0 LISTENING 1 80 (-1)] (\<lambda>_ _. 0))), s') \<and>
     sstate (socks s' ! l) = CONNECTED \<and> rPort (socks s' ! l) = 80"
  using connect_links_ends [OF demo_listening(1) demo_listening(2) demo_local_host demo_listening(3), of "\<lambda>_ _. 0"]
  by (auto simp: demo_def demo_open_def demo_closed_def)

end
