(* ===== verification/Sock_Transfer.thy ===== *)
theory Sock_Transfer
  imports Sock_Props
begin

text \<open>
  Data over a connection: what is sent is what is received, what a failed call leaves
  alone, and how a call that slept goes on.
\<close>

section \<open>Data transfer\<close>

lemma getsock_socks: "socks s' = socks s \<Longrightarrow> getsock port s' = getsock port s"
  by (simp add: getsock_def)

lemma endpoint_socks:
  assumes "socks s' = socks s"
  shows "endpoint p lport s' = endpoint p lport s"
  unfolding endpoint_def getsock_socks [OF assms] assms by (rule refl)

lemma read_write_bytes:
  assumes "n \<le> length bs" "unat a + length bs \<le> 4294967296"
  shows "read_bytes (write_bytes m a bs) a n = take n bs"
proof (rule nth_equalityI)
  show "length (read_bytes (write_bytes m a bs) a n) = length (take n bs)"
    using assms by (simp add: read_bytes_def)
  fix i assume "i < length (read_bytes (write_bytes m a bs) a n)"
  then have i: "i < n" by (simp add: read_bytes_def)
  then have "unat (a + word_of_nat i - a) = i"
    using assms by (simp add: unat_of_nat take_bit_nat_eq_self)
  then show "read_bytes (write_bytes m a bs) a n ! i = take n bs ! i"
    using i assms by (simp add: read_bytes_def at_def write_bytes_spec)
qed

lemma strncpy_reads_strlen:
  assumes "strlen t = Some k" "k < n"
  shows "strncpy_reads t n = Suc k"
proof -
  have z: "t k = 0" "\<forall>j<k. t j \<noteq> 0" using assms(1) by (simp_all add: strlen_Some_iff)
  have "i < strncpy_reads t n \<longleftrightarrow> i < Suc k" for i
  proof
    assume "i < strncpy_reads t n"
    then have "\<forall>j<i. t j \<noteq> 0" by (simp add: strncpy_reads_less_iff)
    then show "i < Suc k" using z(1) by (metis linorder_not_less not_less_eq)
  next
    assume "i < Suc k"
    then show "i < strncpy_reads t n" using z(2) assms(2) by (simp add: strncpy_reads_less_iff)
  qed
  then show ?thesis by (metis linorder_neqE_nat less_irrefl)
qed

text \<open>A string that was copied with its end into a buffer is read back from it.\<close>

lemma strlen_copied:
  assumes "strlen t = Some k" "k < n"
  shows "strlen (reader_of (strncpy_out t n @ xs)) = Some k"
    and "i \<le> k \<Longrightarrow> reader_of (strncpy_out t n @ xs) i = t i"
proof -
  have z: "t k = 0" "\<forall>j<k. t j \<noteq> 0" using assms(1) by (simp_all add: strlen_Some_iff)
  have r: "reader_of (strncpy_out t n @ xs) i = t i" if "i \<le> k" for i
  proof -
    have "\<forall>j<i. t j \<noteq> 0" using z(2) that by (meson less_le_trans)
    then show ?thesis using that assms(2) by (simp add: reader_of_def nth_append strncpy_out_nth)
  qed
  then show "i \<le> k \<Longrightarrow> reader_of (strncpy_out t n @ xs) i = t i" .
  show "strlen (reader_of (strncpy_out t n @ xs)) = Some k"
    unfolding strlen_Some_iff using r z by (metis less_imp_le order_refl)
qed

lemma strncpy_out_take:
  assumes "strlen t = Some k" "k < n"
  shows "take (Suc k) (strncpy_out t n) = map t [0..<Suc k]"
proof -
  have "t k = 0" using assms(1) by (simp add: strlen_Some_iff)
  moreover have "n - k = Suc (n - Suc k)" using assms(2) by simp
  ultimately show ?thesis unfolding strncpy_out_strlen [OF assms] by simp
qed

lemma map_upto_cong: "(\<And>i. i < n \<Longrightarrow> f i = g i) \<Longrightarrow> map f [0..<n] = map g [0..<n]"
  by simp

text \<open>
  C2: A string sent over a connection arrives: when the peer's buffer is empty, \<open>send\<close> of a
  zero terminated string of length \<open>k < n \<le> 128\<close> returns 0, and a \<open>recv\<close> of the peer at any later
  time, with the table as \<open>send\<close> left it and a buffer of more than \<open>k\<close> bytes, returns 0, stores
  the string with its end at the address it was given, and leaves its buffer empty.
\<close>

theorem send_recv_roundtrip:
  fixes s :: "'a sk_scheme"
  assumes ready: "ready p s" and inv: "sock_inv s" and e: "endpoint p lport s = Inr (l, r)"
    and empty: "\<not> hasfullbuffer (socks s ! r)"
    and peer: "owner (socks s ! r) = Some q" "rPort (socks s ! r) = lport"
    and str: "strlen (at (umem s p) data) = Some k" "k < nat n" "nat n \<le> SBUFFSIZE" "in_uvm p data (Suc k) s"
  shows "\<exists>s1. send lport data n s = Ok (Return 0, s1) \<and>
    (\<forall>(s2 :: 'a sk_scheme) buf m. ready q s2 \<longrightarrow> socks s2 = socks s1 \<longrightarrow> k < nat m \<longrightarrow> in_uvm q buf (nat m) s2 \<longrightarrow>
      (\<exists>s3. recv (rPort (socks s ! l)) buf m s2 = Ok (Return 0, s3) \<and>
        read_bytes (umem s3 q) buf (Suc k) = read_bytes (umem s p) data (Suc k) \<and>
        \<not> hasfullbuffer (socks s3 ! r)))"
proof -
  note en = endpoint_Inr [OF e]
  let ?t = "at (umem s p) data"
  have sl: "l < NSOCK" "r < NSOCK" using getsock_slot [OF inv] en(2,5) by blast+
  have len: "r < length (socks s)" using sl slot_len [OF inv] by simp
  have reads: "strncpy_reads ?t (nat n) = Suc k" using strncpy_reads_strlen [OF str(1,2)] .
  define d where "d = delivered p l r data n s"
  have s1: "send lport data n s = Ok (Return 0, touched d)"
    unfolding d_def using send_entry [OF ready e] empty en(5) str(2,3,4) readyD [OF ready] reads
    by (simp add: send_tail_ok strncpy_no_overflow)
  let ?b = "strncpy_out ?t (nat n) @ drop (nat n) (recvbuffer (socks s ! r))"
  have dk: "socks d = (socks s)[r := (socks s ! r)\<lparr>recvbuffer := ?b, hasfullbuffer := True\<rparr>]"
    by (simp add: d_def delivered_def socks_upd_sock)
  have dr: "socks d ! r = (socks s ! r)\<lparr>recvbuffer := ?b, hasfullbuffer := True\<rparr>"
    using len by (simp add: dk)
  have rp: "getsock (rPort (socks s ! l)) d = Some r" "getsock lport d = Some l"
    using en by (simp_all add: d_def)
  have st: "sstate (socks d ! i) = sstate (socks s ! i)" for i
    by (simp add: dk nth_update_same)
  have ep: "endpoint q (rPort (socks s ! l)) d = Inr (r, l)"
    using rp en st peer getsock_Some(4,5) [OF en(5)]
    by (simp add: endpoint_def dr valid_port_def)
  have "\<exists>s3. recv (rPort (socks s ! l)) buf m s2 = Ok (Return 0, s3) \<and>
        read_bytes (umem s3 q) buf (Suc k) = read_bytes (umem s p) data (Suc k) \<and>
        \<not> hasfullbuffer (socks s3 ! r)"
    if q: "ready q s2" "socks s2 = socks d" "k < nat m" "in_uvm q buf (nat m) s2" for s2 :: "'a sk_scheme" and buf m
  proof -
    note c = strlen_copied [OF str(1,2), where xs = "drop (nat n) (recvbuffer (socks s ! r))"]
    have rd: "readable q r buf m s2"
      unfolding readable_def q(2) dr using strncpy_reads_strlen [OF c(1) q(3)] str(2,3) q(3,4)
      by (simp add: strncpy_no_overflow)
    have e2: "endpoint q (rPort (socks s ! l)) s2 = Inr (r, l)"
      by (simp only: endpoint_socks [OF q(2)] ep)
    have f2: "hasfullbuffer (socks s2 ! r)" by (simp add: q(2) dr)
    have g2: "getsock (rPort (socks s2 ! r)) s2 = Some l"
      unfolding getsock_socks [OF q(2)] unfolding q(2) dr using rp(2) peer(2) by simp
    have "recv (rPort (socks s ! l)) buf m s2 = Ok (Return 0, touched (fetched q r buf m s2))"
      unfolding recv_entry [OF q(1) e2] using f2 recv_tail_cases [OF readyD(1,5,6) [OF q(1)] rd] g2 by simp
    moreover have "read_bytes (umem (fetched q r buf m s2) q) buf (Suc k) = read_bytes (umem s p) data (Suc k)"
    proof -
      have "unat buf + nat m \<le> 4294967296"
        using q(3,4) unat_lt2p_u32 [of "sz (ptable s2 ! q)"] by (auto simp: in_uvm_def)
      then have "read_bytes (umem (fetched q r buf m s2) q) buf (Suc k) = take (Suc k) (strncpy_out (reader_of ?b) (nat m))"
        using q(2,3) dr by (simp add: fetched_def read_write_bytes)
      also have "\<dots> = map (reader_of ?b) [0..<Suc k]"
        by (rule strncpy_out_take [OF c(1) q(3)])
      also have "\<dots> = map ?t [0..<Suc k]"
        using c(2) by (intro map_upto_cong) simp
      finally show ?thesis by (simp only: read_bytes_def)
    qed
    moreover have "\<not> hasfullbuffer (socks (fetched q r buf m s2) ! r)"
      using len q(2) dk by simp
    ultimately show ?thesis by simp
  qed
  then show ?thesis using s1 by (intro exI [of _ "touched d"]) simp
qed

text \<open>Two processes connected on ports 127 and 80; the memory of process 0 holds a string at 256.\<close>

definition demo_mem :: "nat \<Rightarrow> u32 \<Rightarrow> u8" where
  "demo_mem p a = (if p = 0 \<and> a = 256 then 104 else if p = 0 \<and> a = 257 then 105 else 0)"

definition demo_pair :: "bool \<Rightarrow> bool \<Rightarrow> sock list" where
  "demo_pair f g = [(demo_open 0 CONNECTED 1 80 127)\<lparr>hasfullbuffer := f\<rparr>,
                    (demo_open 1 CONNECTED 0 127 80)\<lparr>hasfullbuffer := g\<rparr>]"

lemma demo_fields [simp]:
  "i < length ks \<Longrightarrow> socks (demo q ps ks m) ! i = ks ! i" "umem (demo q ps ks m) = m"
  "ptable (demo q ps ks m) = ps" "countSock (demo q ps ks m) = int (length ks)"
  by (simp_all add: demo_def nth_append)

lemma demo_pair_inv: "sock_inv (demo q demo_procs (demo_pair f g) m)"
  by (rule demo_table) (auto simp: demo_pair_def demo_open_def demo_closed_def is_open_def)

lemma demo_pair_ends:
  "endpoint 0 127 (demo q demo_procs (demo_pair f g) m) = Inr (1, 0)"
  "endpoint 1 80 (demo q demo_procs (demo_pair f g) m) = Inr (0, 1)"
  by (simp_all add: demo_pair_def demo_open_def demo_closed_def endpoint_def valid_port_def demo_getsock)

lemma demo_string: "strlen (at (demo_mem 0) 256) = Some 2"
  by (auto simp: strlen_Some_iff at_def demo_mem_def less_2_cases_iff)

lemma demo_pair_fields:
  "\<not> hasfullbuffer (socks (demo q demo_procs (demo_pair False g) m) ! 0)"
  "owner (socks (demo q demo_procs (demo_pair f g) m) ! 0) = Some 1"
  "rPort (socks (demo q demo_procs (demo_pair f g) m) ! 0) = 127"
  "in_uvm 0 256 (Suc 2) (demo q demo_procs ks m)"
  by (simp_all add: demo_pair_def demo_open_def in_uvm_def demo_procs_def demo_proc_def)

theorem send_recv_roundtrip_witness:
  "\<exists>s1. send 127 256 10 (demo (Some 0) demo_procs (demo_pair False False) demo_mem) = Ok (Return 0, s1)"
proof -
  have "0 < length demo_procs" "strlen (at (umem (demo (Some 0) demo_procs (demo_pair False False) demo_mem) 0) 256) = Some 2"
    by (simp_all add: demo_procs_def demo_string)
  note r = send_recv_roundtrip [OF demo_ready [OF this(1)] demo_pair_inv demo_pair_ends(1) demo_pair_fields(1-3)
      this(2), of 10, OF _ _ demo_pair_fields(4)]
  show ?thesis
    by (rule exE [OF r]) (simp, simp, blast)
qed

section \<open>Failed calls\<close>

text \<open>Nothing changes but the interrupt flag that the executing processor has saved.\<close>

definition flag_only :: "'a mach_scheme \<Rightarrow> 'a mach_scheme \<Rightarrow> bool" where
  "flag_only s s' \<longleftrightarrow> (\<exists>ie. s' = s\<lparr>cpus := (cpus s)[cur s := (curcpu s)\<lparr>intena := ie\<rparr>]\<rparr>)"

lemma flag_only_touched: "flag_only s (touched s)"
  by (auto simp: flag_only_def touched_def)

lemma flag_only_same: "flag_only s s"
  unfolding flag_only_def by (rule exI [of _ "intena (curcpu s)"]) simp

lemma more_touched: "mach.more (touched s) = mach.more s"
  by (simp add: touched_def)

text \<open>
  Which calls of \<open>send\<close> and \<open>recv\<close> are refused, in terms of the slots of the table and not of the
  lookups the code makes.
\<close>

definition socket_at :: "int \<Rightarrow> nat \<Rightarrow> 'a sk_scheme \<Rightarrow> bool" where
  "socket_at port l s \<longleftrightarrow> l < NSOCK \<and> is_open (socks s ! l) \<and> lPort (socks s ! l) = port"

inductive refused :: "nat \<Rightarrow> int \<Rightarrow> int \<Rightarrow> 'a sk_scheme \<Rightarrow> bool" where
  bad_port: "lport < 0 \<or> NPORT \<le> lport \<Longrightarrow> refused p lport E_INVALID_ARG s"
| no_socket: "0 \<le> lport \<Longrightarrow> lport < NPORT \<Longrightarrow> \<forall>l. \<not> socket_at lport l s \<Longrightarrow> refused p lport E_NOTFOUND s"
| foreign: "socket_at lport l s \<Longrightarrow> owner (socks s ! l) \<noteq> Some p \<Longrightarrow> refused p lport E_ACCESS_DENIED s"
| unconnected: "socket_at lport l s \<Longrightarrow> owner (socks s ! l) = Some p \<Longrightarrow> sstate (socks s ! l) \<noteq> CONNECTED \<Longrightarrow>
    refused p lport E_WRONG_STATE s"
| peer_gone: "socket_at lport l s \<Longrightarrow> owner (socks s ! l) = Some p \<Longrightarrow> sstate (socks s ! l) = CONNECTED \<Longrightarrow>
    \<forall>r. \<not> socket_at (rPort (socks s ! l)) r s \<Longrightarrow> refused p lport E_NOTFOUND s"
| peer_unconnected: "socket_at lport l s \<Longrightarrow> owner (socks s ! l) = Some p \<Longrightarrow> sstate (socks s ! l) = CONNECTED \<Longrightarrow>
    socket_at (rPort (socks s ! l)) r s \<Longrightarrow> sstate (socks s ! r) \<noteq> CONNECTED \<Longrightarrow> refused p lport E_WRONG_STATE s"

lemma socket_at_iff: "sock_inv s \<Longrightarrow> socket_at port l s \<longleftrightarrow> getsock port s = Some l"
  by (simp add: socket_at_def getsock_iff)

lemma no_socket_at: "sock_inv s \<Longrightarrow> (\<forall>l. \<not> socket_at port l s) \<longleftrightarrow> getsock port s = None"
  by (simp add: socket_at_iff)

lemma refused_endpoint:
  assumes "refused p lport code s" and "sock_inv s"
  shows "endpoint p lport s = Inl code"
  using assms by cases (auto simp: endpoint_def socket_at_iff no_socket_at valid_port_def dest: getsock_Some(4,5))

lemma endpoint_refused:
  assumes "endpoint p lport s = Inl code" and inv: "sock_inv s"
  shows "refused p lport code s"
  using assms(1) unfolding endpoint_def
  by (auto simp: valid_port_def socket_at_iff [OF inv] no_socket_at [OF inv]
      intro: refused.intros split: if_split_asm option.split_asm)

lemma accepted_return:
  assumes r: "ready p s" and e: "endpoint p lport s = Inr (l, q)"
  shows "send lport data n s = Ok (Return code, s') \<Longrightarrow> code = 0"
    and "recv lport data n s = Ok (Return code, s') \<Longrightarrow> code = 0"
proof -
  note c = readyD(1,5,6) [OF r] and g = endpoint_Inr(5) [OF e]
  show "send lport data n s = Ok (Return code, s') \<Longrightarrow> code = 0"
    using send_entry [OF r e, of data n] g c
    by (auto simp: send_tail_def wakeup_ok retsockfunc_ok split: if_split_asm)
  show "recv lport data n s = Ok (Return code, s') \<Longrightarrow> code = 0"
    using recv_entry [OF r e, of data n] g recv_tail_cases [OF c, of p l data n]
    by (cases "readable p l data n s") (auto simp: recv_tail_def readable_def Let_def split: if_split_asm)
qed

text \<open>
  C15: \<open>send\<close> and \<open>recv\<close> refuse a call exactly in these cases: the port is out of range
  (\<open>E_INVALID_ARG\<close>), no open socket has it (\<open>E_NOTFOUND\<close>), the one that has it belongs to another
  process (\<open>E_ACCESS_DENIED\<close>) or is not connected (\<open>E_WRONG_STATE\<close>), or its remote port has no open
  socket (\<open>E_NOTFOUND\<close>) or one that is not connected (\<open>E_WRONG_STATE\<close>). Refused, the call returns that
  code and the whole state is as before, locks, interrupt flags and nesting depth included, but
  for the interrupt flag the processor saved. A call that is not refused returns no error at once.
\<close>

theorem send_recv_guards:
  assumes "ready p s" and "sock_inv s"
  shows "(refused p lport code s \<longrightarrow>
      (\<exists>s'. send lport data n s = Ok (Return code, s') \<and> flag_only s s') \<and>
      (\<exists>s'. recv lport data n s = Ok (Return code, s') \<and> flag_only s s')) \<and>
    ((\<forall>e. \<not> refused p lport e s) \<longrightarrow>
      (\<forall>e s'. send lport data n s = Ok (Return e, s') \<longrightarrow> e = 0) \<and>
      (\<forall>e s'. recv lport data n s = Ok (Return e, s') \<longrightarrow> e = 0))"
proof (intro conjI impI)
  assume "refused p lport code s"
  then have e: "endpoint p lport s = Inl code" using assms(2) by (rule refused_endpoint)
  show "\<exists>s'. send lport data n s = Ok (Return code, s') \<and> flag_only s s'"
    "\<exists>s'. recv lport data n s = Ok (Return code, s') \<and> flag_only s s'"
    using send_error [OF assms(1) e] recv_error [OF assms(1) e] by (simp_all add: flag_only_same flag_only_touched)
next
  assume "\<forall>e. \<not> refused p lport e s"
  then obtain l q where "endpoint p lport s = Inr (l, q)"
    using endpoint_refused [OF _ assms(2)] by (metis sum.exhaust surj_pair)
  note a = accepted_return [OF assms(1) this]
  show "\<forall>e s'. send lport data n s = Ok (Return e, s') \<longrightarrow> e = 0"
    "\<forall>e s'. recv lport data n s = Ok (Return e, s') \<longrightarrow> e = 0"
    using a by blast+
qed

theorem send_recv_guards_witness:
  "\<exists>s'. send 127 256 10 (demo (Some 2) demo_procs (demo_pair False False) demo_mem) = Ok (Return E_ACCESS_DENIED, s') \<and>
     locks s' = (\<lambda>_. \<lparr>locked = False, lcpu = None\<rparr>)"
proof -
  let ?d = "demo (Some 2) demo_procs (demo_pair False False) demo_mem"
  have "refused 2 127 E_ACCESS_DENIED ?d"
    by (rule refused.foreign [of _ 1])
      (simp_all add: socket_at_def demo_def demo_pair_def demo_open_def is_open_def)
  then show ?thesis
    using send_recv_guards [OF demo_ready [of 2 demo_procs "demo_pair False False" demo_mem] demo_pair_inv,
        of 127 E_ACCESS_DENIED 256 10]
    by (auto simp: demo_procs_def flag_only_def) (simp add: demo_def)
qed

text \<open>
  C16: \<open>send\<close> and \<open>recv\<close> never act on the socket of another process: when the port belongs to a
  socket whose owner is not the caller, both are refused, whatever the states of the two ends.
  So is \<open>disconnect\<close>.
\<close>

theorem foreign_socket_refused:
  assumes "ready p s" and "getsock lport s = Some l" and "owner (socks s ! l) \<noteq> Some p"
  shows "(\<exists>s'. send lport data n s = Ok (Return E_ACCESS_DENIED, s') \<and> mach.more s' = mach.more s) \<and>
    (\<exists>s'. recv lport data n s = Ok (Return E_ACCESS_DENIED, s') \<and> mach.more s' = mach.more s) \<and>
    (\<exists>s'. disconnect lport s = Ok (Return E_ACCESS_DENIED, s') \<and> mach.more s' = mach.more s)"
proof -
  have v: "valid_port lport" using getsock_Some(4,5) [OF assms(2)] by (simp add: valid_port_def)
  have "endpoint p lport s = Inl E_ACCESS_DENIED"
    using v assms(2,3) by (simp add: endpoint_def)
  then show ?thesis
    using send_error [OF assms(1)] recv_error [OF assms(1)] disconnect_cases [OF assms(1)] v assms(2,3)
    by (auto simp: more_touched)
qed

theorem foreign_socket_refused_witness:
  "\<exists>s'. disconnect 127 (demo (Some 2) demo_procs (demo_pair False False) demo_mem) = Ok (Return E_ACCESS_DENIED, s')"
  using foreign_socket_refused [OF demo_ready [of 2 demo_procs "demo_pair False False" demo_mem], of 127 1]
  by (auto simp: demo_getsock demo_procs_def demo_pair_def demo_open_def)

section \<open>Waiting calls\<close>

text \<open>
  C13: A \<open>recv\<close> that waits can return 0 although nothing was sent to it. Process \<open>p\<close> waits on its
  peer's socket \<open>r\<close>; when the peer receives a message of its own, \<open>recv\<close> wakes the sleepers of
  \<open>r\<close>, and \<open>p\<close>, which does not look at its buffer again, copies the old contents and returns 0.
\<close>

theorem recv_returns_without_data:
  fixes s :: "'a sk_scheme"
  assumes ready: "ready p s" and e: "endpoint p lport s = Inr (l, r)"
    and empty: "\<not> hasfullbuffer (socks s ! l)" and full: "hasfullbuffer (socks s ! r)"
    and peer: "owner (socks s ! r) = Some q" "rPort (socks s ! r) = lport"
  shows "\<exists>s1 k. recv lport data n s = Ok (Sleeps k, acquired PtableLock s1) \<and>
    (\<forall>(s2 :: 'a sk_scheme) buf m. ready q s2 \<longrightarrow> socks s2 = socks s1 \<longrightarrow> p < length (ptable s2) \<longrightarrow>
       ptable s2 ! p = ptable s1 ! p \<longrightarrow> readable q r buf m s2 \<longrightarrow>
      (\<exists>s3. recv (rPort (socks s ! l)) buf m s2 = Ok (Return 0, s3) \<and>
        pstate (ptable s3 ! p) = RUNNABLE \<and> \<not> hasfullbuffer (socks s3 ! l) \<and>
        (\<forall>s4 :: 'a sk_scheme. ready p s4 \<longrightarrow> socks s4 = socks s3 \<longrightarrow> readable p l data n s4 \<longrightarrow>
          (\<exists>s5. sock_resume p k (acquired PtableLock s4) = Ok (Return 0, s5)))))"
proof -
  note en = endpoint_Inr [OF e] and rd = readyD [OF ready]
  define k where "k = RecvK (saved_intena s) l r data n"
  have s1: "recv lport data n s = Ok (Sleeps k, acquired PtableLock (asleep p r s))"
    using recv_entry [OF ready e] empty by (simp add: k_def)
  have ep: "endpoint q (rPort (socks s ! l)) s = Inr (r, l)"
    using en peer getsock_Some(4,5) [OF en(5)] by (simp add: endpoint_def valid_port_def)
  have "\<exists>s3. recv (rPort (socks s ! l)) buf m s2 = Ok (Return 0, s3) \<and>
        pstate (ptable s3 ! p) = RUNNABLE \<and> \<not> hasfullbuffer (socks s3 ! l) \<and>
        (\<forall>s4 :: 'a sk_scheme. ready p s4 \<longrightarrow> socks s4 = socks s3 \<longrightarrow> readable p l data n s4 \<longrightarrow>
          (\<exists>s5. sock_resume p k (acquired PtableLock s4) = Ok (Return 0, s5)))"
    if q: "ready q s2" "socks s2 = socks s" "p < length (ptable s2)"
      "ptable s2 ! p = (ptable s ! p)\<lparr>chan := Some (SockChan r), pstate := SLEEPING\<rparr>" "readable q r buf m s2"
    for s2 :: "'a sk_scheme" and buf m
  proof -
    let ?f = "fetched q r buf m s2"
    have e2: "endpoint q (rPort (socks s ! l)) s2 = Inr (r, l)"
      by (simp only: endpoint_socks [OF q(2)] ep)
    have g2: "getsock (rPort (socks s2 ! r)) s2 = Some l"
      unfolding getsock_socks [OF q(2)] q(2) peer(2) by (rule en(2))
    have s3: "recv (rPort (socks s ! l)) buf m s2 = Ok (Return 0, touched ?f)"
      unfolding recv_entry [OF q(1) e2] using full q(2) recv_tail_cases [OF readyD(1,5,6) [OF q(1)] q(5)] g2 by simp
    have w: "pstate (ptable ?f ! p) = RUNNABLE"
      using q(3,4) by (simp add: fetched_def wakeup1_def upd_sock_def)
    have h: "\<not> hasfullbuffer (socks ?f ! l)"
      using empty full q(2) by (cases "l = r") simp_all
    have "\<exists>s5. sock_resume p k (acquired PtableLock s4) = Ok (Return 0, s5)"
      if p4: "ready p s4" "socks s4 = socks ?f" "readable p l data n s4" for s4 :: "'a sk_scheme"
    proof -
      let ?w = "woken (saved_intena s) p s4"
      have "rPort (socks s4 ! l) = rPort (socks s ! l)" using p4(2) q(2) by (simp add: nth_update_same)
      moreover have "getsock (rPort (socks s ! l)) ?f = Some r" using en(5) getsock_socks [OF q(2)] by simp
      ultimately have "getsock (rPort (socks s4 ! l)) s4 = Some r" using getsock_socks [OF p4(2)] by simp
      moreover have "readable p l data n ?w" "cpu_ok ?w" "lock_free StableLock ?w" "lock_free PtableLock ?w"
        using p4 readyD [OF p4(1)]
        by (simp_all add: readable_def in_uvm_def woken_def ptable_upd_proc nth_update_same)
      ultimately show ?thesis
        using sock_resume_ok(3) [OF p4(1)] recv_tail_cases [of ?w p l data n] unfolding k_def by simp
    qed
    then show ?thesis using s3 w h by (intro exI [of _ "touched ?f"]) simp
  qed
  then show ?thesis
    using s1 rd(4) by (intro exI [of _ "asleep p r s"] exI [of _ k]) (simp add: asleep_def ptable_upd_proc)
qed

theorem recv_returns_without_data_witness:
  "\<exists>s1 k. recv 127 512 10 (demo (Some 0) demo_procs (demo_pair True False) demo_mem) = Ok (Sleeps k, acquired PtableLock s1)"
proof -
  have "0 < length demo_procs" "\<not> hasfullbuffer (socks (demo (Some 0) demo_procs (demo_pair True False) demo_mem) ! 1)"
    "hasfullbuffer (socks (demo (Some 0) demo_procs (demo_pair True False) demo_mem) ! 0)"
    by (simp_all add: demo_procs_def demo_pair_def demo_open_def demo_closed_def)
  from recv_returns_without_data [OF demo_ready [OF this(1)] demo_pair_ends(1) this(2,3) demo_pair_fields(2,3), of 512 10]
  show ?thesis by blast
qed

text \<open>
  C5: A server that waits in \<open>listen\<close> is served: the call sleeps; a \<open>connect\<close> of another process to
  the port, with the table as \<open>listen\<close> left it and a slot free, makes the server runnable; and
  when the scheduler switches to it, \<open>listen\<close> returns 0 in every state where the locks are free.
\<close>

theorem listen_is_served:
  fixes s :: "'a sk_scheme"
  assumes ready: "ready p s" and inv: "sock_inv s" and port: "valid_port lport" "getsock lport s = None"
    and room: "countSock s + 1 < int NSOCK"
  shows "\<exists>s1 k. listen lport s = Ok (Sleeps k, acquired PtableLock s1) \<and>
    pstate (ptable s1 ! p) = SLEEPING \<and> sock_inv s1 \<and>
    (\<forall>(s2 :: 'a sk_scheme) q host. ready q s2 \<longrightarrow> socks s2 = socks s1 \<longrightarrow> countSock s2 = countSock s1 \<longrightarrow>
       p < length (ptable s2) \<longrightarrow> ptable s2 ! p = ptable s1 ! p \<longrightarrow> local_host host \<longrightarrow>
      (\<exists>s3 port. connect lport host s2 = Ok (Return port, s3) \<and> 0 < port \<and> pstate (ptable s3 ! p) = RUNNABLE)) \<and>
    (\<forall>s4 :: 'a sk_scheme. ready p s4 \<longrightarrow> (\<exists>s5. sock_resume p k (acquired PtableLock s4) = Ok (Return 0, s5)))"
proof -
  obtain i where i: "find_index (\<lambda>k. sstate k = CLOSED) (socks s) = Some i"
    "listen lport s = Ok (Sleeps (ListenK (saved_intena s)), acquired PtableLock (listening p lport i s))"
    using listen_ok [OF ready inv port(1) _ port(2)] room by auto
  let ?a = "allocated p lport i (\<lambda>k. k\<lparr>sstate := LISTENING\<rparr>) s" and ?l = "listening p lport i s"
  have view: "socks ?l = socks ?a" "countSock ?l = countSock ?a"
    by (simp_all add: listening_def allocated_def)
  have "table_step p s ?a"
    using port i by (intro table_step_allocated) (simp_all add: is_open_def)
  then have inva: "sock_inv ?a" using inv by (simp add: table_step_def)
  have cnt: "countSock ?a < int NSOCK"
    using room sock_inv_count_bounds [OF inv] by (simp add: allocated_def wrap32_id)
  have il: "i < NSOCK" using closed_slot(1) [OF i(1)] slot_len [OF inv] by simp
  have new: "socks ?a ! i = (opened_sock (nextsid s) (Some p) lport (socks s ! i))\<lparr>sstate := LISTENING\<rparr>"
    using closed_slot(1) [OF i(1)] by (simp add: allocated_def socks_upd_sock)
  have g: "getsock lport ?a = Some i"
    using il by (simp add: getsock_iff [OF inva] new is_open_def)
  have pt: "ptable ?l ! p = (ptable s ! p)\<lparr>chan := Some (SockChan i), pstate := SLEEPING\<rparr>"
    using readyD(4) [OF ready] by (simp add: listening_def ptable_upd_proc)
  have "\<exists>s3 port. connect lport host s2 = Ok (Return port, s3) \<and> 0 < port \<and> pstate (ptable s3 ! p) = RUNNABLE"
    if q: "ready q s2" "socks s2 = socks ?l" "countSock s2 = countSock ?l" "p < length (ptable s2)"
      "ptable s2 ! p = ptable ?l ! p" "local_host host" for s2 :: "'a sk_scheme" and q host
  proof -
    have sv: "socks s2 = socks ?a" "countSock s2 = countSock ?a" using q(2,3) view by simp_all
    have inv2: "sock_inv s2" using inva sock_inv_view [OF sv] by simp
    have g2: "getsock lport s2 = Some i" unfolding getsock_socks [OF sv(1)] by (rule g)
    have st: "sstate (socks s2 ! i) = LISTENING" unfolding sv(1) new by simp
    obtain l where l: "find_index (\<lambda>k. sstate k = CLOSED) (socks s2) = Some l"
      using allocsock_full [OF inv2] sv(2) cnt by auto
    have "pstate (ptable (linked q l i (getfreeport s2) lport s2) ! p) = RUNNABLE"
      using q(4,5) pt by (simp add: linked_def wakeup1_def)
    then show ?thesis
      using connect_ok [OF q(1) inv2 q(6) g2 st l] getfreeport_spec(1) [OF inv2] by simp
  qed
  moreover have "\<exists>s5. sock_resume p (ListenK ie) (acquired PtableLock s4) = Ok (Return 0, s5)"
    if "ready p s4" for s4 :: "'a sk_scheme" and ie
    using sock_resume_ok(1) [OF that] by blast
  ultimately show ?thesis
    using i(2) pt inva sock_inv_view [OF view]
    by (intro exI [of _ ?l] exI [of _ "ListenK (saved_intena s)"]) (simp del: sock_resume.simps)
qed

theorem listen_is_served_witness:
  "\<exists>s1 k. listen 80 (demo (Some 0) demo_procs [] demo_mem) = Ok (Sleeps k, acquired PtableLock s1) \<and>
     pstate (ptable s1 ! 0) = SLEEPING"
proof -
  have "ready 0 (demo (Some 0) demo_procs [] demo_mem)" "sock_inv (demo (Some 0) demo_procs [] demo_mem)"
    "valid_port 80" "getsock 80 (demo (Some 0) demo_procs [] demo_mem) = None"
    by (simp_all add: demo_ready demo_procs_def demo_table valid_port_def demo_getsock)
  from listen_is_served [OF this] show ?thesis by auto
qed

section \<open>Who receives\<close>

text \<open>
  C14: \<open>send\<close> does not look at whom its peer is connected to: when the socket on the remote port
  is connected to some other port (the first peer has gone and the port was taken again), the
  data still goes into that socket's buffer and \<open>send\<close> returns 0.
\<close>

theorem send_to_wrong_connection:
  assumes ready: "ready p s" and inv: "sock_inv s" and e: "endpoint p lport s = Inr (l, r)"
    and other: "rPort (socks s ! r) \<noteq> lport" and empty: "\<not> hasfullbuffer (socks s ! r)"
    and n: "\<not> strncpy_overflows n" "nat n \<le> SBUFFSIZE" "in_uvm p data (strncpy_reads (at (umem s p) data) (nat n)) s"
  shows "\<exists>s1. send lport data n s = Ok (Return 0, s1) \<and> hasfullbuffer (socks s1 ! r) \<and>
    rPort (socks s1 ! r) \<noteq> lport \<and> take (nat n) (recvbuffer (socks s1 ! r)) = strncpy_out (at (umem s p) data) (nat n)"
proof -
  note en = endpoint_Inr [OF e]
  have len: "r < length (socks s)" using getsock_Some(1) [OF en(5)] .
  have "send lport data n s = Ok (Return 0, touched (delivered p l r data n s))"
    using send_entry [OF ready e] empty en(5) n readyD [OF ready] by (simp add: send_tail_ok)
  then show ?thesis
    using len other by (simp add: delivered_def socks_upd_sock)
qed

definition demo_stale :: "sock list" where
  "demo_stale = [demo_open 2 CONNECTED 1 80 126, demo_open 1 CONNECTED 0 127 80, demo_open 3 CONNECTED 2 126 80]"

theorem send_to_wrong_connection_witness:
  "\<exists>s1. send 127 256 10 (demo (Some 0) demo_procs demo_stale demo_mem) = Ok (Return 0, s1) \<and>
     rPort (socks s1 ! 0) \<noteq> 127"
proof -
  let ?d = "demo (Some 0) demo_procs demo_stale demo_mem"
  have 1: "ready 0 ?d" by (simp add: demo_ready demo_procs_def)
  have 2: "sock_inv ?d"
    by (rule demo_table) (auto simp: demo_stale_def demo_open_def demo_closed_def is_open_def)
  have 3: "endpoint 0 127 ?d = Inr (1, 0)"
    by (simp add: demo_stale_def demo_open_def endpoint_def valid_port_def demo_getsock)
  have 4: "rPort (socks ?d ! 0) \<noteq> 127" "\<not> hasfullbuffer (socks ?d ! 0)"
    by (simp_all add: demo_stale_def demo_open_def demo_closed_def)
  have "strncpy_reads (at (demo_mem 0) 256) 10 = 3"
    using strncpy_reads_strlen [OF demo_string, of 10] by simp
  then have 5: "in_uvm 0 256 (strncpy_reads (at (umem ?d 0) 256) (nat 10)) ?d"
    by (simp add: in_uvm_def demo_procs_def demo_proc_def)
  from send_to_wrong_connection [OF 1 2 3 4 _ _ 5] show ?thesis by (auto simp: strncpy_overflows_def)
qed

section \<open>Names, ports and the end of a process\<close>

text \<open>
  C18: \<open>connect\<close> takes every prefix of \<open>localhost\<close> or of \<open>127.0.0.1\<close>, the empty name included, for
  the full name, because it compares only as many bytes as the argument has.
\<close>

theorem connect_takes_prefixes:
  assumes n: "strlen host = Some n"
    and pre: "map host [0..<n] = take n (bytes_of ''localhost'') \<or> map host [0..<n] = take n (bytes_of ''127.0.0.1'')"
  shows "connect rport host s = connect rport (reader_of (bytes_of ''localhost'')) s"
proof -
  have eq: "strncmp host (reader_of bs) n = 0" if "map host [0..<n] = take n bs" for bs
  proof -
    have "n \<le> length bs" using that by (metis diff_zero length_map length_take length_upt min.cobounded1)
    then have "host i = reader_of bs i" if "i < n" for i
      using that \<open>map host [0..<n] = take n bs\<close>
      by (metis (no_types, lifting) add_0 diff_zero length_upt less_le_trans nth_map nth_take nth_upt reader_of_def)
    then show ?thesis unfolding strncmp_0_iff by blast
  qed
  have "local_host host" using n pre eq unfolding local_host_def by blast
  moreover note demo_local_host
  ultimately show ?thesis
    by (elim local_hostE) (auto simp: connect_def)
qed

lemma strlen_empty: "strlen (\<lambda>_. 0) = Some 0"
  by (simp add: strlen_Some_iff)

theorem connect_takes_prefixes_witness:
  "connect 80 (\<lambda>_. 0) (demo (Some 0) demo_procs [] demo_mem) =
   connect 80 (reader_of (bytes_of ''localhost'')) (demo (Some 0) demo_procs [] demo_mem)"
  using connect_takes_prefixes [OF strlen_empty] by simp

text \<open>
  C17: There are more ports than sockets, so under the invariant \<open>getfreeport\<close> always finds one: the
  highest port that no open socket uses, never port 0; the branch of \<open>connect\<close> for its failure
  is dead. The comment at its declaration promises a random free port; the port is determined by
  the table.
\<close>

theorem getfreeport_highest:
  assumes "sock_inv s"
  shows "1 \<le> getfreeport s \<and> getfreeport s < NPORT \<and> getsock (getfreeport s) s = None \<and>
    (\<forall>q. getfreeport s < q \<and> q < NPORT \<longrightarrow> getsock q s \<noteq> None)"
  using getfreeport_spec [OF assms] by (auto simp: valid_port_def)

theorem getfreeport_highest_witness:
  "getfreeport (demo (Some 0) demo_procs (demo_pair False False) demo_mem) = 126"
proof -
  let ?d = "demo (Some 0) demo_procs (demo_pair False False) demo_mem"
  have g: "getsock 127 ?d \<noteq> None" "getsock 126 ?d = None"
    by (simp_all add: demo_getsock demo_pair_def demo_open_def)
  have h: "1 \<le> getfreeport ?d \<and> getfreeport ?d < NPORT \<and> getsock (getfreeport ?d) ?d = None \<and>
    (\<forall>q. getfreeport ?d < q \<and> q < NPORT \<longrightarrow> getsock q ?d \<noteq> None)"
    by (rule getfreeport_highest [OF demo_pair_inv])
  have "getfreeport ?d \<noteq> 127" using g(1) h by metis
  moreover have "\<not> getfreeport ?d < 126" using g(2) h by force
  ultimately show ?thesis using h by linarith
qed

text \<open>
  C11: \<open>closeprocsocks\<close> ends, and when it does every open socket of the process is closed, every
  other slot is as before, and the table is still well formed.
\<close>

theorem closeprocsocks_closes_all:
  assumes "cpu_ok s" "lock_free PtableLock s" "lock_free StableLock s" and inv: "sock_inv s"
  shows "\<exists>s'. closeprocsocks (Some p) s = Ok s' \<and> sock_inv s' \<and> getprocsock p s' = None \<and>
    (\<forall>i<NSOCK. socks s' ! i = (if owned_by p (socks s ! i) then closed_sock (socks s ! i) else socks s ! i))"
proof -
  obtain s' where s': "closeprocsocks (Some p) s = Ok s'"
     "socks s' = map (\<lambda>k. if owned_by p k then closed_sock k else k) (socks s)" "sock_inv s \<longrightarrow> sock_inv s'"
    using closeprocsocks_ok [OF assms(1,2,3), of p] by blast
  have "getprocsock p s' = None"
    by (auto simp: getprocsock_def find_index_None_iff s'(2) owned_by_def)
  then show ?thesis using s' inv slot_len [OF inv] by auto
qed

theorem closeprocsocks_closes_all_witness:
  "\<exists>s'. closeprocsocks (Some 0) (demo (Some 0) demo_procs (demo_pair False False) demo_mem) = Ok s' \<and>
     getprocsock 0 s' = None"
proof -
  have "ready 0 (demo (Some 0) demo_procs (demo_pair False False) demo_mem)"
    by (simp add: demo_ready demo_procs_def)
  from closeprocsocks_closes_all [OF readyD(1,6,5) [OF this] demo_pair_inv, of 0]
  show ?thesis by blast
qed

text \<open>
  C12: The socket table implements a map from ports to sockets: \<open>allocsock\<close> adds exactly the port it
  is given, \<open>removesock\<close> of the new socket gives back the map from before, and two allocations
  in a row get different slots for different ports.
\<close>

theorem socket_map_laws:
  assumes "sock_inv s" and "allocsock p s = Ok (Some i, s1)"
  shows "(\<forall>q. getsock q s1 = (if q = p then Some i else getsock q s)) \<and> getsock p s = None \<and>
    (\<forall>b s2. removesock (Some i) s1 = Ok (b, s2) \<longrightarrow> sock_inv s2 \<and> (\<forall>q. getsock q s2 = getsock q s)) \<and>
    (\<forall>p' j s2. allocsock p' s1 = Ok (Some j, s2) \<longrightarrow> i \<noteq> j \<and> p \<noteq> p' \<and> getsock p s2 = Some i \<and> getsock p' s2 = Some j)"
  using pm.alloc_lookup [OF assms] pm.alloc_was_free [OF assms(2)]
    pm.alloc_remove_lookup [OF assms] pm.alloc_alloc_distinct [OF assms] by blast

theorem socket_map_laws_witness:
  "\<exists>i s1. allocsock 80 (acquired StableLock (demo (Some 0) demo_procs [] demo_mem)) = Ok (Some i, s1) \<and>
     getsock 80 s1 = Some i"
proof -
  let ?d = "demo (Some 0) demo_procs [] demo_mem"
  have r: "ready 0 ?d" by (simp add: demo_ready demo_procs_def)
  have inv: "sock_inv ?d" by (rule demo_table) simp_all
  have inv': "sock_inv (acquired StableLock ?d)" using inv sock_inv_view [of "acquired StableLock ?d" ?d] by simp
  obtain i where i: "find_index (\<lambda>k. sstate k = CLOSED) (socks ?d) = Some i"
    using allocsock_full [OF inv] by auto
  have a: "valid_port 80" "getsock 80 ?d = None" by (simp_all add: valid_port_def demo_getsock)
  note al = allocsock_ok [OF readyD(1) [OF r] a i, of StableLock]
  show ?thesis
    using socket_map_laws [OF inv' al] al by auto
qed

end
