(* ===== verification/Syssock.thy ===== *)
theory Syssock
  imports Syscall_Args Sock_Transfer
begin

text \<open>
  The socket system calls of \<open>syssock.c\<close>: the arguments are fetched from the user stack and
  the operation of \<open>sock.c\<close> is called. The properties say which memory the kernel can touch
  on behalf of a caller that passes arbitrary arguments, and what becomes of the length
  argument of \<open>send\<close> and \<open>recv\<close>.
\<close>

section \<open>Definitions\<close>

definition sys_listen :: "'a sk_scheme \<Rightarrow> 'a sock_result" where
  "sys_listen s =
     andthen (argint 0 s) (\<lambda>(port, s1).
       case port of
         None \<Rightarrow> Ok (Return E_MISSING_ARG, s1)
       | Some w \<Rightarrow> listen (sint w) s1)"

text \<open>The host name stays in user memory; \<open>connect\<close> reads it there.\<close>

definition sys_connect :: "'a sk_scheme \<Rightarrow> 'a sock_result" where
  "sys_connect s =
     andthen (argint 0 s) (\<lambda>(port, s1).
       case port of
         None \<Rightarrow> Ok (Return E_MISSING_ARG, s1)
       | Some w \<Rightarrow>
           andthen (argstr 1 s1) (\<lambda>(host, s2).
             case host of
               None \<Rightarrow> Ok (Return E_MISSING_ARG, s2)
             | Some (a, _) \<Rightarrow>
                (case curproc s2 of
                   None \<Rightarrow> Fault
                 | Some p \<Rightarrow> connect (sint w) (at (umem s2 p) a) s2)))"

definition sys_send :: "'a sk_scheme \<Rightarrow> 'a sock_result" where
  "sys_send s =
     andthen (argint 0 s) (\<lambda>(port, s1).
       case port of
         None \<Rightarrow> Ok (Return E_MISSING_ARG, s1)
       | Some w \<Rightarrow>
           andthen (argstr 1 s1) (\<lambda>(buf, s2).
             case buf of
               None \<Rightarrow> Ok (Return E_MISSING_ARG, s2)
             | Some (a, _) \<Rightarrow>
                 andthen (argint 0 s2) (\<lambda>(n, s3).
                   case n of
                     None \<Rightarrow> Ok (Return E_MISSING_ARG, s3)
                   | Some k \<Rightarrow> send (sint w) a (sint k) s3)))"

text \<open>\<open>sizeof(char *)\<close> is 4 whatever the length argument says.\<close>

definition sys_recv :: "'a sk_scheme \<Rightarrow> 'a sock_result" where
  "sys_recv s =
     andthen (argint 0 s) (\<lambda>(port, s1).
       case port of
         None \<Rightarrow> Ok (Return E_MISSING_ARG, s1)
       | Some w \<Rightarrow>
           andthen (argptr 1 4 s1) (\<lambda>(buf, s2).
             case buf of
               None \<Rightarrow> Ok (Return E_MISSING_ARG, s2)
             | Some a \<Rightarrow>
                 andthen (argint 2 s2) (\<lambda>(n, s3).
                   case n of
                     None \<Rightarrow> Ok (Return E_MISSING_ARG, s3)
                   | Some k \<Rightarrow> recv (sint w) a (sint k) s3)))"

definition sys_disconnect :: "'a sk_scheme \<Rightarrow> 'a sock_result" where
  "sys_disconnect s =
     andthen (argint 0 s) (\<lambda>(port, s1).
       case port of
         None \<Rightarrow> Ok (Return E_MISSING_ARG, s1)
       | Some w \<Rightarrow> disconnect (sint w) s1)"

section \<open>The calls as operations on fetched arguments\<close>

lemma ready_touched: "ready p s \<Longrightarrow> ready p (touched s)"
  using curcpu_touched [of s] by (simp add: ready_def)

lemma sys_listen_ok:
  "ready p s \<Longrightarrow> sys_listen s =
     (case arg_word p 0 s of None \<Rightarrow> Ok (Return E_MISSING_ARG, touched s) | Some w \<Rightarrow> listen (sint w) (touched s))"
  by (simp add: sys_listen_def argint_ok readyD)

lemma sys_disconnect_ok:
  "ready p s \<Longrightarrow> sys_disconnect s =
     (case arg_word p 0 s of None \<Rightarrow> Ok (Return E_MISSING_ARG, touched s) | Some w \<Rightarrow> disconnect (sint w) (touched s))"
  by (simp add: sys_disconnect_def argint_ok readyD)

lemma sys_connect_ok:
  "ready p s \<Longrightarrow> sys_connect s =
     (case arg_word p 0 s of None \<Rightarrow> Ok (Return E_MISSING_ARG, touched s)
      | Some w \<Rightarrow> (case arg_string p 1 s of None \<Rightarrow> Ok (Return E_MISSING_ARG, touched s)
         | Some (a, _) \<Rightarrow> connect (sint w) (at (umem s p) a) (touched s)))"
  by (simp add: sys_connect_def argint_ok argstr_ok readyD touched_touched split: option.split)

lemma sys_send_ok:
  "ready p s \<Longrightarrow> sys_send s =
     (case arg_word p 0 s of None \<Rightarrow> Ok (Return E_MISSING_ARG, touched s)
      | Some w \<Rightarrow> (case arg_string p 1 s of None \<Rightarrow> Ok (Return E_MISSING_ARG, touched s)
         | Some (a, _) \<Rightarrow> send (sint w) a (sint w) (touched s)))"
  by (simp add: sys_send_def argint_ok argstr_ok readyD touched_touched split: option.split)

lemma sys_recv_ok:
  "ready p s \<Longrightarrow> sys_recv s =
     (case arg_word p 0 s of None \<Rightarrow> Ok (Return E_MISSING_ARG, touched s)
      | Some w \<Rightarrow> (case arg_block p 1 4 s of None \<Rightarrow> Ok (Return E_MISSING_ARG, touched s)
         | Some a \<Rightarrow> (case arg_word p 2 s of None \<Rightarrow> Ok (Return E_MISSING_ARG, touched s)
           | Some k \<Rightarrow> recv (sint w) a (sint k) (touched s))))"
  by (simp add: sys_recv_def argint_ok argptr_ok readyD touched_touched split: option.split)

section \<open>Memory safety\<close>

lemma arg_string_Some:
  assumes "arg_string p n s = Some (a, k)"
  shows "strlen (at (umem s p) a) = Some k" "in_uvm p a (Suc k) s"
proof -
  from assms have "a < sz (ptable s ! p)"
    and f: "fetchstr_scan (umem s p) a (unat (sz (ptable s ! p)) - unat a) = Some k"
    by (auto simp: arg_string_def not_le split: option.split_asm if_split_asm)
  with fetchstr_scan_Some [OF f] show "strlen (at (umem s p) a) = Some k" "in_uvm p a (Suc k) s"
    by (auto simp: in_uvm_def word_less_nat_alt)
qed

lemma arg_block_Some:
  assumes "arg_block p n k s = Some a" and "k < 2147483648" and z: "sz (ptable s ! p) \<le> KERNBASE"
  shows "in_uvm p a (nat k) s"
proof -
  from assms have k: "0 \<le> k" "a < sz (ptable s ! p)" "a + word_of_int k \<le> sz (ptable s ! p)"
    by (auto simp: arg_block_def not_le not_less split: option.split_asm if_split_asm)
  have u: "unat (word_of_int k :: u32) = nat k"
    using assms(2) k(1) by (simp add: unat_eq_nat_uint take_bit_int_eq_self uint_word_of_int_eq)
  have "unat a < 2147483648" using k(2) z by (simp add: word_less_nat_alt word_le_nat_alt)
  moreover have "nat k < 2147483648" using assms(2) by linarith
  ultimately have "unat (a + word_of_int k) = unat a + nat k"
    using u by (simp add: unat_plus_if')
  then show ?thesis using k(3) by (simp add: in_uvm_def word_le_nat_alt)
qed

lemma strncpy_reads_string: "strlen t = Some k \<Longrightarrow> strncpy_reads t n \<le> Suc k"
proof (rule ccontr)
  assume s: "strlen t = Some k" and "\<not> strncpy_reads t n \<le> Suc k"
  then have "Suc k < strncpy_reads t n" by simp
  then have "t k \<noteq> 0" by (auto simp: strncpy_reads_less_iff)
  with s show False by (simp add: strlen_Some_iff)
qed

lemma in_uvm_mono: "in_uvm p a n s \<Longrightarrow> m \<le> n \<Longrightarrow> in_uvm p a m s"
  by (auto simp: in_uvm_def)

lemma good_not_fault:
  "good_outcome p s x \<Longrightarrow> x \<noteq> Fault \<Longrightarrow> \<exists>r s'. x = Ok (r, s')"
  by (auto elim: good_outcome.cases)

lemma send_reads_not_fault:
  assumes r: "ready p s" and n: "\<not> strncpy_overflows n" "nat n \<le> SBUFFSIZE"
    and m: "in_uvm p a (strncpy_reads (at (umem s p) a) (nat n)) s"
  shows "send lport a n s \<noteq> Fault"
proof (cases "endpoint p lport s")
  case (Inl c)
  then show ?thesis using send_error [OF r] by simp
next
  case (Inr lr)
  then obtain l r' where e: "endpoint p lport s = Inr (l, r')" by (cases lr) simp
  show ?thesis
    using send_entry [OF r e, of a n] send_tail_ok [of s l n p a r'] readyD [OF r] n m endpoint_Inr(5) [OF e]
    by auto
qed

lemma send_not_fault:
  assumes "ready p s" "\<not> strncpy_overflows n" "nat n \<le> SBUFFSIZE"
    and str: "strlen (at (umem s p) a) = Some k" "in_uvm p a (Suc k) s"
  shows "send lport a n s \<noteq> Fault"
  using assms(1-3) in_uvm_mono [OF str(2) strncpy_reads_string [OF str(1)]] by (rule send_reads_not_fault)

lemma listen_not_fault:
  assumes r: "ready p s" and inv: "sock_inv s"
  shows "listen lport s \<noteq> Fault"
  using listen_invalid [of lport s] listen_full [OF r, of lport] listen_taken [OF r, of lport]
    listen_ok [OF r inv, of lport] by fastforce

lemma connect_not_fault:
  assumes r: "ready p s" and inv: "sock_inv s" and h: "strlen host = Some k"
  shows "connect rport host s \<noteq> Fault"
proof
  assume f: "connect rport host s = Fault"
  have v: "valid_port rport" using f connect_invalid [of rport host s] by auto
  have l: "local_host host" using f connect_other_host [OF v h, of s] by auto
  obtain q where q: "getsock rport s = Some q"
    using f connect_notfound [OF r inv v l] by (cases "getsock rport s") auto
  have "sstate (socks s ! q) = LISTENING" "countSock s \<noteq> int NSOCK"
    using f connect_wrong_state [OF r inv v l q] connect_full [OF r inv v l q] by auto
  moreover from this obtain j where "find_index (\<lambda>k. sstate k = CLOSED) (socks s) = Some j"
    using allocsock_full [OF inv] by auto
  ultimately show False using f connect_ok [OF r inv l q] by simp
qed

lemma sock_inv_touched: "sock_inv s \<Longrightarrow> sock_inv (touched s)"
  by (simp add: sock_inv_def)

lemma endpoint_touched: "endpoint p lport (touched s) = endpoint p lport s"
  by (auto simp: endpoint_def split: option.split)

section \<open>Properties\<close>

text \<open>The system call arguments \<open>127, 256, n\<close> on the stack of process 0, a string at 256.\<close>

definition demo_args :: "u32 \<Rightarrow> u32 \<Rightarrow> nat \<Rightarrow> u32 \<Rightarrow> u8" where
  "demo_args a n p = (if p = 0 then store32 (store32 (store32 (demo_mem 0) 0x3F04 127) 0x3F08 a) 0x3F0C n else demo_mem p)"

lemma demo_arg_words:
  "arg_word 0 0 (demo q demo_procs ks (demo_args a n)) = Some 127"
  "arg_word 0 1 (demo q demo_procs ks (demo_args a n)) = Some a"
  "arg_word 0 2 (demo q demo_procs ks (demo_args a n)) = Some n"
proof -
  let ?m = "store32 (store32 (demo_mem 0) 0x3F04 127) 0x3F08 a"
  have "load32 (store32 ?m 0x3F0C n) 0x3F04 = load32 (store32 (demo_mem 0) 0x3F04 127) 0x3F04"
    "load32 (store32 ?m 0x3F0C n) 0x3F08 = load32 ?m 0x3F08"
    by (rule load32_cong; simp add: store32_other unat_max)+
  then show "arg_word 0 0 (demo q demo_procs ks (demo_args a n)) = Some 127"
    "arg_word 0 1 (demo q demo_procs ks (demo_args a n)) = Some a"
    "arg_word 0 2 (demo q demo_procs ks (demo_args a n)) = Some n"
    by (simp_all add: arg_word_def demo_procs_def demo_proc_def demo_args_def load_store32)
qed

lemma demo_arg_string:
  "arg_string 0 1 (demo q demo_procs ks (demo_args 256 n)) = Some (256, 2)"
proof -
  let ?m = "demo_args 256 n 0"
  have "unat (sz (demo_procs ! 0)) - unat (256 :: u32) = Suc (Suc (Suc 16125))"
    by (simp add: demo_procs_def demo_proc_def)
  moreover have "?m 256 = 104" "?m 257 = 105" "?m 258 = 0"
    by (simp_all add: demo_args_def store32_other demo_mem_def)
  then have "fetchstr_scan ?m 256 (Suc (Suc (Suc j))) = Some 2" for j by simp
  ultimately have "fetchstr_scan ?m 256 (unat (sz (demo_procs ! 0)) - unat (256 :: u32)) = Some 2" by (simp only:)
  then show ?thesis
    using demo_arg_words(2) [of q ks 256 n] by (simp add: arg_string_def) (simp add: demo_procs_def demo_proc_def)
qed

text \<open>
  C21: What \<open>argptr\<close> and \<open>argstr\<close> accept lies in the memory of the calling process, for any
  contents of the user stack: a block of the requested size, or a string with its end marker.
\<close>

theorem args_inside:
  assumes "cpu_ok s" "curproc s = Some p" and "sz (ptable s ! p) \<le> KERNBASE" "k < 2147483648"
  shows "(argptr n k s = Ok (Some a, s') \<longrightarrow> in_uvm p a (nat k) s) \<and>
    (argstr n s = Ok (Some (a, len), s') \<longrightarrow> strlen (at (umem s p) a) = Some len \<and> in_uvm p a (Suc len) s)"
  using argptr_ok [OF assms(1,2), of n k] argstr_ok [OF assms(1,2), of n] arg_string_Some [of p n s a len]
    arg_block_Some [of p n k s a, OF _ assms(4,3)] by auto

theorem args_inside_witness:
  "in_uvm 0 256 (Suc 2) (demo (Some 0) demo_procs [] (demo_args 256 10))"
proof -
  let ?s = "demo (Some 0) demo_procs [] (demo_args 256 10)"
  have r: "ready 0 ?s" by (rule demo_ready) (simp add: demo_procs_def)
  have "argstr 1 ?s = Ok (Some (256, 2), touched ?s)"
    using argstr_ok [OF readyD(1,3) [OF r], of 1] demo_arg_string [of "Some 0" "[]" 10] by simp
  moreover have "sz (ptable ?s ! 0) \<le> KERNBASE" by (simp add: demo_procs_def demo_proc_def)
  ultimately show ?thesis
    using args_inside [OF readyD(1,3) [OF r], of 0 1 256 "touched ?s" 2] by simp
qed

text \<open>
  C20: Whatever a process has on its stack, \<open>listen\<close>, \<open>connect\<close>, \<open>send\<close> and \<open>disconnect\<close> entered
  as system calls return or go to sleep: they do not panic, do not wait for a lock and do not
  leave the arrays and the user memory they work on.
\<close>

theorem socket_syscalls_safe:
  assumes r: "ready p s" and inv: "sock_inv s"
  shows "(\<exists>x. sys_listen s = Ok x) \<and> (\<exists>x. sys_connect s = Ok x) \<and> (\<exists>x. sys_send s = Ok x) \<and>
    (\<exists>x. sys_disconnect s = Ok x)"
proof (intro conjI)
  note t = ready_touched [OF r] sock_inv_touched [OF inv]
  show "\<exists>x. sys_listen s = Ok x"
    using sys_listen_ok [OF r] good_not_fault [OF listen_good [OF t] listen_not_fault [OF t]]
    by (auto split: option.split)
  show "\<exists>x. sys_disconnect s = Ok x"
    using sys_disconnect_ok [OF r] disconnect_cases [OF t(1)] by (auto split: option.split)
  show "\<exists>x. sys_connect s = Ok x"
    using sys_connect_ok [OF r] arg_string_Some(1) [of p 1 s]
      good_not_fault [OF connect_good [OF t] connect_not_fault [OF t]]
    by (auto split: option.split)
  show "\<exists>x. sys_send s = Ok x"
  proof (cases "arg_word p 0 s")
    case (Some w)
    have "send (sint w) a (sint w) (touched s) \<noteq> Fault" if a: "arg_string p 1 s = Some (a, k)" for a k
    proof (cases "valid_port (sint w)")
      case True
      then have "nat (sint w) \<le> SBUFFSIZE" "\<not> strncpy_overflows (sint w)"
        by (auto simp: valid_port_def strncpy_overflows_def)
      then show ?thesis
        using send_not_fault [OF t(1), of "sint w" a k] arg_string_Some [OF a] by simp
    next
      case False
      then show ?thesis by (auto simp: send_def valid_port_def)
    qed
    then show ?thesis
      using Some sys_send_ok [OF r] good_not_fault [OF send_recv_good(1) [OF t]]
      by (auto split: option.split)
  qed (simp add: sys_send_ok [OF r])
qed

theorem socket_syscalls_safe_witness:
  "\<exists>x. sys_send (demo (Some 0) demo_procs (demo_pair False False) (demo_args 256 10)) = Ok x"
  using socket_syscalls_safe [OF demo_ready demo_pair_inv, of 0 False False "demo_args 256 10"]
  by (simp add: demo_procs_def)

text \<open>
  C22: The system call \<open>send\<close> uses the port number as the length of the message. With room at
  the peer, the first \<open>port\<close> bytes of the peer's buffer become the string, cut off or padded with
  zeros to \<open>port\<close> bytes, and the bytes after them are those of an earlier message. The third
  argument of the call has no influence.
\<close>

theorem sys_send_length_is_port:
  assumes r: "ready p s" and a: "arg_word p 0 s = Some w" "arg_string p 1 s = Some (a, k)"
    and e: "endpoint p (sint w) s = Inr (l, rm)" and empty: "\<not> hasfullbuffer (socks s ! rm)"
    and slot: "rm < length (socks s)"
  shows "\<exists>s'. sys_send s = Ok (Return 0, s') \<and>
    recvbuffer (socks s' ! rm) =
      strncpy_out (at (umem s p) a) (nat (sint w)) @ drop (nat (sint w)) (recvbuffer (socks s ! rm))"
proof -
  note en = endpoint_Inr [OF e]
  have n: "nat (sint w) \<le> SBUFFSIZE" "\<not> strncpy_overflows (sint w)"
    using en(1) by (auto simp: valid_port_def strncpy_overflows_def)
  have t: "endpoint p (sint w) (touched s) = Inr (l, rm)"
    using e by (simp add: endpoint_touched)
  have "in_uvm p a (strncpy_reads (at (umem s p) a) (nat (sint w))) s"
    using in_uvm_mono [OF arg_string_Some(2) [OF a(2)] strncpy_reads_string [OF arg_string_Some(1) [OF a(2)]]] .
  then have "send (sint w) a (sint w) (touched s) = Ok (Return 0, touched (delivered p l rm a (sint w) (touched s)))"
    using send_entry [OF ready_touched [OF r] t, of a "sint w"] send_tail_ok [of "touched s" l "sint w" p a rm]
      readyD [OF r] n empty en(5) by simp
  then show ?thesis
    using sys_send_ok [OF r] a slot by (simp add: delivered_def socks_upd_sock)
qed

theorem sys_send_length_is_port_witness:
  "\<exists>s'. sys_send (demo (Some 0) demo_procs (demo_pair False False) (demo_args 256 10)) = Ok (Return 0, s') \<and>
    take 3 (recvbuffer (socks s' ! 0)) = [104, 105, 0]"
proof -
  let ?s = "demo (Some 0) demo_procs (demo_pair False False) (demo_args 256 10)"
  have r: "ready 0 ?s" by (rule demo_ready) (simp add: demo_procs_def)
  have s: "strlen (at (umem ?s 0) 256) = Some 2" by (rule arg_string_Some(1) [OF demo_arg_string])
  have "at (umem ?s 0) 256 0 = 104" "at (umem ?s 0) 256 1 = 105"
    by (simp_all add: at_def demo_args_def store32_other demo_mem_def)
  then have o: "take 3 (strncpy_out (at (umem ?s 0) 256) 127) = [104, 105, 0]"
    using strncpy_out_strlen [OF s, of 127] by (simp add: numeral_eq_Suc)
  have "sint (127 :: u32) = 127" by simp
  moreover have "take 3 (xs @ ys) = take 3 xs" if "length xs = 127" for xs ys :: "u8 list"
    using that by simp
  ultimately show ?thesis
    using sys_send_length_is_port [OF r demo_arg_words(1) demo_arg_string, of 1 0] o
      demo_pair_ends(1) [of "Some 0" False False "demo_args 256 10"] demo_pair_fields(1) [of "Some 0" False "demo_args 256 10"]
    by (auto simp: demo_def)
qed

text \<open>
  C23: The system call \<open>recv\<close> validates four bytes at the buffer address and then lets
  \<open>recv\<close> write as many bytes as the caller asks for: when a message is there and the
  requested length reaches past the end of the process, the kernel writes outside it.
\<close>

theorem sys_recv_overrun:
  assumes r: "ready p s" and w: "arg_word p 0 s = Some w" and a: "arg_block p 1 4 s = Some a"
    and n: "arg_word p 2 s = Some n" "unat (sz (ptable s ! p)) < unat a + nat (sint n)" "nat (sint n) \<noteq> 0"
    and e: "endpoint p (sint w) s = Inr (l, rm)" and full: "hasfullbuffer (socks s ! l)"
  shows "sys_recv s = Fault"
proof -
  have t: "endpoint p (sint w) (touched s) = Inr (l, rm)" using e by (simp add: endpoint_touched)
  have "\<not> in_uvm p a (nat (sint n)) s" using n by (simp add: in_uvm_def)
  then have "recv (sint w) a (sint n) (touched s) = Fault"
    using recv_entry [OF ready_touched [OF r] t, of a "sint n"] full readyD(1) [OF r]
    by (simp add: recv_tail_def Let_def)
  then show ?thesis using sys_recv_ok [OF r] w a n(1) by simp
qed

theorem sys_recv_overrun_witness:
  "sys_recv (demo (Some 0) demo_procs (demo_pair False True) (demo_args 0x3FF0 64)) = Fault"
proof -
  let ?s = "demo (Some 0) demo_procs (demo_pair False True) (demo_args 0x3FF0 64)"
  have r: "ready 0 ?s" by (rule demo_ready) (simp add: demo_procs_def)
  have z: "sz (ptable ?s ! 0) = 0x4000" by (simp add: demo_procs_def demo_proc_def)
  have "arg_block 0 1 4 ?s = Some 0x3FF0"
    using demo_arg_words(2) [of "Some 0" "demo_pair False True" "0x3FF0" 64] z by (simp add: arg_block_def)
  moreover have "hasfullbuffer (socks ?s ! 1)" by (simp add: demo_pair_def)
  ultimately show ?thesis
    using sys_recv_overrun [OF r demo_arg_words(1) _ demo_arg_words(3), of "0x3FF0" 1 0] z
      demo_pair_ends(1) [of "Some 0" False True "demo_args 0x3FF0 64"] by simp
qed

end
