(* ===== verification/Trap.thy ===== *)
theory Trap
  imports Sysfile Syssock
begin

text \<open>
  From the trap to the system call and back: \<open>sysproc.c\<close>, the dispatch of \<open>syscall.c\<close>, and \<open>trap\<close>
  of \<open>trap.c\<close>. A call that sleeps ends the step with what it needs to go on, and \<open>syscall_resume\<close>
  is the rest of it; \<open>exit\<close> does not come back.
\<close>

section \<open>Process system calls\<close>

text \<open>Where a process that sleeps in a system call continues, and how a system call ends.\<close>

datatype kcont = SockC sock_cont | PipeC pipe_cont | WaitC bool | TicksC bool u32 u32

datatype sysres = Ret int | Asleep kcont | Gone

definition sys_fork :: "('a pl_scheme, int) kcode" where
  "sys_fork = fork"

definition sys_kill :: "('a pl_scheme, int) kcode" where
  "sys_kill = bindk (argint 0) (\<lambda>r. case r of None \<Rightarrow> retk (-1) | Some w \<Rightarrow> kill (sint w))"

definition sys_getpid :: "('a pl_scheme, int) kcode" where
  "sys_getpid = bindk mycur (\<lambda>p. getk (\<lambda>s. pid (ptable s ! p)))"

definition sys_sbrk :: "('a pl_scheme, int) kcode" where
  "sys_sbrk =
     bindk (argint 0) (\<lambda>r.
       case r of
         None \<Rightarrow> retk (-1)
       | Some n \<Rightarrow>
           bindk mycur (\<lambda>p.
           bindk (getk (\<lambda>s. sz (ptable s ! p))) (\<lambda>addr.
           bindk (growproc (sint n)) (\<lambda>v. retk (if v < 0 then -1 else sint addr)))))"

text \<open>
  The loop of \<open>sys_sleep\<close>, with \<open>tickslock\<close> held. The comparison is unsigned: \<open>ticks - ticks0\<close> is.
\<close>

definition sys_sleep_tail :: "nat \<Rightarrow> u32 \<Rightarrow> u32 \<Rightarrow> ('a pl_scheme, (int, bool \<times> u32 \<times> u32) blocking) kcode" where
  "sys_sleep_tail p ticks0 n =
     bindk (getk (\<lambda>s. ticks s - ticks0 < n)) (\<lambda>early.
       if early
       then
         bindk mykilled (\<lambda>kl.
           if kl then thenk (dok (release TicksLock)) (retk (Return (-1)))
           else bindk (sleep TicksChan (Some TicksLock)) (\<lambda>ie. retk (Sleeps (ie, ticks0, n))))
       else thenk (dok (release TicksLock)) (retk (Return 0)))"

definition sys_sleep :: "('a pl_scheme, (int, bool \<times> u32 \<times> u32) blocking) kcode" where
  "sys_sleep =
     bindk (argint 0) (\<lambda>r.
       case r of
         None \<Rightarrow> retk (Return (-1))
       | Some n \<Rightarrow>
           thenk (dok (acquire TicksLock))
           (bindk (getk ticks) (\<lambda>ticks0.
            bindk mycur (\<lambda>p. sys_sleep_tail p ticks0 n))))"

definition sys_uptime :: "('a pl_scheme, int) kcode" where
  "sys_uptime =
     thenk (dok (acquire TicksLock))
     (bindk (getk ticks) (\<lambda>xticks.
      thenk (dok (release TicksLock))
      (retk (sint xticks))))"

section \<open>Dispatch\<close>

definition plain :: "('a pl_scheme, int) kcode \<Rightarrow> ('a pl_scheme, sysres) kcode" where
  "plain m = bindk m (\<lambda>v. retk (Ret v))"

definition waiting :: "('k \<Rightarrow> kcont) \<Rightarrow> ('a pl_scheme, (int, 'k) blocking) kcode \<Rightarrow> ('a pl_scheme, sysres) kcode" where
  "waiting c m = bindk m (\<lambda>r. retk (case r of Return v \<Rightarrow> Ret v | Sleeps k \<Rightarrow> Asleep (c k)))"

text \<open>The table \<open>syscalls\<close>, by the numbers of \<open>syscall.h\<close>.\<close>

definition syscalls :: "int \<Rightarrow> ('a pl_scheme, sysres) kcode option" where
  "syscalls num =
     (if num = 1 then Some (plain sys_fork)
      else if num = 2 then Some (thenk exit (retk Gone))
      else if num = 3 then Some (waiting WaitC wait)
      else if num = 4 then Some (plain sys_pipe)
      else if num = 5 then Some (waiting PipeC sys_read)
      else if num = 6 then Some (plain sys_kill)
      else if num = 7 then Some (plain sys_exec)
      else if num = 8 then Some (plain sys_fstat)
      else if num = 9 then Some (plain sys_chdir)
      else if num = 10 then Some (plain sys_dup)
      else if num = 11 then Some (plain sys_getpid)
      else if num = 12 then Some (plain sys_sbrk)
      else if num = 13 then Some (waiting (\<lambda>(ie, t, n). TicksC ie t n) sys_sleep)
      else if num = 14 then Some (plain sys_uptime)
      else if num = 15 then Some (plain sys_open)
      else if num = 16 then Some (waiting PipeC sys_write)
      else if num = 17 then Some (plain sys_mknod)
      else if num = 18 then Some (plain sys_unlink)
      else if num = 19 then Some (plain sys_link)
      else if num = 20 then Some (plain sys_mkdir)
      else if num = 21 then Some (plain sys_close)
      else if num = 22 then Some (waiting SockC sys_listen)
      else if num = 23 then Some (waiting SockC sys_connect)
      else if num = 24 then Some (waiting SockC sys_send)
      else if num = 25 then Some (waiting SockC sys_recv)
      else if num = 26 then Some (waiting SockC sys_disconnect)
      else None)"

text \<open>The result of a system call goes to \<open>%eax\<close>.\<close>

definition set_eax :: "nat \<Rightarrow> int \<Rightarrow> 'a pt_scheme \<Rightarrow> 'a pt_scheme" where
  "set_eax p v = upd_proc p (\<lambda>q. q\<lparr>tf := (tf q)\<lparr>tf_eax := word_of_int v\<rparr>\<rparr>)"

definition syscall_end :: "nat \<Rightarrow> sysres \<Rightarrow> ('a pl_scheme, sysres) kcode" where
  "syscall_end p r =
     thenk (modk (case r of Ret v \<Rightarrow> set_eax p v | Asleep _ \<Rightarrow> id | Gone \<Rightarrow> id)) (retk r)"

definition syscall :: "('a pl_scheme, sysres) kcode" where
  "syscall =
     bindk mycur (\<lambda>p.
     bindk (getk (\<lambda>s. ptable s ! p)) (\<lambda>q.
       let num = sint (tf_eax (tf q)) in
       case syscalls num of
         Some f \<Rightarrow> bindk f (syscall_end p)
       | None \<Rightarrow>
           thenk (cprintf (''%d %s: unknown sys call %d'' @ [CHR 0x0A])
                    [WordArg (word_of_int (pid q)), StrArg (Some (cstr (pname q))), WordArg (word_of_int num)])
           (syscall_end p (Ret (-1)))))"

text \<open>The rest of a system call of process \<open>p\<close> after its \<open>sleep\<close>.\<close>

fun syscall_continue :: "nat \<Rightarrow> kcont \<Rightarrow> ('a pl_scheme, sysres) kcode" where
  "syscall_continue p (SockC k) = waiting SockC (sock_resume p k)"
| "syscall_continue p (PipeC k) = waiting PipeC (pipe_resume p k)"
| "syscall_continue p (WaitC ie) = waiting WaitC (wait_resume p ie)"
| "syscall_continue p (TicksC ie t n) =
     waiting (\<lambda>(ie, t, n). TicksC ie t n) (thenk (dok (sleep_return ie p TicksLock)) (sys_sleep_tail p t n))"

section \<open>Traps\<close>

abbreviation T_SYSCALL :: u32 where "T_SYSCALL \<equiv> 64"
abbreviation T_IRQ0 :: u32 where "T_IRQ0 \<equiv> 32"

text \<open>How a trap ends: back to the interrupted code, at a switch to the scheduler, or never.\<close>

datatype trapres = Back | Stopped kcont | Yielded bool | Exited

text \<open>\<open>if(myproc()->killed) exit();\<close> at the end of a system call.\<close>

definition exit_if_killed :: "nat \<Rightarrow> ('a pl_scheme, trapres) kcode" where
  "exit_if_killed p =
     bindk (getk (\<lambda>s. killed (ptable s ! p))) (\<lambda>kl.
       if kl then thenk exit (retk Exited) else retk Back)"

definition trap_syscall_end :: "nat \<Rightarrow> sysres \<Rightarrow> ('a pl_scheme, trapres) kcode" where
  "trap_syscall_end p r =
     (case r of
        Ret _ \<Rightarrow> exit_if_killed p
      | Asleep k \<Rightarrow> retk (Stopped k)
      | Gone \<Rightarrow> retk Exited)"

definition trap_syscall :: "trapframe \<Rightarrow> ('a pl_scheme, trapres) kcode" where
  "trap_syscall frame =
     bindk mycur (\<lambda>p.
     bindk (getk (\<lambda>s. killed (ptable s ! p))) (\<lambda>kl.
       if kl then thenk exit (retk Exited)
       else
         thenk (modk (upd_proc p (\<lambda>q. q\<lparr>tf := frame\<rparr>)))
         (bindk syscall (trap_syscall_end p))))"

text \<open>A system call that slept, from its wakeup on.\<close>

definition syscall_resume :: "nat \<Rightarrow> kcont \<Rightarrow> ('a pl_scheme, trapres) kcode" where
  "syscall_resume p k =
     bindk (bindk (syscall_continue p k) (syscall_end p)) (trap_syscall_end p)"

text \<open>\<open>cpuid()\<close>.\<close>

definition mycpuid :: "('a pl_scheme, nat) kcode" where
  "mycpuid s = andthen (cpuid s) (\<lambda>c. Ok (c, s))"

definition timer_tick :: "('a pl_scheme, unit) kcode" where
  "timer_tick =
     bindk mycpuid (\<lambda>c.
       if c = 0
       then
         thenk (dok (acquire TicksLock))
         (thenk (modk (\<lambda>s. s\<lparr>ticks := ticks s + 1\<rparr>))
         (thenk (dok (wakeup TicksChan))
         (dok (release TicksLock))))
       else retk ())"

text \<open>
  The device interrupts and exceptions; \<open>cr2\<close> is the faulting address. The message to the interrupt controller, \<open>lapiceoi\<close>, is left out.
\<close>

definition user_mode :: "trapframe \<Rightarrow> bool" where
  "user_mode frame \<longleftrightarrow> and (tf_cs frame) 3 = 3"

definition trap_default :: "trapframe \<Rightarrow> u32 \<Rightarrow> ('a pl_scheme, unit) kcode" where
  "trap_default frame cr2 =
     bindk myproc (\<lambda>r.
     bindk mycpuid (\<lambda>c.
       case r of
         None \<Rightarrow> panick ''trap''
       | Some p \<Rightarrow>
           if and (tf_cs frame) 3 = 0 then panick ''trap''
           else
             bindk (getk (\<lambda>s. ptable s ! p)) (\<lambda>q.
             thenk (cprintf (''pid %d %s: trap %d err %d on cpu %d eip 0x%x addr 0x%x--kill proc'' @ [CHR 0x0A])
                      [WordArg (word_of_int (pid q)), StrArg (Some (cstr (pname q))), WordArg (tf_trapno frame),
                       WordArg (tf_err frame), WordArg (word_of_nat c), WordArg (tf_eip frame), WordArg cr2])
             (modk (upd_proc p (\<lambda>q. q\<lparr>killed := True\<rparr>))))))"

definition trap_device :: "trapframe \<Rightarrow> u32 \<Rightarrow> ('a pl_scheme, unit) kcode" where
  "trap_device frame cr2 =
     (let no = tf_trapno frame in
      if no = T_IRQ0 then timer_tick
      else if no = T_IRQ0 + 14 then ideintr
      else if no = T_IRQ0 + 15 then retk ()
      else if no = T_IRQ0 + 1 then kbdintr
      else if no = T_IRQ0 + 4 then uartintr
      else if no = T_IRQ0 + 7 \<or> no = T_IRQ0 + 31
      then
        bindk mycpuid (\<lambda>c.
        cprintf (''cpu%d: spurious interrupt at %x:%x'' @ [CHR 0x0A])
          [WordArg (word_of_nat c), WordArg (ucast (tf_cs frame)), WordArg (tf_eip frame)])
      else trap_default frame cr2)"

text \<open>The checks after an interrupt: a killed process in user space exits, a tick ends its turn.\<close>

definition trap_exit_check :: "trapframe \<Rightarrow> ('a pl_scheme, trapres) kcode" where
  "trap_exit_check frame =
     bindk myproc (\<lambda>r.
       case r of
         None \<Rightarrow> retk Back
       | Some p \<Rightarrow>
           bindk (getk (\<lambda>s. killed (ptable s ! p))) (\<lambda>kl.
             if kl \<and> user_mode frame then thenk exit (retk Exited) else retk Back))"

definition trap_tail :: "trapframe \<Rightarrow> ('a pl_scheme, trapres) kcode" where
  "trap_tail frame =
     bindk (trap_exit_check frame) (\<lambda>e.
       if e \<noteq> Back then retk e
       else
         bindk myproc (\<lambda>r.
         bindk (getk (\<lambda>s. case r of None \<Rightarrow> False | Some p \<Rightarrow> pstate (ptable s ! p) = RUNNING)) (\<lambda>run.
           if run \<and> tf_trapno frame = T_IRQ0
           then bindk yield (\<lambda>ie. retk (Yielded ie))
           else trap_exit_check frame)))"

definition trap :: "trapframe \<Rightarrow> u32 \<Rightarrow> ('a pl_scheme, trapres) kcode" where
  "trap frame cr2 =
     (if tf_trapno frame = T_SYSCALL then trap_syscall frame
      else thenk (trap_device frame cr2) (trap_tail frame))"

text \<open>The rest of \<open>trap\<close> after a process that yielded runs again.\<close>

definition trap_resume :: "trapframe \<Rightarrow> bool \<Rightarrow> ('a pl_scheme, trapres) kcode" where
  "trap_resume frame ie = thenk (dok (yield_return ie)) (trap_exit_check frame)"

definition tvinit :: "'a pl_scheme \<Rightarrow> 'a pl_scheme" where
  "tvinit s = initlock TicksLock s"

end
