(* ===== verification/Kernel_State.thy ===== *)
theory Kernel_State
  imports Trap Sock_Props
begin

text \<open>
  A concrete kernel state: three processes, the first of them running, all devices idle, nothing
  cached and no file open. The examples start from it.
\<close>

definition idle_proc :: "int \<Rightarrow> procstate \<Rightarrow> proc" where
  "idle_proc i st = (demo_proc st)\<lparr>pid := i\<rparr>"

definition no_buf :: buf where
  "no_buf = \<lparr>b_valid = False, b_dirty = False, b_dev = 0, b_blockno = 0, b_refcnt = 0, b_data = replicate BSIZE 0\<rparr>"

definition no_inode :: inode where
  "no_inode = \<lparr>i_dev = 0, i_inum = 0, i_ref = 0, i_valid = False, i_type = 0, i_major = 0, i_minor = 0, i_nlink = 0,
     i_size = 0, i_addrs = replicate 13 0\<rparr>"

definition no_file :: kfile where
  "no_file = \<lparr>f_type = FD_NONE, f_ref = 0, f_readable = False, f_writable = False, f_pipe = 0, f_ip = 0, f_off = 0\<rparr>"

definition idle_cons :: cons_state where
  "idle_cons = \<lparr>c_locking = True, c_panicked = False,
     c_input = \<lparr>in_buf = replicate 128 0, in_r = 0, in_w = 0, in_e = 0\<rparr>, crt = (\<lambda>_. 0), crt_pos = 0, uart = True,
     uart_out = [], uart_in = [], kbd_shift = 0, kbd_in = []\<rparr>"

definition kernel0 :: pl where
  "kernel0 = \<lparr>cpus = [\<lparr>apicid = 0, ncli = 0, intena = True, cproc = Some 0\<rparr>], hwid = 0,
     intr = (\<lambda>_. True), locks = (\<lambda>_. \<lparr>locked = False, lcpu = None\<rparr>),
     ptable = [idle_proc 1 RUNNING, idle_proc 2 RUNNABLE, idle_proc 3 RUNNABLE], nextpid = 4, initproc = Some 2,
     cr3 = 0, kpgdir = 0x80000000, ticks = 0, umem = (\<lambda>_ _. 0),
     socks = replicate NSOCK demo_closed, countSock = 0, nextsid = 0,
     kmem = demo_kmem, sleeplks = (\<lambda>_. \<lparr>slocked = False, spid = 0\<rparr>),
     bcache = \<lparr>bufs = replicate NBUF no_buf, lru = [0..<NBUF]\<rparr>,
     ide = \<lparr>idequeue = [], havedisk1 = True, ide_cmd = None, ide_error = False, medium0 = (\<lambda>_. replicate BSIZE 0),
            written = []\<rparr>,
     log = \<lparr>l_start = 2, l_size = 30, l_outstanding = 0, l_committing = False, l_dev = 1,
            l_lh = \<lparr>lh_n = 0, lh_block = replicate 30 0\<rparr>\<rparr>,
     fs = \<lparr>fsb = \<lparr>sb_size = 1000, sb_nblocks = 941, sb_ninodes = 200, sb_nlog = 30, sb_logstart = 2, sb_inodestart = 32,
                  sb_bmapstart = 58\<rparr>, inodes = replicate 50 no_inode, devsw = (\<lambda>_. None)\<rparr>,
     cons = idle_cons, pipes = (\<lambda>_. new_pipe), ftable = replicate NFILE no_file, forkret_first = False,
     forkret_addr = 0x80103000\<rparr>"

lemma kernel0_settled [simp]: "settled kernel0"
  by (simp add: settled_def kernel0_def cpu_ok_def cur_def lock_free_def readeflags_def)

lemma kernel0_fields [simp]:
  "curproc kernel0 = Some 0" "length (ptable kernel0) = 3"
  "ptable kernel0 ! 0 = idle_proc 1 RUNNING" "ptable kernel0 ! Suc 0 = idle_proc 2 RUNNABLE"
  "umem kernel0 = (\<lambda>_ _. 0)" "pipes kernel0 p = new_pipe" "readeflags kernel0"
  by (simp_all add: kernel0_def curproc_def cur_def readeflags_def)

lemma kernel0_running [simp]: "running 0 kernel0"
  by (simp add: running_def)

lemma idle_proc_fields [simp]:
  "pid (idle_proc i st) = i" "pstate (idle_proc i st) = st" "sz (idle_proc i st) = 0x4000"
  "killed (idle_proc i st) = False" "parent (idle_proc i st) = None" "chan (idle_proc i st) = None"
  by (simp_all add: idle_proc_def demo_proc_def)

end
