(* ===== verification/Pipe_Props.thy ===== *)
theory Pipe_Props
  imports Kernel_State Sock_Transfer
begin

text \<open>
  The ring buffer of a pipe is a queue of bytes: the laws of such a queue are a locale, which
  the ring satisfies across the wrap-around of its two counters. From them: bytes come out in
  the order they went in, and the exact effect of \<open>pipewrite\<close> and \<open>piperead\<close> on every branch.
\<close>

section \<open>Byte queues\<close>

locale byte_queue =
  fixes qok :: "'q \<Rightarrow> bool" and contents :: "'q \<Rightarrow> 'b list" and full :: "'q \<Rightarrow> bool"
    and put :: "'b \<Rightarrow> 'q \<Rightarrow> 'q" and front :: "'q \<Rightarrow> 'b" and pop :: "'q \<Rightarrow> 'q" and capacity :: nat
  assumes full_iff: "qok q \<Longrightarrow> full q \<longleftrightarrow> length (contents q) = capacity"
    and bounded: "qok q \<Longrightarrow> length (contents q) \<le> capacity"
    and put_ok: "qok q \<Longrightarrow> \<not> full q \<Longrightarrow> qok (put b q)"
    and put_contents: "qok q \<Longrightarrow> \<not> full q \<Longrightarrow> contents (put b q) = contents q @ [b]"
    and front_hd: "qok q \<Longrightarrow> contents q \<noteq> [] \<Longrightarrow> front q = hd (contents q)"
    and pop_ok: "qok q \<Longrightarrow> contents q \<noteq> [] \<Longrightarrow> qok (pop q)"
    and pop_contents: "qok q \<Longrightarrow> contents q \<noteq> [] \<Longrightarrow> contents (pop q) = tl (contents q)"
begin

lemma put_many:
  "qok q \<Longrightarrow> length (contents q) + length bs \<le> capacity \<Longrightarrow>
    qok (fold put bs q) \<and> contents (fold put bs q) = contents q @ bs"
proof (induction bs arbitrary: q)
  case Nil
  then show ?case by simp
next
  case (Cons b bs)
  then have "\<not> full q" by (simp add: full_iff)
  with Cons show ?case by (simp add: put_ok put_contents)
qed

lemma pop_many:
  "qok q \<Longrightarrow> n \<le> length (contents q) \<Longrightarrow>
    qok ((pop ^^ n) q) \<and> contents ((pop ^^ n) q) = drop n (contents q)"
proof (induction n)
  case 0
  then show ?case by simp
next
  case (Suc n)
  then have "qok ((pop ^^ n) q)" "contents ((pop ^^ n) q) = drop n (contents q)" "drop n (contents q) \<noteq> []"
    by auto
  then show ?case by (simp add: pop_ok pop_contents drop_Suc tl_drop)
qed

lemma front_after:
  "qok q \<Longrightarrow> n < length (contents q) \<Longrightarrow> front ((pop ^^ n) q) = contents q ! n"
  using pop_many [of q n] by (simp add: front_hd hd_drop_conv_nth)

lemma fifo_put: "qok q \<Longrightarrow> \<not> full q \<Longrightarrow> got @ contents q = sent \<Longrightarrow> got @ contents (put b q) = sent @ [b]"
  by (simp add: put_contents)

lemma fifo_get: "qok q \<Longrightarrow> contents q \<noteq> [] \<Longrightarrow> got @ contents q = sent \<Longrightarrow> (got @ [front q]) @ contents (pop q) = sent"
  by (simp add: front_hd pop_contents)

end

section \<open>The ring of a pipe\<close>

definition pipe_len :: "pipe \<Rightarrow> nat" where
  "pipe_len k = unat (p_nwrite k - p_nread k)"

definition pipe_ok :: "pipe \<Rightarrow> bool" where
  "pipe_ok k \<longleftrightarrow> length (p_data k) = PIPESIZE \<and> pipe_len k \<le> PIPESIZE"

definition slot :: "u32 \<Rightarrow> nat \<Rightarrow> nat" where
  "slot r i = unat ((r + word_of_nat i) mod word_of_nat PIPESIZE)"

definition pipe_content :: "pipe \<Rightarrow> u8 list" where
  "pipe_content k = map (\<lambda>i. p_data k ! slot (p_nread k) i) [0..<pipe_len k]"

lemma slot_eq: "slot r i = (unat r + i) mod PIPESIZE"
proof -
  have "unat (r + word_of_nat i) mod PIPESIZE = (unat r + i) mod PIPESIZE"
    by (simp add: unat_word_ariths unat_of_nat mod_mod_cancel mod_add_right_eq)
  then show ?thesis by (simp add: slot_def unat_mod)
qed

lemma slot_less: "slot r i < PIPESIZE"
  by (simp add: slot_eq)

lemma slot_inj:
  assumes "i < PIPESIZE" "j < PIPESIZE" "slot r i = slot r j"
  shows "i = j"
proof -
  from assms(3) obtain u v where "unat r + i + PIPESIZE * u = unat r + j + PIPESIZE * v"
    unfolding slot_eq nat_mod_eq_iff by blast
  then have "(i + PIPESIZE * u) mod PIPESIZE = (j + PIPESIZE * v) mod PIPESIZE" by simp
  with assms(1,2) show ?thesis by simp
qed

lemma pipe_nwrite: "p_nwrite k = p_nread k + word_of_nat (pipe_len k)"
  by (simp add: pipe_len_def)

lemma unat_small: "a \<le> PIPESIZE \<Longrightarrow> unat (word_of_nat a :: u32) = a"
  by (simp add: unat_of_nat)

lemma word_of_nat_inj_small: "a \<le> PIPESIZE \<Longrightarrow> b \<le> PIPESIZE \<Longrightarrow> (word_of_nat a :: u32) = word_of_nat b \<longleftrightarrow> a = b"
  by (metis unat_small)

lemma pipe_full_iff: "pipe_ok k \<Longrightarrow> pipe_full k \<longleftrightarrow> pipe_len k = PIPESIZE"
  using word_of_nat_inj_small [of "pipe_len k" PIPESIZE]
  by (simp only: pipe_full_def pipe_nwrite add_left_cancel pipe_ok_def)

lemma pipe_empty_iff: "p_nread k = p_nwrite k \<longleftrightarrow> pipe_content k = []"
  by (auto simp: pipe_content_def pipe_len_def unat_eq_zero)

lemma length_pipe_content [simp]: "length (pipe_content k) = pipe_len k"
  by (simp add: pipe_content_def)

lemma pipe_len_put:
  assumes "pipe_ok k" "\<not> pipe_full k"
  shows "pipe_len (pipe_put b k) = Suc (pipe_len k)"
proof -
  from assms have l: "pipe_len k < PIPESIZE" using pipe_full_iff [OF assms(1)] by (simp add: pipe_ok_def)
  have "p_nwrite (pipe_put b k) - p_nread (pipe_put b k) = word_of_nat (Suc (pipe_len k))"
    by (simp add: pipe_put_def pipe_len_def)
  then show ?thesis using l unat_small [of "Suc (pipe_len k)"] by (simp add: pipe_len_def [of "pipe_put b k"] del: of_nat_Suc)
qed

lemma pipe_put_ok: "pipe_ok k \<Longrightarrow> \<not> pipe_full k \<Longrightarrow> pipe_ok (pipe_put b k)"
  using pipe_len_put [of k b] pipe_full_iff [of k] by (simp add: pipe_ok_def) (simp add: pipe_put_def)

lemma pipe_put_content:
  assumes "pipe_ok k" "\<not> pipe_full k"
  shows "pipe_content (pipe_put b k) = pipe_content k @ [b]"
proof -
  have l: "pipe_len k < PIPESIZE" "length (p_data k) = PIPESIZE"
    using assms pipe_full_iff [OF assms(1)] by (simp_all add: pipe_ok_def)
  have w: "unat (p_nwrite k mod word_of_nat PIPESIZE) = slot (p_nread k) (pipe_len k)"
    by (simp only: slot_def pipe_nwrite [symmetric])
  have "(p_data k)[slot (p_nread k) (pipe_len k) := b] ! slot (p_nread k) i =
      (if i = pipe_len k then b else p_data k ! slot (p_nread k) i)" if "i \<le> pipe_len k" for i
  proof (cases "i = pipe_len k")
    case False
    with that l have "slot (p_nread k) (pipe_len k) \<noteq> slot (p_nread k) i"
      using slot_inj [of i "pipe_len k" "p_nread k"] by auto
    with False show ?thesis by simp
  qed (use l slot_less [of "p_nread k" i] in simp)
  then have "map (\<lambda>i. (p_data k)[slot (p_nread k) (pipe_len k) := b] ! slot (p_nread k) i) [0..<Suc (pipe_len k)] =
      pipe_content k @ [b]"
    by (simp add: pipe_content_def)
  moreover have "p_data (pipe_put b k) = (p_data k)[slot (p_nread k) (pipe_len k) := b]" "p_nread (pipe_put b k) = p_nread k"
    unfolding pipe_put_def w by simp_all
  ultimately show ?thesis by (simp only: pipe_content_def [of "pipe_put b k"] pipe_len_put [OF assms])
qed

lemma pipe_next_len:
  assumes "pipe_content k \<noteq> []"
  shows "pipe_len k = Suc (pipe_len (pipe_next k))"
proof -
  let ?w = "p_nwrite k - p_nread k"
  from assms have ne: "?w \<noteq> 0" using pipe_empty_iff [of k] by auto
  have "p_nwrite (pipe_next k) - p_nread (pipe_next k) = ?w - 1"
    by (simp add: pipe_next_def diff_diff_eq)
  with unat_minus_one [OF ne] ne show ?thesis by (simp add: pipe_len_def unat_gt_0)
qed

lemma slot_Suc: "slot r (Suc i) = slot (r + 1) i"
  by (simp add: slot_def add.assoc)

lemma pipe_next_content:
  assumes "pipe_content k \<noteq> []"
  shows "pipe_content k = pipe_get k # pipe_content (pipe_next k)"
proof -
  have "[0..<pipe_len k] = 0 # map Suc [0..<pipe_len (pipe_next k)]"
    unfolding pipe_next_len [OF assms] map_Suc_upt by (rule upt_conv_Cons) simp
  then have "pipe_content k = p_data k ! slot (p_nread k) 0 # map (\<lambda>i. p_data k ! slot (p_nread k) (Suc i)) [0..<pipe_len (pipe_next k)]"
    by (simp only: pipe_content_def list.map map_map comp_def)
  moreover have "p_data k ! slot (p_nread k) 0 = pipe_get k" by (simp add: pipe_get_def slot_def)
  moreover have "map (\<lambda>i. p_data k ! slot (p_nread k) (Suc i)) [0..<pipe_len (pipe_next k)] = pipe_content (pipe_next k)"
    by (simp add: pipe_content_def slot_Suc) (simp add: pipe_next_def)
  ultimately show ?thesis by (simp only:)
qed

lemma pipe_next_ok:
  assumes "pipe_ok k" "pipe_content k \<noteq> []"
  shows "pipe_ok (pipe_next k)"
proof -
  have "p_data (pipe_next k) = p_data k" by (simp add: pipe_next_def)
  with assms(1) pipe_next_len [OF assms(2)] show ?thesis by (simp add: pipe_ok_def)
qed

interpretation ring: byte_queue pipe_ok pipe_content pipe_full pipe_put pipe_get pipe_next PIPESIZE
proof
  fix k :: pipe and b
  assume k: "pipe_ok k"
  show "pipe_full k \<longleftrightarrow> length (pipe_content k) = PIPESIZE" using pipe_full_iff [OF k] by simp
  show "length (pipe_content k) \<le> PIPESIZE" using k by (simp add: pipe_ok_def)
  show "\<not> pipe_full k \<Longrightarrow> pipe_ok (pipe_put b k)" using k by (rule pipe_put_ok)
  show "\<not> pipe_full k \<Longrightarrow> pipe_content (pipe_put b k) = pipe_content k @ [b]" using k by (rule pipe_put_content)
  show "pipe_content k \<noteq> [] \<Longrightarrow> pipe_get k = hd (pipe_content k)" using arg_cong [OF pipe_next_content, of k hd] by simp
  show "pipe_content k \<noteq> [] \<Longrightarrow> pipe_content (pipe_next k) = tl (pipe_content k)" using arg_cong [OF pipe_next_content, of k tl] by simp
  show "pipe_content k \<noteq> [] \<Longrightarrow> pipe_ok (pipe_next k)"
    by (rule pipe_next_ok [OF k])
qed

section \<open>The system calls\<close>

text \<open>What a section of the pipe code sees of the machine below it.\<close>

lemma mach_pipes [simp]:
  "cur (pipes_update f s) = cur s"
  "cpu_ok (pipes_update f s) = cpu_ok s"
  "readeflags (pipes_update f s) = readeflags s"
  "lock_free l (pipes_update f s) = lock_free l s"
  "held l (pipes_update f s) = held l s"
  "in_section (pipes_update f s) = in_section s"
  "curproc (pipes_update f s) = curproc s"
  "saved_intena (pipes_update f s) = saved_intena s"
  "settled (pipes_update f s) = settled s"
  "pipes_update f (acquired l s) = acquired l (pipes_update f s)"
  "pipes_update f (released l s) = released l (pipes_update f s)"
  "pipes_update f (touched s) = touched (pipes_update f s)"
  "pipes (acquired l s) = pipes s"
  "pipes (released l s) = pipes s"
  "pipes (touched s) = pipes s"
  by (simp_all add: lock_layer_defs settled_def)

lemma upd_pipe_simps [simp]:
  "settled (upd_pipe p f s) = settled s" "curproc (upd_pipe p f s) = curproc s"
  "readeflags (upd_pipe p f s) = readeflags s" "ptable (upd_pipe p f s) = ptable s" "umem (upd_pipe p f s) = umem s"
  "upd_pipe p f (acquired l s) = acquired l (upd_pipe p f s)"
  "upd_pipe p g (upd_pipe p f s) = upd_pipe p (g \<circ> f) s"
  "pipes (upd_pipe p f s) p' = (if p' = p then f (pipes s p) else pipes s p')"
  "in_uvm q a n (upd_pipe p f s) = in_uvm q a n s"
  "umem_update u (upd_pipe p f s) = upd_pipe p f (umem_update u s)"
  "upd_pipe p f (wakeup1 c s) = wakeup1 c (upd_pipe p f s)"
  by (simp_all add: upd_pipe_def in_uvm_def wakeup1_def)

lemma pipes_wakeup1 [simp]: "pipes (wakeup1 c s) = pipes s" "umem (wakeup1 c s) = umem s"
  by (simp_all add: wakeup1_def)

lemma readopen_puts: "p_readopen (fold pipe_put bs k) = p_readopen k"
  by (induction bs arbitrary: k) (simp_all add: pipe_put_def)

lemma mykilled_section:
  "settled s \<Longrightarrow> curproc s = Some q \<Longrightarrow> mykilled (acquired l s) = Ok (killed (ptable s ! q), acquired l s)"
  by (simp add: mykilled_def settled_myproc_section)

lemma read_bytes_Suc: "read_bytes m a (Suc n) = m a # read_bytes m (a + 1) n"
  by (simp add: read_bytes_def at_def upt_conv_Cons map_Suc_upt [symmetric] comp_def add.assoc
      del: upt_Suc map_Suc_upt)

lemma in_uvm_first: "in_uvm q a (Suc n) s \<Longrightarrow> in_uvm q a 1 s \<and> in_uvm q (a + 1) n s"
proof -
  assume "in_uvm q a (Suc n) s"
  then have "unat a + Suc n \<le> unat (sz (ptable s ! q))" by (simp add: in_uvm_def)
  moreover from this have "unat (a + 1) = unat a + 1"
    using unat_lt2p_u32 [of "sz (ptable s ! q)"] by (simp add: unat_word_ariths)
  ultimately show ?thesis by (simp add: in_uvm_def)
qed

text \<open>As long as there is room the loop of \<open>pipewrite\<close> appends.\<close>

lemma pipewrite_loop_puts:
  assumes "settled s" "k \<le> rest" "in_uvm q a k s" "pipe_ok (pipes s p)" "pipe_len (pipes s p) + k \<le> PIPESIZE"
  shows "pipewrite_loop q p a rest n (acquired (PipeLock p) s) =
    pipewrite_loop q p (a + word_of_nat k) (rest - k) n
      (acquired (PipeLock p) (upd_pipe p (fold pipe_put (read_bytes (umem s q) a k)) s))"
  using assms
proof (induction k arbitrary: a rest s)
  case 0
  then show ?case by (simp add: read_bytes_def upd_pipe_def)
next
  case (Suc k)
  obtain rest' where r: "rest = Suc rest'" using Suc.prems(2) by (cases rest) auto
  have nf: "\<not> pipe_full (pipes s p)" using Suc.prems(4,5) by (simp add: pipe_full_iff)
  note u = in_uvm_first [OF Suc.prems(3)]
  let ?s = "upd_pipe p (pipe_put (umem s q a)) s"
  have "pipewrite_loop q p a rest n (acquired (PipeLock p) s) =
      pipewrite_loop q p (a + 1) rest' n (acquired (PipeLock p) ?s)"
    using nf u by (subst pipewrite_loop.simps) (simp add: r in_uvm_def)
  also have "\<dots> = pipewrite_loop q p (a + 1 + word_of_nat k) (rest' - k) n
      (acquired (PipeLock p) (upd_pipe p (fold pipe_put (read_bytes (umem ?s q) (a + 1) k)) ?s))"
    using Suc.prems u r nf by (intro Suc.IH) (simp_all add: pipe_put_ok pipe_len_put)
  finally show ?case by (simp add: r read_bytes_Suc add.assoc comp_def)
qed

lemma pipewrite_loop_done:
  "settled s \<Longrightarrow> pipewrite_loop q p a 0 n (acquired (PipeLock p) s) = Ok (Return n, wakeup1 (PipeReadChan p) s)"
  by (subst pipewrite_loop.simps) (simp add: settled_exec)

text \<open>On a full pipe it gives up or wakes the readers and sleeps.\<close>

lemma pipewrite_loop_full:
  assumes "settled s" "curproc s = Some q" "q < length (ptable s)" "pipe_full (pipes s p)" "0 < rest"
  shows "pipewrite_loop q p a rest n (acquired (PipeLock p) s) =
    (if \<not> p_readopen (pipes s p) \<or> killed (ptable s ! q) then Ok (Return (-1), s)
     else Ok (Sleeps (PipeWriteK (readeflags s) p a rest n),
        acquired PtableLock (upd_proc q (\<lambda>k. k\<lparr>chan := Some (PipeWriteChan p), pstate := SLEEPING\<rparr>)
          (wakeup1 (PipeReadChan p) s))))"
proof -
  obtain rest' where r: "rest = Suc rest'" using assms(5) by (cases rest) auto
  have len: "length (ptable (wakeup1 (PipeReadChan p) s)) = length (ptable s)" by (simp add: wakeup1_def)
  have "curproc (wakeup1 (PipeReadChan p) s) = curproc s" by (simp add: wakeup1_def)
  moreover have "settled (wakeup1 (PipeReadChan p) s)" using assms(1) by simp
  ultimately have sl: "sleep (PipeWriteChan p) (Some (PipeLock p)) (acquired (PipeLock p) (wakeup1 (PipeReadChan p) s)) =
      Ok (readeflags s, acquired PtableLock (upd_proc q (\<lambda>k. k\<lparr>chan := Some (PipeWriteChan p), pstate := SLEEPING\<rparr>)
          (wakeup1 (PipeReadChan p) s)))"
    using assms len by (subst sleep_ok) (auto simp: settled_def saved_intena_def wakeup1_def)
  show ?thesis
    using assms(1,2,4) sl by (subst pipewrite_loop.simps) (simp add: r mykilled_section settled_exec)
qed

text \<open>The loop of \<open>piperead\<close> takes what there is, up to the number of bytes wanted.\<close>

lemma piperead_copy_gets:
  assumes "settled s" "k = min rest (pipe_len (pipes s p))" "in_uvm q a k s" "pipe_ok (pipes s p)"
  shows "piperead_copy q p a i rest (acquired l s) =
    Ok (i + k, acquired l (upd_pipe p (pipe_next ^^ k)
      (s\<lparr>umem := (umem s)(q := write_bytes (umem s q) a (take k (pipe_content (pipes s p))))\<rparr>)))"
  using assms
proof (induction rest arbitrary: a i k s)
  case 0
  then show ?case by (subst piperead_copy.simps) (simp add: upd_pipe_def)
next
  case (Suc rest)
  show ?case
  proof (cases "pipe_content (pipes s p) = []")
    case True
    then have "pipe_len (pipes s p) = 0" using length_pipe_content [of "pipes s p"] by simp
    with True Suc.prems(2) show ?thesis
      by (subst piperead_copy.simps) (simp add: pipe_empty_iff upd_pipe_def)
  next
    case False
    let ?k = "pipes s p"
    note c = pipe_next_content [OF False] and n = pipe_next_len [OF False]
    obtain k' where k: "k = Suc k'" "k' = min rest (pipe_len (pipe_next ?k))" using Suc.prems(2) n by auto
    note u = in_uvm_first [OF Suc.prems(3) [unfolded k(1)]]
    let ?s = "upd_pipe p pipe_next (s\<lparr>umem := (umem s)(q := (umem s q)(a := pipe_get ?k))\<rparr>)"
    have "piperead_copy q p a i (Suc rest) (acquired l s) = piperead_copy q p (a + 1) (Suc i) rest (acquired l ?s)"
      using False u by (subst piperead_copy.simps) (simp add: pipe_empty_iff in_uvm_def)
    also have "\<dots> = Ok (Suc i + k', acquired l (upd_pipe p (pipe_next ^^ k')
        (?s\<lparr>umem := (umem ?s)(q := write_bytes (umem ?s q) (a + 1) (take k' (pipe_content (pipes ?s p))))\<rparr>)))"
      using Suc.prems u k pipe_next_ok [OF Suc.prems(4) False]
      by (intro Suc.IH) (simp_all add: in_uvm_def upd_pipe_def)
    also have "\<dots> = Ok (i + k, acquired l (upd_pipe p (pipe_next ^^ k)
        (s\<lparr>umem := (umem s)(q := write_bytes ((umem s q)(a := pipe_get ?k)) (a + 1) (take k' (pipe_content (pipe_next ?k))))\<rparr>)))"
      unfolding k(1) funpow_Suc_right by simp
    also have "write_bytes ((umem s q)(a := pipe_get ?k)) (a + 1) (take k' (pipe_content (pipe_next ?k))) =
        write_bytes (umem s q) a (take k (pipe_content ?k))"
      by (simp add: k(1) c)
    finally show ?thesis .
  qed
qed

section \<open>Properties\<close>

text \<open>
  One byte going into the ring of a pipe or coming out of it, with the bytes that have gone in
  and come out so far.
\<close>

inductive pipe_run :: "pipe \<Rightarrow> u8 list \<Rightarrow> u8 list \<Rightarrow> bool" where
  start: "pipe_run new_ring [] []" if "new_ring = \<lparr>p_data = d, p_nread = r, p_nwrite = r, p_readopen = ro, p_writeopen = wo\<rparr>" "length d = PIPESIZE"
| put_byte: "pipe_run k sent got \<Longrightarrow> \<not> pipe_full k \<Longrightarrow> pipe_run (pipe_put b k) (sent @ [b]) got"
| get_byte: "pipe_run k sent got \<Longrightarrow> p_nread k \<noteq> p_nwrite k \<Longrightarrow> pipe_run (pipe_next k) sent (got @ [pipe_get k])"

text \<open>
  C30: The ring of a pipe is a first-in first-out queue, also when its counters wrap around: after
  any sequence of puts and gets the bytes taken out, followed by the bytes in the ring, are the
  bytes put in, in order, and the ring never holds more than its size.
\<close>

theorem pipe_fifo:
  "pipe_run k sent got \<Longrightarrow> got @ pipe_content k = sent \<and> length (pipe_content k) \<le> PIPESIZE \<and> pipe_ok k"
proof (induction rule: pipe_run.induct)
  case (start k d r ro wo)
  then show ?case by (simp add: pipe_content_def pipe_len_def pipe_ok_def)
next
  case (put_byte k sent got b)
  then have "pipe_ok (pipe_put b k)" "got @ pipe_content (pipe_put b k) = sent @ [b]"
    by (blast intro: ring.put_ok, blast intro: ring.fifo_put)
  then show ?case using ring.bounded [of "pipe_put b k"] by simp
next
  case (get_byte k sent got)
  then have "pipe_ok k" "pipe_content k \<noteq> []" "got @ pipe_content k = sent" by (auto simp: pipe_empty_iff)
  then have "pipe_ok (pipe_next k)" "(got @ [pipe_get k]) @ pipe_content (pipe_next k) = sent"
    by (blast intro: ring.pop_ok, blast intro: ring.fifo_get)
  then show ?case using ring.bounded [of "pipe_next k"] by simp
qed

definition demo_ring :: pipe where
  "demo_ring = \<lparr>p_data = replicate PIPESIZE 0, p_nread = -1, p_nwrite = -1, p_readopen = True, p_writeopen = True\<rparr>"

theorem pipe_fifo_witness:
  "[7] @ pipe_content (pipe_next (pipe_put 9 (pipe_put 7 demo_ring))) = [7, 9 :: u8]"
proof -
  have "pipe_run demo_ring [] []" by (rule start [OF demo_ring_def]) (rule length_replicate)
  then have "pipe_run (pipe_put 7 demo_ring) ([] @ [7]) []"
    by (rule put_byte) (simp add: demo_ring_def pipe_full_def)
  then have "pipe_run (pipe_put 9 (pipe_put 7 demo_ring)) (([] @ [7]) @ [9]) []"
    by (rule put_byte) (simp add: demo_ring_def pipe_full_def pipe_put_def)
  then have "pipe_run (pipe_next (pipe_put 9 (pipe_put 7 demo_ring))) (([] @ [7]) @ [9])
      ([] @ [pipe_get (pipe_put 9 (pipe_put 7 demo_ring))])"
    by (rule get_byte) (simp add: demo_ring_def pipe_put_def)
  from pipe_fifo [OF this] show ?thesis by (simp add: demo_ring_def pipe_put_def pipe_get_def)
qed

text \<open>
  C38: What \<open>pipewrite\<close> of \<open>n\<close> bytes does, with the pipe between calls: if they fit, all of them are
  appended and the call returns \<open>n\<close>; if not, the pipe is filled with the first of them, and the
  call returns -1 if no reader is left or the process is killed, and otherwise sleeps until there
  is room, with exactly the bytes that did not fit still to go.
\<close>

theorem pipewrite_effect:
  assumes "settled s" "curproc s = Some q" "q < length (ptable s)" "pipe_ok (pipes s p)" "in_uvm q addr n s"
    and "room = PIPESIZE - length (pipe_content (pipes s p))"
  shows "\<exists>r s'. pipewrite p addr (int n) s = Ok (r, s') \<and> pipe_ok (pipes s' p) \<and>
    pipe_content (pipes s' p) = pipe_content (pipes s p) @ take room (read_bytes (umem s q) addr n) \<and>
    (if n \<le> room then r = Return (int n) \<and> settled s'
     else if \<not> p_readopen (pipes s p) \<or> killed (ptable s ! q) then r = Return (-1) \<and> settled s'
     else r = Sleeps (PipeWriteK (readeflags s) p (addr + word_of_nat room) (n - room) (int n)) \<and>
       pstate (ptable s' ! q) = SLEEPING \<and> chan (ptable s' ! q) = Some (PipeWriteChan p))"
proof -
  let ?k = "min n room" let ?bs = "read_bytes (umem s q) addr ?k"
  let ?s = "upd_pipe p (fold pipe_put ?bs) s"
  have fit: "length (pipe_content (pipes s p)) + length ?bs \<le> PIPESIZE"
    using assms(6) ring.bounded [OF assms(4)] by (simp add: read_bytes_def)
  note many = ring.put_many [OF assms(4) fit]
  have bs: "?bs = take room (read_bytes (umem s q) addr n)" by (simp add: read_bytes_def take_map take_upt min_def)
  have "in_uvm q addr ?k s" using assms(5) by (auto simp: in_uvm_def)
  from pipewrite_loop_puts [OF assms(1) _ this assms(4), of n "int n"] fit
  have start: "pipewrite p addr (int n) s = pipewrite_loop q p (addr + word_of_nat ?k) (n - ?k) (int n) (acquired (PipeLock p) ?s)"
    using assms(1,2) by (simp add: pipewrite_def settled_exec settled_cpu_ok read_bytes_def)
  show ?thesis
  proof (cases "n \<le> room")
    case True
    with start many bs assms(1) show ?thesis by (auto simp: pipewrite_loop_done)
  next
    case False
    then have full: "pipe_full (pipes ?s p)"
      using many assms(6) ring.bounded [OF assms(4)] ring.full_iff [of "pipes ?s p"] by (simp add: read_bytes_def)
    have "p_readopen (pipes ?s p) = p_readopen (pipes s p)" by (simp add: readopen_puts)
    with False full many bs assms(1-3) start pipewrite_loop_full [of ?s q p "n - ?k" "addr + word_of_nat ?k" "int n"]
    show ?thesis by (auto simp: min_def wakeup1_def upd_proc_def)
  qed
qed

lemma demo_pipe_ok: "pipe_ok new_pipe" "pipe_content new_pipe = []"
  by (simp_all add: pipe_ok_def pipe_len_def pipe_content_def new_pipe_def)

theorem pipewrite_effect_witness:
  "\<exists>s'. pipewrite 0x80401000 0x100 2 kernel0 = Ok (Return 2, s') \<and> pipe_content (pipes s' 0x80401000) = [0, 0]"
  using pipewrite_effect [of kernel0 0 "0x80401000" "0x100" 2 PIPESIZE]
  by (auto simp: demo_pipe_ok in_uvm_def read_bytes_def at_def upt_rec)

text \<open>
  C39: What \<open>piperead\<close> of up to \<open>n\<close> bytes does: if the pipe holds bytes or has no writer left, the
  oldest bytes, as many as there are up to \<open>n\<close>, move to the buffer of the caller and the call
  returns their number, which is 0 only at the end of the data or for an empty request; on an
  empty pipe with a writer it returns -1 if the process is killed and sleeps otherwise.
\<close>

theorem piperead_effect:
  assumes "settled s" "curproc s = Some q" "q < length (ptable s)" "pipe_ok (pipes s p)" "in_uvm q addr n s"
  shows "\<exists>r s'. piperead p addr (int n) s = Ok (r, s') \<and> pipe_ok (pipes s' p) \<and>
    (if pipe_content (pipes s p) \<noteq> [] \<or> \<not> p_writeopen (pipes s p)
     then r = Return (int (min n (length (pipe_content (pipes s p))))) \<and> settled s' \<and>
       read_bytes (umem s' q) addr (min n (length (pipe_content (pipes s p)))) = take n (pipe_content (pipes s p)) \<and>
       pipe_content (pipes s' p) = drop n (pipe_content (pipes s p))
     else if killed (ptable s ! q) then r = Return (-1) \<and> s' = s
     else r = Sleeps (PipeReadK (readeflags s) p addr n) \<and> pipes s' = pipes s \<and>
       pstate (ptable s' ! q) = SLEEPING \<and> chan (ptable s' ! q) = Some (PipeReadChan p))"
proof (cases "pipe_content (pipes s p) \<noteq> [] \<or> \<not> p_writeopen (pipes s p)")
  case True
  let ?c = "pipe_content (pipes s p)" let ?k = "min n (pipe_len (pipes s p))"
  let ?s = "upd_pipe p (pipe_next ^^ ?k) (s\<lparr>umem := (umem s)(q := write_bytes (umem s q) addr (take ?k ?c))\<rparr>)"
  have "in_uvm q addr ?k s" using assms(5) by (auto simp: in_uvm_def)
  note copy = piperead_copy_gets [OF assms(1) refl this assms(4)]
  have "piperead p addr (int n) s = Ok (Return (int ?k), wakeup1 (PipeWriteChan p) ?s)"
    using assms(1,2) True copy [of 0 "PipeLock p"]
    by (auto simp: piperead_def piperead_tail_def settled_exec settled_cpu_ok pipe_empty_iff)
  moreover have "read_bytes (umem ?s q) addr ?k = take n ?c"
  proof -
    have "unat addr + length (take ?k ?c) \<le> 4294967296"
      using assms(5) unat_lt2p_u32 [of addr] unat_lt2p_u32 [of "sz (ptable s ! q)"] by (auto simp: in_uvm_def)
    then have "read_bytes (write_bytes (umem s q) addr (take ?k ?c)) addr ?k = take ?k (take ?k ?c)"
      by (intro read_write_bytes) simp_all
    then show ?thesis by (simp add: min_def)
  qed
  moreover have "pipe_ok (pipes ?s p) \<and> pipe_content (pipes ?s p) = drop n ?c"
    using ring.pop_many [OF assms(4), of ?k] by (simp add: min_def)
  ultimately show ?thesis using True assms(1) by auto
next
  case False
  have sl: "sleep (PipeReadChan p) (Some (PipeLock p)) (acquired (PipeLock p) s) =
      Ok (readeflags s, acquired PtableLock (upd_proc q (\<lambda>k. k\<lparr>chan := Some (PipeReadChan p), pstate := SLEEPING\<rparr>) s))"
    using assms(1-3) by (subst sleep_ok) (auto simp: settled_def saved_intena_def)
  have "piperead p addr (int n) s =
      (if killed (ptable s ! q) then Ok (Return (-1), s)
       else Ok (Sleeps (PipeReadK (readeflags s) p addr n),
         acquired PtableLock (upd_proc q (\<lambda>k. k\<lparr>chan := Some (PipeReadChan p), pstate := SLEEPING\<rparr>) s)))"
    using assms(1,2) False sl
    by (simp add: piperead_def piperead_tail_def settled_exec settled_cpu_ok pipe_empty_iff mykilled_section)
  with False assms(3,4) show ?thesis by (auto simp: upd_proc_def)
qed

text \<open>A pipe with a single byte in it.\<close>

definition demo_pipe :: pipe where
  "demo_pipe = pipe_put 9 new_pipe"

theorem piperead_effect_witness:
  "\<exists>s'. piperead 0x80401000 0x100 2 (kernel0\<lparr>pipes := (\<lambda>_. demo_pipe)\<rparr>) = Ok (Return 1, s') \<and>
    umem s' 0 0x100 = 9 \<and> pipe_content (pipes s' 0x80401000) = []"
proof -
  let ?s = "kernel0\<lparr>pipes := (\<lambda>_. demo_pipe)\<rparr>"
  have "\<not> pipe_full new_pipe" by (simp add: pipe_full_def new_pipe_def)
  then have p: "pipe_ok demo_pipe" "pipe_content demo_pipe = [9]"
    using ring.put_ok ring.put_contents demo_pipe_ok by (simp_all add: demo_pipe_def)
  have "ptable ?s ! 0 = idle_proc 1 RUNNING" "length (ptable ?s) = 3" by (simp_all add: kernel0_def)
  with p piperead_effect [of ?s 0 "0x80401000" "0x100" 2] show ?thesis
    by (auto simp: in_uvm_def read_bytes_def at_def)
qed

end
