(* ===== verification/Disk_Props.thy ===== *)
theory Disk_Props
  imports Kernel_State
begin

text \<open>
  What the rest of the kernel relies on in a disk driver, as a locale: a request for a locked
  buffer returns, and the buffer and the medium agree on its block. Both drivers satisfy it.
\<close>

section \<open>The interface\<close>

text \<open>The sector of a buffer.\<close>

definition sector_of :: "buf \<Rightarrow> sector" where
  "sector_of k = (bit (b_dev k) 0, b_blockno k)"

text \<open>
  The effect of a request: a dirty buffer is appended to the completed writes and becomes clean,
  any other is filled from the medium. Of the rest of the state only sleepers are woken.
\<close>

definition synced_buf :: "ide_state \<Rightarrow> buf \<Rightarrow> buf" where
  "synced_buf d k = k\<lparr>b_valid := True, b_dirty := False, b_data := if b_dirty k then b_data k else medium d (sector_of k)\<rparr>"

definition same_procs :: "'a dk_scheme \<Rightarrow> 'a dk_scheme \<Rightarrow> bool" where
  "same_procs s s' \<longleftrightarrow> length (ptable s') = length (ptable s) \<and> map pid (ptable s') = map pid (ptable s)"

definition synced :: "nat \<Rightarrow> nat \<Rightarrow> 'a dk_scheme \<Rightarrow> 'a dk_scheme \<Rightarrow> bool" where
  "synced b p s s' \<longleftrightarrow>
     running p s' \<and> same_procs s s' \<and> sleeplks s' = sleeplks s \<and> dk.more s' = dk.more s \<and>
     lru (bcache s') = lru (bcache s) \<and>
     bufs (bcache s') = (bufs (bcache s))[b := synced_buf (ide s) (buf_at b s)] \<and>
     medium0 (ide s') = medium0 (ide s) \<and>
     written (ide s') = written (ide s) @ (if b_dirty (buf_at b s) then [(sector_of (buf_at b s), b_data (buf_at b s))] else [])"

definition wants_sync :: "nat \<Rightarrow> nat \<Rightarrow> 'a dk_scheme \<Rightarrow> bool" where
  "wants_sync b p s \<longleftrightarrow>
     running p s \<and> sheld (BufLock b) p s \<and> b < length (bufs (bcache s)) \<and>
     \<not> (b_valid (buf_at b s) \<and> \<not> b_dirty (buf_at b s))"

lemma apply_writes_append: "apply_writes (ws @ vs) m = apply_writes vs (apply_writes ws m)"
  by (induction ws arbitrary: m) auto

lemma apply_writes_snoc: "apply_writes (ws @ [(k, v)]) m = (apply_writes ws m)(k := v)"
  unfolding apply_writes_append by simp

locale block_device =
  fixes rw :: "nat \<Rightarrow> ('a dk_scheme, unit) kcode" and dready :: "'a dk_scheme \<Rightarrow> bool"
    and has_block :: "u32 \<Rightarrow> u32 \<Rightarrow> bool"
  assumes rw_syncs: "wants_sync b p s \<Longrightarrow> dready s \<Longrightarrow> has_block (b_dev (buf_at b s)) (b_blockno (buf_at b s)) \<Longrightarrow>
      wpk (rw b) (\<lambda>_ s'. synced b p s s' \<and> dready s') s"
begin

text \<open>After a write the medium holds the data of the buffer, and every other sector is unchanged.\<close>

lemma write_reaches_medium:
  assumes "wants_sync b p s" "dready s" "has_block (b_dev (buf_at b s)) (b_blockno (buf_at b s))" "b_dirty (buf_at b s)"
  shows "wpk (rw b) (\<lambda>_ s'. medium (ide s') = (medium (ide s))(sector_of (buf_at b s) := b_data (buf_at b s))) s"
  using rw_syncs [OF assms(1-3)] assms(4)
  by (auto elim!: wpk_mono simp: synced_def medium_def apply_writes_snoc)

text \<open>What was written through one buffer is read back through another.\<close>

lemma read_back:
  assumes "wants_sync b p s" "dready s" "has_block (b_dev (buf_at b s)) (b_blockno (buf_at b s))" "b_dirty (buf_at b s)"
    and "c \<noteq> b" "c < length (bufs (bcache s))" "\<not> b_valid (buf_at c s)" "\<not> b_dirty (buf_at c s)" "sheld (BufLock c) p s"
    and "b_dev (buf_at c s) = b_dev (buf_at b s)" "b_blockno (buf_at c s) = b_blockno (buf_at b s)"
  shows "wpk (thenk (rw b) (rw c)) (\<lambda>_ s'. b_data (buf_at c s') = b_data (buf_at b s) \<and> b_valid (buf_at c s')) s"
  unfolding wpk_thenk
proof (rule wpk_mono [OF rw_syncs [OF assms(1-3)]])
  fix s1
  assume s1: "synced b p s s1 \<and> dready s1"
  have k: "buf_at c s1 = buf_at c s" using s1 assms(5) by (simp add: synced_def buf_at_def)
  have "pid (ptable s1 ! p) = pid (ptable s ! p)"
    using s1 assms(1) by (simp add: synced_def same_procs_def wants_sync_def running_def) (metis nth_map)
  then have w: "wants_sync c p s1"
    using s1 assms(6-9) k by (simp add: wants_sync_def synced_def sheld_def)
  have h: "has_block (b_dev (buf_at c s1)) (b_blockno (buf_at c s1))" using assms(3,10,11) k by simp
  have m: "medium (ide s1) (sector_of (buf_at b s)) = b_data (buf_at b s)"
    using s1 assms(4) by (simp add: synced_def medium_def apply_writes_snoc)
  have "c < length (bufs (bcache s1))" using s1 assms(6) by (simp add: synced_def)
  moreover have "sector_of (buf_at c s) = sector_of (buf_at b s)" using assms(10,11) by (simp add: sector_of_def)
  ultimately show "wpk (rw c) (\<lambda>_ s'. b_data (buf_at c s') = b_data (buf_at b s) \<and> b_valid (buf_at c s')) s1"
    using rw_syncs [OF w _ h] s1 k m assms(8)
    by (auto elim!: wpk_mono simp: synced_def buf_at_def synced_buf_def)
qed

end

section \<open>The drivers\<close>

lemma upd_buf_simps [simp]:
  "settled (upd_buf b f s) = settled s" "curproc (upd_buf b f s) = curproc s" "ptable (upd_buf b f s) = ptable s"
  "sleeplks (upd_buf b f s) = sleeplks s" "running p (upd_buf b f s) = running p s"
  "upd_buf b f (acquired l s) = acquired l (upd_buf b f s)" "lru (bcache (upd_buf b f s)) = lru (bcache s)"
  "bufs (bcache (upd_buf b f s)) = (bufs (bcache s))[b := f (buf_at b s)]" "dk.more (upd_buf b f s) = dk.more s"
  "buf_at c (acquired l s) = buf_at c s"
  by (simp_all add: upd_buf_def running_def buf_at_def)

lemma set_ide_simps [simp]:
  "settled (set_ide f s) = settled s" "curproc (set_ide f s) = curproc s" "ptable (set_ide f s) = ptable s"
  "sleeplks (set_ide f s) = sleeplks s" "running p (set_ide f s) = running p s"
  "set_ide f (acquired l s) = acquired l (set_ide f s)" "bcache (set_ide f s) = bcache s"
  "dk.more (set_ide f s) = dk.more s" "buf_at c (set_ide f s) = buf_at c s"
  by (simp_all add: set_ide_def running_def buf_at_def)

lemma wakeup1_disk [simp]:
  "bcache (wakeup1 c s) = bcache s" "ide (wakeup1 c s) = ide s" "dk.more (wakeup1 c s) = dk.more s"
  "buf_at b (wakeup1 c s) = buf_at b s" "same_procs s (wakeup1 c s') = same_procs s s'"
  by (simp_all add: wakeup1_def buf_at_def same_procs_def comp_def if_distrib [of pid] cong: if_cong)

lemma sheld_fields [simp]: "sheld k p (upd_buf b f s) = sheld k p s" "sheld k p (set_ide g s) = sheld k p s"
  by (simp_all add: sheld_def)

lemma set_ide_set_ide [simp]: "set_ide f (set_ide g s) = set_ide (\<lambda>d. f (g d)) s"
  by (simp add: set_ide_def)

lemma upd_buf_cong: "f (buf_at b s) = g (buf_at b s) \<Longrightarrow> upd_buf b f s = upd_buf b g s"
  by (simp add: upd_buf_def buf_at_def)

lemma upd_buf_upd_buf: "b < length (bufs (bcache s)) \<Longrightarrow> upd_buf b f (upd_buf b g s) = upd_buf b (\<lambda>k. f (g k)) s"
  by (simp add: upd_buf_def)

lemma medium_registers [simp]:
  "medium (idequeue_update f d) = medium d" "medium (ide_cmd_update g d) = medium d"
  by (simp_all add: medium_def)

definition ide_ready :: "'a dk_scheme \<Rightarrow> bool" where
  "ide_ready s \<longleftrightarrow> idequeue (ide s) = [] \<and> \<not> ide_error (ide s) \<and> havedisk1 (ide s)"

lemma buf_at_upd_buf: "b < length (bufs (bcache s)) \<Longrightarrow> buf_at b (upd_buf b f s) = f (buf_at b s)"
  by (simp add: buf_at_def upd_buf_def)


text \<open>
  The state after \<open>iderw\<close>: the command stays in the register of the disk, and after an error of
  the disk the buffer keeps its data.
\<close>

definition ide_buf :: "ide_state \<Rightarrow> buf \<Rightarrow> buf" where
  "ide_buf d k = k\<lparr>b_valid := True, b_dirty := False,
     b_data := if b_dirty k \<or> ide_error d then b_data k else medium d (sector_of k)\<rparr>"

definition ide_done :: "nat \<Rightarrow> 'a dk_scheme \<Rightarrow> 'a dk_scheme" where
  "ide_done b s =
     (let k = buf_at b s in
      upd_buf b (ide_buf (ide s))
        (set_ide (\<lambda>d. d\<lparr>written := written d @ (if b_dirty k then [(sector_of k, b_data k)] else []),
                         ide_cmd := Some (sector_of k, None), idequeue := []\<rparr>) s))"

lemma iderw_ok:
  assumes "wants_sync b p s" "idequeue (ide s) = []" "havedisk1 (ide s)" "b_blockno (buf_at b s) < FSSIZE"
  shows "iderw b s = Ok ((), wakeup1 (BufChan b) (ide_done b s))"
proof -
  let ?k = "buf_at b s"
  let ?s1 = "set_ide (\<lambda>d. d\<lparr>idequeue := [b], ide_cmd := Some (sector_of ?k, if b_dirty ?k then Some (b_data ?k) else None)\<rparr>) s"
  from assms have r: "running p s" "settled s" "sheld (BufLock b) p s" "b < length (bufs (bcache s))"
    "\<not> (b_valid ?k \<and> \<not> b_dirty ?k)" and d: "idequeue (ide s) = []" "havedisk1 (ide s)"
    by (auto simp: wants_sync_def running_def)
  have intr: "ideintr (set_ide disk_complete ?s1) = Ok ((), wakeup1 (BufChan b) (ide_done b s))"
  proof (cases "b_dirty ?k")
    case True
    with r(2) show ?thesis
      by (auto simp: ideintr_def bindk_def thenk_def dok_def getk_def modk_def retk_def settled_exec ide_done_def Let_def
          disk_complete_def ide_buf_def intro!: arg_cong [where f = "wakeup1 (BufChan b)"] upd_buf_cong)
  next
    case False
    with r(2,4) show ?thesis
      by (auto simp: ideintr_def bindk_def thenk_def dok_def getk_def modk_def retk_def settled_exec ide_done_def Let_def
          disk_complete_def ide_buf_def idewait_def ide_insl_def upd_buf_upd_buf
          intro!: arg_cong [where f = "wakeup1 (BufChan b)"] upd_buf_cong)
  qed
  have fin: "b_valid (buf_at b (ide_done b s)) \<and> \<not> b_dirty (buf_at b (ide_done b s))"
    using r(4) by (simp add: ide_done_def Let_def buf_at_upd_buf ide_buf_def)
  have "settled (ide_done b s)" using r(2) by (simp add: ide_done_def Let_def)
  then have "ide_waitfor b (acquired IdeLock (wakeup1 (BufChan b) (ide_done b s))) =
      Ok ((), acquired IdeLock (wakeup1 (BufChan b) (ide_done b s)))"
    using fin by (subst ide_waitfor.simps) simp
  then have wait: "ide_waitfor b (acquired IdeLock ?s1) = Ok ((), acquired IdeLock (wakeup1 (BufChan b) (ide_done b s)))"
    using r(2,5) intr \<open>settled (ide_done b s)\<close>
    by (subst ide_waitfor.simps) (auto simp: bindk_def thenk_def dok_def modk_def settled_exec)
  have "idestart (Some b) (acquired IdeLock (set_ide (\<lambda>d. d\<lparr>idequeue := idequeue d @ [b]\<rparr>) s)) = Ok ((), acquired IdeLock ?s1)"
    using assms(4) d by (simp add: idestart_def bindk_def thenk_def getk_def modk_def idewait_def sector_of_def set_ide_def
      buf_at_def not_le [symmetric])
  then show ?thesis
    using r d wait \<open>settled (ide_done b s)\<close>
    by (auto simp: iderw_def bindk_def thenk_def getk_def modk_def dok_def holdingsleep_ok settled_exec)
qed


lemma ide_done_synced:
  assumes "wants_sync b p s" "\<not> ide_error (ide s)"
  shows "synced b p s (wakeup1 (BufChan b) (ide_done b s))"
proof -
  have "ide_buf (ide s) = synced_buf (ide s)" using assms(2) by (simp add: fun_eq_iff ide_buf_def synced_buf_def)
  moreover
  have "same_procs s (ide_done b s)" by (simp add: ide_done_def Let_def same_procs_def)
  ultimately show ?thesis using assms(1) by (auto simp: synced_def wants_sync_def) (auto simp: ide_done_def Let_def)
qed

interpretation idedrv: block_device iderw ide_ready "\<lambda>dev bno. bno < FSSIZE"
proof
  fix b p and s :: "'a dk_scheme"
  assume a: "wants_sync b p s" "ide_ready s" "b_blockno (buf_at b s) < FSSIZE"
  have "ide_ready (wakeup1 (BufChan b) (ide_done b s))" using a(2) by (simp add: ide_ready_def ide_done_def Let_def)
  then show "wpk (iderw b) (\<lambda>_ s'. synced b p s s' \<and> ide_ready s') s"
    using ide_done_synced [OF a(1)] a iderw_ok [OF a(1) _ _ a(3)] by (simp add: wpk_def ide_ready_def)
qed

text \<open>The driver of the memory disk leaves the registers of the disk alone.\<close>

definition mem_done :: "nat \<Rightarrow> 'a dk_scheme \<Rightarrow> 'a dk_scheme" where
  "mem_done b s =
     (let k = buf_at b s in
      upd_buf b (synced_buf (ide s))
        (set_ide (\<lambda>d. d\<lparr>written := written d @ (if b_dirty k then [(sector_of k, b_data k)] else [])\<rparr>) s))"

lemma memide_rw_ok:
  assumes "wants_sync b p s" "b_dev (buf_at b s) = 1" "b_blockno (buf_at b s) < n"
  shows "memide_rw n b s = Ok ((), mem_done b s)"
proof -
  have h: "holdingsleep (BufLock b) s = Ok (True, s)" using assms(1) by (auto simp: wants_sync_def holdingsleep_ok)
  have "synced_buf (ide s) (buf_at b s) = (if b_dirty (buf_at b s) then (buf_at b s)\<lparr>b_dirty := False, b_valid := True\<rparr>
      else (buf_at b s)\<lparr>b_data := medium (ide s) (True, b_blockno (buf_at b s)), b_valid := True\<rparr>)"
    using assms(1,2) by (auto simp: synced_buf_def wants_sync_def sector_of_def intro!: buf.equality)
  then show ?thesis
    using assms h
    by (auto simp: memide_rw_def bindk_def thenk_def getk_def modk_def retk_def mem_done_def Let_def sector_of_def
        wants_sync_def upd_buf_def set_ide_def buf_at_def not_le)
qed

interpretation memdrv: block_device "memide_rw n" "\<lambda>_. True" "\<lambda>dev bno. dev = 1 \<and> bno < n"
proof
  fix b p and s :: "'a dk_scheme"
  assume a: "wants_sync b p s" "b_dev (buf_at b s) = 1 \<and> b_blockno (buf_at b s) < n"
  have "synced b p s (mem_done b s)"
    using a(1) by (auto simp: synced_def mem_done_def Let_def wants_sync_def same_procs_def)
  then show "wpk (memide_rw n b) (\<lambda>_ s'. synced b p s s' \<and> True) s"
    using a by (simp add: wpk_def memide_rw_ok)
qed

section \<open>Properties\<close>

text \<open>
  C36: The two disk drivers do the same: for a locked buffer of drive 1 that needs a transfer, both
  return, and they leave the same buffers and the same medium behind, with the buffer valid,
  clean and equal to its block on the medium.
\<close>

theorem drivers_agree:
  assumes "wants_sync b p s" "ide_ready s" "b_dev (buf_at b s) = 1" "b_blockno (buf_at b s) < FSSIZE"
  shows "\<exists>s1 s2. iderw b s = Ok ((), s1) \<and> memide_rw FSSIZE b s = Ok ((), s2) \<and>
    bcache s1 = bcache s2 \<and> medium (ide s1) = medium (ide s2) \<and>
    b_valid (buf_at b s1) \<and> \<not> b_dirty (buf_at b s1) \<and>
    b_data (buf_at b s1) = medium (ide s1) (sector_of (buf_at b s1)) \<and>
    (\<forall>sec. sec \<noteq> sector_of (buf_at b s) \<longrightarrow> medium (ide s1) sec = medium (ide s) sec)"
proof -
  have "wpk (iderw b) (\<lambda>_ s'. synced b p s s' \<and> ide_ready s') s" using assms(1,2,4) by (rule idedrv.rw_syncs)
  then obtain s1 where s1: "iderw b s = Ok ((), s1)" "synced b p s s1" by (auto elim: wpkE)
  have "wpk (memide_rw FSSIZE b) (\<lambda>_ s'. synced b p s s' \<and> True) s"
    using assms(1) TrueI assms(3,4) by (intro memdrv.rw_syncs) simp_all
  then obtain s2 where s2: "memide_rw FSSIZE b s = Ok ((), s2)" "synced b p s s2" by (auto elim: wpkE)
  have c: "bcache s1 = bcache s2" using s1(2) s2(2) by (intro bcache_state.equality) (simp_all add: synced_def)
  have m: "medium (ide s1) = medium (ide s2)" using s1(2) s2(2) by (simp add: synced_def medium_def)
  have "buf_at b s1 = synced_buf (ide s) (buf_at b s)" using s1(2) assms(1) by (simp add: synced_def buf_at_def wants_sync_def)
  moreover have "medium (ide s1) = (if b_dirty (buf_at b s)
      then (medium (ide s))(sector_of (buf_at b s) := b_data (buf_at b s)) else medium (ide s))"
    using s1(2) by (simp add: synced_def medium_def apply_writes_snoc)
  ultimately show ?thesis using s1(1) s2(1) c m by (auto simp: synced_buf_def sector_of_def)
qed

text \<open>A kernel whose running process has locked the buffers.\<close>

definition locked_kernel :: pl where
  "locked_kernel = kernel0\<lparr>bcache := \<lparr>bufs = replicate NBUF (no_buf\<lparr>b_dev := 1, b_blockno := 7\<rparr>), lru = [0..<NBUF]\<rparr>,
      sleeplks := (\<lambda>_. \<lparr>slocked = True, spid = 1\<rparr>)\<rparr>"

lemma locked_kernel_buf: "buf_at 3 locked_kernel = no_buf\<lparr>b_dev := 1, b_blockno := 7\<rparr>"
  by (simp add: locked_kernel_def buf_at_def)

lemma locked_kernel_wants: "wants_sync 3 0 locked_kernel"
proof -
  have "running 0 locked_kernel" "sheld (BufLock 3) 0 locked_kernel" "length (bufs (bcache locked_kernel)) = NBUF"
    by (simp_all add: locked_kernel_def running_def sheld_def)
  then show ?thesis using locked_kernel_buf by (simp add: wants_sync_def no_buf_def)
qed

lemma locked_kernel_ready: "ide_ready locked_kernel"
  by (simp add: ide_ready_def locked_kernel_def kernel0_def)

theorem drivers_agree_witness:
  "\<exists>s1 s2. iderw 3 locked_kernel = Ok ((), s1) \<and> memide_rw FSSIZE 3 locked_kernel = Ok ((), s2) \<and> bcache s1 = bcache s2"
  using drivers_agree [OF locked_kernel_wants locked_kernel_ready] locked_kernel_buf by auto

text \<open>
  C37: A read that the disk fails is not noticed: \<open>iderw\<close> returns as always, and the buffer is marked
  valid although it still holds the data it held before the request.
\<close>

theorem disk_error_unnoticed:
  assumes "wants_sync b p s" "idequeue (ide s) = []" "havedisk1 (ide s)" "b_blockno (buf_at b s) < FSSIZE"
    and "ide_error (ide s)" "\<not> b_dirty (buf_at b s)"
  shows "\<exists>s'. iderw b s = Ok ((), s') \<and> b_valid (buf_at b s') \<and> b_data (buf_at b s') = b_data (buf_at b s)"
  using iderw_ok [OF assms(1-4)] assms(1,5)
  by (simp add: ide_done_def Let_def buf_at_upd_buf ide_buf_def wants_sync_def)

theorem disk_error_unnoticed_witness:
  "\<exists>s'. iderw 3 (locked_kernel\<lparr>ide := (ide locked_kernel)\<lparr>ide_error := True, medium0 := (\<lambda>_. replicate BSIZE 7)\<rparr>\<rparr>) = Ok ((), s') \<and>
    b_valid (buf_at 3 s') \<and> b_data (buf_at 3 s') = replicate BSIZE 0"
proof -
  let ?s = "locked_kernel\<lparr>ide := (ide locked_kernel)\<lparr>ide_error := True, medium0 := (\<lambda>_. replicate BSIZE 7)\<rparr>\<rparr>"
  have k: "buf_at 3 ?s = no_buf\<lparr>b_dev := 1, b_blockno := 7\<rparr>" using locked_kernel_buf by (simp add: buf_at_def)
  have "wants_sync 3 0 ?s" using locked_kernel_wants
    by (simp add: wants_sync_def sheld_def running_def) (simp add: buf_at_def)
  then show ?thesis using disk_error_unnoticed [of 3 0 ?s] k locked_kernel_ready
    by (simp add: ide_ready_def no_buf_def)
qed

end
