(* ===== verification/Bio_Props.thy ===== *)
theory Bio_Props
  imports Disk_Props
begin

text \<open>
  The buffer cache: what \<open>bread\<close>, \<open>bwrite\<close> and \<open>brelse\<close> do to the blocks of the file system's
  drive as the kernel sees them, \<open>cview\<close>, and to the medium. The invariant \<open>cache_ok\<close> names the
  set of buffers that the running process has locked.
\<close>

section \<open>The cache as a map of blocks\<close>

definition holds_block :: "u32 \<Rightarrow> nat \<Rightarrow> 'a dk_scheme \<Rightarrow> bool" where
  "holds_block bno b s \<longleftrightarrow> b < NBUF \<and> b_dev (buf_at b s) = 1 \<and> b_blockno (buf_at b s) = bno"

definition cview :: "'a dk_scheme \<Rightarrow> u32 \<Rightarrow> block" where
  "cview s bno =
     (case bget_cached 1 bno s of
        Some b \<Rightarrow> if b_valid (buf_at b s) then b_data (buf_at b s) else medium (ide s) (True, bno)
      | None \<Rightarrow> medium (ide s) (True, bno))"

text \<open>The blocks that wait in the cache for a commit.\<close>

definition pinned :: "'a dk_scheme \<Rightarrow> u32 set" where
  "pinned s = {bno. \<exists>b. holds_block bno b s \<and> b_dirty (buf_at b s)}"

definition buf_ok :: "nat \<Rightarrow> nat set \<Rightarrow> nat \<Rightarrow> 'a dk_scheme \<Rightarrow> bool" where
  "buf_ok p H b s \<longleftrightarrow>
     (let k = buf_at b s in
      length (b_data k) = BSIZE \<and> (b_dirty k \<longrightarrow> b_valid k \<and> b_dev k = 1) \<and>
      (if b \<in> H then sheld (BufLock b) p s \<and> b_refcnt k = 1 \<and> b_dev k = 1 \<and> b_valid k
       else \<not> slocked (sleeplks s (BufLock b)) \<and> b_refcnt k = 0 \<and>
         (b_valid k \<and> \<not> b_dirty k \<and> b_dev k = 1 \<longrightarrow> b_data k = medium (ide s) (True, b_blockno k))))"

definition cache_ok :: "nat \<Rightarrow> nat set \<Rightarrow> 'a dk_scheme \<Rightarrow> bool" where
  "cache_ok p H s \<longleftrightarrow>
     running p s \<and> ide_ready s \<and> length (bufs (bcache s)) = NBUF \<and> distinct (lru (bcache s)) \<and>
     set (lru (bcache s)) = {..<NBUF} \<and> H \<subseteq> {..<NBUF} \<and> (\<forall>b<NBUF. buf_ok p H b s) \<and>
     (\<forall>b c bno. holds_block bno b s \<longrightarrow> holds_block bno c s \<longrightarrow> b = c) \<and>
     (\<forall>d n. length (medium (ide s) (d, n)) = BSIZE)"

lemma find_SomeD: "find P xs = Some x \<Longrightarrow> x \<in> set xs \<and> P x"
  by (auto simp: find_Some_iff)

lemma cache_okD:
  assumes "cache_ok p H s"
  shows "running p s" "ide_ready s" "length (bufs (bcache s)) = NBUF" "H \<subseteq> {..<NBUF}" "settled s"
    "\<And>b. b < NBUF \<Longrightarrow> buf_ok p H b s" "\<And>b c bno. holds_block bno b s \<Longrightarrow> holds_block bno c s \<Longrightarrow> b = c"
    "length (medium (ide s) (d, n)) = BSIZE" "set (lru (bcache s)) = {..<NBUF}"
  using assms by (simp_all add: cache_ok_def running_def)

lemma cached_iff: "cache_ok p H s \<Longrightarrow> bget_cached 1 bno s = Some b \<longleftrightarrow> holds_block bno b s"
proof -
  assume c: "cache_ok p H s"
  show ?thesis
  proof
    assume "bget_cached 1 bno s = Some b"
    then show "holds_block bno b s"
      using c by (auto simp: bget_cached_def holds_block_def cache_ok_def dest!: find_SomeD)
  next
    assume h: "holds_block bno b s"
    then have "bget_cached 1 bno s \<noteq> None"
      using c by (auto simp: bget_cached_def find_None_iff holds_block_def cache_ok_def)
    then obtain c' where b': "bget_cached 1 bno s = Some c'" by auto
    then have "holds_block bno c' s"
      using c by (auto simp: bget_cached_def holds_block_def cache_ok_def dest!: find_SomeD)
    then show "bget_cached 1 bno s = Some b" using b' h cache_okD(7) [OF c] by blast
  qed
qed

lemma cview_holds: "cache_ok p H s \<Longrightarrow> holds_block bno b s \<Longrightarrow> b_valid (buf_at b s) \<Longrightarrow> cview s bno = b_data (buf_at b s)"
  by (simp add: cview_def cached_iff [THEN iffD2])

lemma cview_invalid:
  assumes "cache_ok p H s" "\<And>b. holds_block bno b s \<Longrightarrow> \<not> b_valid (buf_at b s)"
  shows "cview s bno = medium (ide s) (True, bno)"
  using assms cached_iff [OF assms(1)] by (auto simp: cview_def split: option.split)

text \<open>Two states whose cached blocks and media agree have the same view.\<close>

lemma cview_eqI:
  assumes "cache_ok p H s" "cache_ok q G s'"
    and "\<And>b. holds_block bno b s \<Longrightarrow> b_valid (buf_at b s) \<Longrightarrow> cview s' bno = b_data (buf_at b s)"
    and "(\<And>b. holds_block bno b s \<Longrightarrow> \<not> b_valid (buf_at b s)) \<Longrightarrow> cview s' bno = medium (ide s) (True, bno)"
  shows "cview s' bno = cview s bno"
proof (cases "\<exists>b. holds_block bno b s \<and> b_valid (buf_at b s)")
  case True
  then show ?thesis using assms(1,3) cview_holds by metis
next
  case False
  then show ?thesis using assms(4) cview_invalid [OF assms(1)] by auto
qed

text \<open>A buffer is free for another block while locked and pinned blocks are fewer than buffers.\<close>

lemma unused_exists:
  assumes "cache_ok p H s" "card H + card (pinned s) < NBUF"
  shows "\<exists>b. bget_unused s = Some b \<and> b < NBUF \<and> b \<notin> H \<and> \<not> b_dirty (buf_at b s)"
proof -
  let ?D = "{b. b < NBUF \<and> b_dirty (buf_at b s)}"
  have inj: "inj_on (\<lambda>b. b_blockno (buf_at b s)) ?D"
    using cache_okD(6,7) [OF assms(1)] by (auto simp: inj_on_def holds_block_def buf_ok_def Let_def)
  have "(\<lambda>b. b_blockno (buf_at b s)) ` ?D \<subseteq> pinned s"
    using cache_okD(6) [OF assms(1)] by (auto simp: pinned_def holds_block_def buf_ok_def Let_def)
  moreover have "pinned s \<subseteq> (\<lambda>b. b_blockno (buf_at b s)) ` ?D" by (auto simp: pinned_def holds_block_def)
  ultimately have "card (pinned s) = card ?D" using card_image [OF inj] by auto
  then have "card (H \<union> ?D) < NBUF" using card_Un_le [of H ?D] assms(2) by linarith
  then have "\<not> {..<NBUF} \<subseteq> H \<union> ?D"
    using card_mono [of "H \<union> ?D" "{..<NBUF}"] finite_subset [OF cache_okD(4) [OF assms(1)]] by force
  then obtain b where b: "b < NBUF" "b \<notin> H" "\<not> b_dirty (buf_at b s)" by auto
  then have "b_refcnt (buf_at b s) = 0" using cache_okD(6) [OF assms(1)] by (auto simp: buf_ok_def Let_def)
  then have "bget_unused s \<noteq> None"
    using b assms(1) by (auto simp: bget_unused_def find_None_iff cache_ok_def)
  then obtain c where c: "bget_unused s = Some c" by auto
  then have r: "c < NBUF" "b_refcnt (buf_at c s) = 0" "\<not> b_dirty (buf_at c s)"
    using assms(1) by (auto simp: bget_unused_def cache_ok_def dest!: find_SomeD)
  then have "c \<notin> H" using cache_okD(6) [OF assms(1)] by (auto simp: buf_ok_def Let_def)
  with c r show ?thesis by blast
qed


section \<open>Locking a buffer\<close>

text \<open>The running process has locked buffer \<open>b\<close>, which is now \<open>k\<close>; the rest is as it was.\<close>

definition grabbed :: "nat \<Rightarrow> buf \<Rightarrow> nat \<Rightarrow> 'a dk_scheme \<Rightarrow> 'a dk_scheme \<Rightarrow> bool" where
  "grabbed b k p s s' \<longleftrightarrow>
     running p s' \<and> ide_ready s' \<and> same_procs s s' \<and> dk.more s' = dk.more s \<and>
     sleeplks s' = (sleeplks s)(BufLock b := \<lparr>slocked = True, spid = pid (ptable s ! p)\<rparr>) \<and>
     lru (bcache s') = lru (bcache s) \<and> bufs (bcache s') = (bufs (bcache s))[b := k] \<and>
     medium0 (ide s') = medium0 (ide s) \<and> written (ide s') = written (ide s)"

lemma same_procs_pid: "same_procs s s' \<Longrightarrow> i < length (ptable s) \<Longrightarrow> pid (ptable s' ! i) = pid (ptable s ! i)"
  unfolding same_procs_def by (metis nth_map)

lemma grabbedD:
  assumes "grabbed b k p s s'" "cache_ok p H s" "b < NBUF"
  shows "buf_at b s' = k" "c \<noteq> b \<Longrightarrow> buf_at c s' = buf_at c s" "medium (ide s') = medium (ide s)"
    "sheld (BufLock b) p s'" "c \<noteq> b \<Longrightarrow> sheld (BufLock c) p s' = sheld (BufLock c) p s"
    "c \<noteq> b \<Longrightarrow> sleeplks s' (BufLock c) = sleeplks s (BufLock c)"
proof -
  have p: "pid (ptable s' ! p) = pid (ptable s ! p)"
    using assms(1,2) same_procs_pid by (auto simp: grabbed_def cache_ok_def running_def)
  show "buf_at b s' = k" "c \<noteq> b \<Longrightarrow> buf_at c s' = buf_at c s" "medium (ide s') = medium (ide s)"
    "sheld (BufLock b) p s'" "c \<noteq> b \<Longrightarrow> sheld (BufLock c) p s' = sheld (BufLock c) p s"
    "c \<noteq> b \<Longrightarrow> sleeplks s' (BufLock c) = sleeplks s (BufLock c)"
    using assms p by (simp_all add: grabbed_def buf_at_def cache_ok_def medium_def sheld_def)
qed

text \<open>Buffer \<open>b\<close> may take block \<open>bno\<close>: it holds it already, or nobody does and \<open>b\<close> is clean.\<close>

definition may_take :: "u32 \<Rightarrow> nat \<Rightarrow> 'a dk_scheme \<Rightarrow> bool" where
  "may_take bno b s \<longleftrightarrow> holds_block bno b s \<or> (\<forall>c. \<not> holds_block bno c s) \<and> \<not> b_dirty (buf_at b s)"

text \<open>The buffer that \<open>bread\<close> returns.\<close>

definition read_buf :: "u32 \<Rightarrow> 'a dk_scheme \<Rightarrow> buf" where
  "read_buf bno s = \<lparr>b_valid = True, b_dirty = (bno \<in> pinned s), b_dev = 1, b_blockno = bno, b_refcnt = 1, b_data = cview s bno\<rparr>"

lemma length_cview: "cache_ok p H s \<Longrightarrow> length (cview s bno) = BSIZE"
  by (auto simp: cview_def cached_iff holds_block_def cache_okD buf_ok_def Let_def split: option.split
      dest: cache_okD(6))

lemma grabbed_holds:
  assumes "grabbed b (read_buf bno s) p s s'" "cache_ok p H s" "b < NBUF" "may_take bno b s"
  shows "holds_block n c s' \<longleftrightarrow> (if c = b then n = bno else holds_block n c s)"
  using grabbedD [OF assms(1-3)] assms(3,4) by (auto simp: holds_block_def read_buf_def)

lemma grabbed_pinned:
  assumes "grabbed b (read_buf bno s) p s s'" "cache_ok p H s" "b < NBUF" "may_take bno b s"
  shows "pinned s' = pinned s"
proof -
  have d: "b_dirty (buf_at c s') = (if c = b then bno \<in> pinned s else b_dirty (buf_at c s))" for c
    using grabbedD [OF assms(1-3)] by (simp add: read_buf_def)
  have f: "holds_block n c s \<Longrightarrow> holds_block bno c s \<Longrightarrow> n = bno" for n c by (simp add: holds_block_def)
  have "n \<in> pinned s' \<longleftrightarrow> (\<exists>c. (if c = b then n = bno \<and> bno \<in> pinned s else holds_block n c s \<and> b_dirty (buf_at c s)))" for n
    using grabbed_holds [OF assms] d by (auto simp: pinned_def)
  moreover have "(\<exists>c. (if c = b then n = bno \<and> bno \<in> pinned s else holds_block n c s \<and> b_dirty (buf_at c s))) \<longleftrightarrow>
      n \<in> pinned s" for n
    using assms(4) f cache_okD(7) [OF assms(2)] unfolding may_take_def pinned_def mem_Collect_eq by metis
  ultimately show ?thesis by blast
qed

lemma grabbed_cache_ok:
  assumes "grabbed b (read_buf bno s) p s s'" "cache_ok p H s" "b < NBUF" "may_take bno b s" "b \<notin> H"
  shows "cache_ok p (insert b H) s'"
proof -
  note g = grabbedD [OF assms(1-3)]
  have "buf_ok p (insert b H) b s'"
    using g(1,4) length_cview [OF assms(2)] by (simp add: buf_ok_def read_buf_def)
  moreover have "buf_ok p (insert b H) c s'" if "c < NBUF" "c \<noteq> b" for c
    using cache_okD(6) [OF assms(2) that(1)] g(2) [of c] g(3) g(5) [of c] g(6) [of c] that(2) by (simp add: buf_ok_def Let_def)
  ultimately have "\<forall>c<NBUF. buf_ok p (insert b H) c s'" by blast
  moreover have "\<forall>c c' n. holds_block n c s' \<longrightarrow> holds_block n c' s' \<longrightarrow> c = c'"
    using grabbed_holds [OF assms(1-4)] assms(4) cache_okD(7) [OF assms(2)] unfolding may_take_def by metis
  ultimately show ?thesis
    using assms(1-3) g(3) by (auto simp: cache_ok_def grabbed_def)
qed

lemma grabbed_cview:
  assumes "grabbed b (read_buf bno s) p s s'" "cache_ok p H s" "b < NBUF" "may_take bno b s" "b \<notin> H"
  shows "cview s' n = cview s n"
proof -
  note c = grabbed_cache_ok [OF assms] and g = grabbedD [OF assms(1-3)] and h = grabbed_holds [OF assms(1-4)]
  show ?thesis
  proof (cases "n = bno")
    case True
    then have "holds_block n b s'" "b_valid (buf_at b s')" using h g(1) by (simp_all add: read_buf_def)
    then have "cview s' n = b_data (buf_at b s')" by (rule cview_holds [OF c])
    then show ?thesis using True g(1) by (simp add: read_buf_def)
  next
    case False
    show ?thesis
    proof (rule cview_eqI [OF assms(2) c])
      fix d assume d: "holds_block n d s" "b_valid (buf_at d s)"
      show "cview s' n = b_data (buf_at d s)"
      proof (cases "d = b")
        case True
        with d(1) False assms(4) have "\<not> b_dirty (buf_at b s)" by (auto simp: may_take_def holds_block_def)
        then have "b_data (buf_at b s) = medium (ide s) (True, n)"
          using cache_okD(6) [OF assms(2,3)] assms(5) d True by (auto simp: buf_ok_def Let_def holds_block_def)
        moreover have "\<not> holds_block n e s'" for e
          using h [of n e] False d(1) True cache_okD(7) [OF assms(2), of n e b] by auto
        then have "cview s' n = medium (ide s') (True, n)" by (intro cview_invalid [OF c]) blast
        ultimately show ?thesis using True g(3) by simp
      next
        case False
        with d show ?thesis using cview_holds [OF c, of n d] h [of n d] g(2) [of d] by simp
      qed
    next
      assume "\<And>d. holds_block n d s \<Longrightarrow> \<not> b_valid (buf_at d s)"
      then have "cview s' n = medium (ide s') (True, n)"
        using h g(2) False by (intro cview_invalid [OF c]) (metis (full_types))
      then show "cview s' n = medium (ide s) (True, n)" using g(3) by simp
    qed
  qed
qed


section \<open>Reading a block\<close>

text \<open>\<open>bget\<close> for a block: the buffer it locks, and what is in it then.\<close>

definition got_buf :: "u32 \<Rightarrow> nat \<Rightarrow> 'a dk_scheme \<Rightarrow> buf" where
  "got_buf bno b s =
     (if holds_block bno b s then (buf_at b s)\<lparr>b_refcnt := 1\<rparr>
      else (buf_at b s)\<lparr>b_dev := 1, b_blockno := bno, b_valid := False, b_dirty := False, b_refcnt := 1\<rparr>)"

lemma set_sleeplock_disk [simp]:
  "bcache (set_sleeplock k l q s) = bcache s" "ide (set_sleeplock k l q s) = ide s"
  "dk.more (set_sleeplock k l q s) = dk.more s" "buf_at b (set_sleeplock k l q s) = buf_at b s"
  by (simp_all add: set_sleeplock_def buf_at_def)

lemma bget_ok:
  assumes "cache_ok p H s" "\<And>b. b \<in> H \<Longrightarrow> b_blockno (buf_at b s) \<noteq> bno"
    and "bno \<in> pinned s \<or> card H + card (pinned s) < NBUF"
  shows "\<exists>b. b < NBUF \<and> b \<notin> H \<and> may_take bno b s \<and>
    bget 1 bno s = Ok (b, set_sleeplock (BufLock b) True (pid (ptable s ! p)) (upd_buf b (\<lambda>_. got_buf bno b s) s))"
proof -
  note c = cache_okD [OF assms(1)]
  show ?thesis
  proof (cases "bget_cached 1 bno s")
    case (Some b)
    then have h: "holds_block bno b s" using cached_iff [OF assms(1)] by simp
    then have b: "b < NBUF" "b \<notin> H" using assms(2) by (auto simp: holds_block_def)
    then have "b_refcnt (buf_at b s) = 0" "\<not> slocked (sleeplks s (BufLock b))" using c(6) by (auto simp: buf_ok_def Let_def)
    then have "bget 1 bno s = Ok (b, set_sleeplock (BufLock b) True (pid (ptable s ! p)) (upd_buf b (\<lambda>_. got_buf bno b s) s))"
      using Some c(1,5) h acquiresleep_ok [of p "upd_buf b (\<lambda>_. got_buf bno b s) s" "BufLock b"]
        upd_buf_cong [of "\<lambda>k. k\<lparr>b_refcnt := b_refcnt k + 1\<rparr>" b s "\<lambda>_. got_buf bno b s"]
      by (simp add: bget_def bindk_def thenk_def dok_def getk_def modk_def retk_def settled_exec got_buf_def bget_cached_def)
    then show ?thesis using b h by (auto simp: may_take_def)
  next
    case None
    then have n: "\<not> holds_block bno d s" for d using cached_iff [OF assms(1), of bno d] by auto
    then have "bno \<notin> pinned s" by (auto simp: pinned_def)
    then obtain b where b: "bget_unused s = Some b" "b < NBUF" "b \<notin> H" "\<not> b_dirty (buf_at b s)"
      using unused_exists [OF assms(1)] assms(3) by blast
    then have "\<not> slocked (sleeplks s (BufLock b))" using c(6) by (auto simp: buf_ok_def Let_def)
    then have "bget 1 bno s = Ok (b, set_sleeplock (BufLock b) True (pid (ptable s ! p)) (upd_buf b (\<lambda>_. got_buf bno b s) s))"
      using None b(1) c(1,5) n [of b] acquiresleep_ok [of p "upd_buf b (\<lambda>_. got_buf bno b s) s" "BufLock b"]
        upd_buf_cong [of "\<lambda>k. k\<lparr>b_dev := 1, b_blockno := bno, b_valid := False, b_dirty := False, b_refcnt := 1\<rparr>" b s
          "\<lambda>_. got_buf bno b s"]
      by (simp add: bget_def bindk_def thenk_def dok_def getk_def modk_def retk_def settled_exec got_buf_def
          bget_cached_def bget_unused_def)
    then show ?thesis using b n by (auto simp: may_take_def)
  qed
qed

lemma got_buf_valid:
  assumes "cache_ok p H s" "b < NBUF" "b \<notin> H" "may_take bno b s" "b_valid (got_buf bno b s)"
  shows "got_buf bno b s = read_buf bno s"
proof -
  from assms(5) have h: "holds_block bno b s" "b_valid (buf_at b s)" by (auto simp: got_buf_def split: if_split_asm)
  have "bno \<in> pinned s \<longleftrightarrow> b_dirty (buf_at b s)"
    using h cache_okD(7) [OF assms(1)] unfolding pinned_def by blast
  then show ?thesis using h cview_holds [OF assms(1) h]
    by (intro buf.equality) (simp_all add: got_buf_def read_buf_def holds_block_def)
qed

lemma got_buf_invalid:
  assumes "cache_ok p H s" "b < NBUF" "b \<notin> H" "may_take bno b s" "\<not> b_valid (got_buf bno b s)"
  shows "synced_buf (ide s) (got_buf bno b s) = read_buf bno s" "\<not> b_dirty (got_buf bno b s)"
proof -
  have v: "\<not> b_valid (buf_at d s)" if "holds_block bno d s" for d
    using assms(4,5) that cache_okD(7) [OF assms(1), of bno d b] by (auto simp: may_take_def got_buf_def)
  then have "cview s bno = medium (ide s) (True, bno)" by (intro cview_invalid [OF assms(1)]) blast
  moreover have "bno \<notin> pinned s"
    using v cache_okD(6) [OF assms(1)] by (auto simp: pinned_def holds_block_def buf_ok_def Let_def)
  moreover show d: "\<not> b_dirty (got_buf bno b s)"
    using v [of b] cache_okD(6) [OF assms(1,2)] by (auto simp: got_buf_def buf_ok_def Let_def)
  ultimately show "synced_buf (ide s) (got_buf bno b s) = read_buf bno s"
    by (intro buf.equality)
      (auto simp: synced_buf_def read_buf_def sector_of_def got_buf_def holds_block_def)
qed

lemma bread_grabs:
  assumes "cache_ok p H s" "\<And>b. b \<in> H \<Longrightarrow> b_blockno (buf_at b s) \<noteq> bno" "bno < FSSIZE"
    and "bno \<in> pinned s \<or> card H + card (pinned s) < NBUF"
  shows "wpk (bread 1 bno) (\<lambda>b s'. b < NBUF \<and> b \<notin> H \<and> may_take bno b s \<and> grabbed b (read_buf bno s) p s s') s"
proof -
  from bget_ok [OF assms(1,2,4)] obtain b where b: "b < NBUF" "b \<notin> H" "may_take bno b s"
    and g: "bget 1 bno s = Ok (b, set_sleeplock (BufLock b) True (pid (ptable s ! p)) (upd_buf b (\<lambda>_. got_buf bno b s) s))"
    by blast
  let ?s = "set_sleeplock (BufLock b) True (pid (ptable s ! p)) (upd_buf b (\<lambda>_. got_buf bno b s) s)"
  note c = cache_okD [OF assms(1)]
  have k: "buf_at b ?s = got_buf bno b s" using b(1) c(3) by (simp add: buf_at_upd_buf)
  have lk: "sleeplks ?s = (sleeplks s)(BufLock b := \<lparr>slocked = True, spid = pid (ptable s ! p)\<rparr>)" by auto
  have sp: "same_procs s ?s" by (simp add: same_procs_def)
  show ?thesis
  proof (cases "b_valid (got_buf bno b s)")
    case True
    then have "got_buf bno b s = read_buf bno s" by (rule got_buf_valid [OF assms(1) b])
    then have "grabbed b (read_buf bno s) p s ?s"
      using c(1,2) lk sp by (simp add: grabbed_def ide_ready_def)
    then show ?thesis using True g k b
      by (simp add: wpk_def bread_def bindk_def thenk_def getk_def retk_def)
  next
    case False
    note i = got_buf_invalid [OF assms(1) b False]
    have "wants_sync b p ?s" using c(1,3) b(1) k False by (simp add: wants_sync_def sheld_def)
    moreover have "ide_ready ?s" using c(2) by (simp add: ide_ready_def)
    moreover have "b_blockno (buf_at b ?s) < FSSIZE" using assms(3) k by (simp add: got_buf_def holds_block_def)
    ultimately have "wpk (iderw b) (\<lambda>_ s'. synced b p ?s s' \<and> ide_ready s') ?s" by (rule idedrv.rw_syncs)
    then obtain s' where s': "iderw b ?s = Ok ((), s')" "synced b p ?s s'" "ide_ready s'" by (auto elim: wpkE)
    have "bufs (bcache s') = (bufs (bcache s))[b := read_buf bno s]"
      using s'(2) k i b(1) c(3) by (simp add: synced_def)
    then have "grabbed b (read_buf bno s) p s s'"
      using s'(2,3) lk k i(2) by (auto simp: grabbed_def synced_def same_procs_def)
    then show ?thesis using False g k b s'(1)
      by (simp add: wpk_def bread_def bindk_def thenk_def getk_def retk_def)
  qed
qed


text \<open>A step that leaves the blocks, the pinned set, the journal and the layers above alone.\<close>

definition same_blocks :: "'a dk_scheme \<Rightarrow> 'a dk_scheme \<Rightarrow> bool" where
  "same_blocks s s' \<longleftrightarrow> cview s' = cview s \<and> pinned s' = pinned s \<and> medium0 (ide s') = medium0 (ide s) \<and>
     written (ide s') = written (ide s) \<and> dk.more s' = dk.more s"

lemma bread_spec:
  assumes "cache_ok p H s" "\<And>b. b \<in> H \<Longrightarrow> b_blockno (buf_at b s) \<noteq> bno" "bno < FSSIZE"
    and "bno \<in> pinned s \<or> card H + card (pinned s) < NBUF"
  shows "wpk (bread 1 bno) (\<lambda>b s'. b \<notin> H \<and> cache_ok p (insert b H) s' \<and> buf_at b s' = read_buf bno s \<and>
    (\<forall>c\<in>H. buf_at c s' = buf_at c s) \<and> same_blocks s s') s"
proof (rule wpk_mono [OF bread_grabs [OF assms]])
  fix b s'
  assume a: "b < NBUF \<and> b \<notin> H \<and> may_take bno b s \<and> grabbed b (read_buf bno s) p s s'"
  then have g: "grabbed b (read_buf bno s) p s s'" and b: "b < NBUF" "may_take bno b s" "b \<notin> H" by simp_all
  note c = grabbed_cache_ok [OF g assms(1) b] and d = grabbedD [OF g assms(1) b(1)]
  have "cview s' = cview s" using grabbed_cview [OF g assms(1) b] by blast
  moreover have "pinned s' = pinned s" by (rule grabbed_pinned [OF g assms(1) b(1,2)])
  moreover have "\<forall>c\<in>H. buf_at c s' = buf_at c s" using d(2) b(3) by metis
  ultimately show "b \<notin> H \<and> cache_ok p (insert b H) s' \<and> buf_at b s' = read_buf bno s \<and>
      (\<forall>c\<in>H. buf_at c s' = buf_at c s) \<and> same_blocks s s'"
    using b c d(1) g by (simp add: same_blocks_def grabbed_def)
qed

section \<open>Changing and releasing a buffer\<close>

lemma held_buf:
  assumes "cache_ok p H s" "b \<in> H"
  shows "b < NBUF" "b_dev (buf_at b s) = 1" "b_valid (buf_at b s)" "b_refcnt (buf_at b s) = 1" "sheld (BufLock b) p s"
    "holds_block (b_blockno (buf_at b s)) b s" "cview s (b_blockno (buf_at b s)) = b_data (buf_at b s)"
    "length (b_data (buf_at b s)) = BSIZE"
proof -
  show b: "b < NBUF" using assms by (auto simp: cache_ok_def)
  then show k: "b_dev (buf_at b s) = 1" "b_valid (buf_at b s)" "b_refcnt (buf_at b s) = 1" "sheld (BufLock b) p s"
    "length (b_data (buf_at b s)) = BSIZE"
    using cache_okD(6) [OF assms(1)] assms(2) by (auto simp: buf_ok_def Let_def)
  show h: "holds_block (b_blockno (buf_at b s)) b s" using b k(1) by (simp add: holds_block_def)
  show "cview s (b_blockno (buf_at b s)) = b_data (buf_at b s)" by (rule cview_holds [OF assms(1) h k(2)])
qed

text \<open>The contents of a locked buffer change, and with them perhaps its block on the medium.\<close>

definition touched_buf :: "nat \<Rightarrow> buf \<Rightarrow> nat \<Rightarrow> 'a dk_scheme \<Rightarrow> 'a dk_scheme \<Rightarrow> bool" where
  "touched_buf b k p s s' \<longleftrightarrow>
     running p s' \<and> ide_ready s' \<and> same_procs s s' \<and> sleeplks s' = sleeplks s \<and> dk.more s' = dk.more s \<and>
     lru (bcache s') = lru (bcache s) \<and> bufs (bcache s') = (bufs (bcache s))[b := k] \<and>
     b_dev k = 1 \<and> b_blockno k = b_blockno (buf_at b s) \<and> b_valid k \<and> b_refcnt k = 1 \<and> length (b_data k) = BSIZE \<and>
     (\<forall>d n. (d, n) \<noteq> (True, b_blockno (buf_at b s)) \<longrightarrow> medium (ide s') (d, n) = medium (ide s) (d, n)) \<and>
     length (medium (ide s') (True, b_blockno (buf_at b s))) = BSIZE"

lemma touched_buf_at:
  assumes "touched_buf b k p s s'" "cache_ok p H s" "b \<in> H"
  shows "buf_at b s' = k" "c \<noteq> b \<Longrightarrow> buf_at c s' = buf_at c s" "holds_block n c s' = holds_block n c s"
    "sheld (BufLock c) p s' = sheld (BufLock c) p s"
proof -
  note h = held_buf [OF assms(2,3)]
  have kb: "b_blockno k = b_blockno (buf_at b s)" "b_dev k = 1" "same_procs s s'"
    using assms(1) by (simp_all add: touched_buf_def)
  have "pid (ptable s' ! p) = pid (ptable s ! p)"
    using cache_okD(1) [OF assms(2)] same_procs_pid [OF kb(3)] by (simp add: running_def)
  then show "sheld (BufLock c) p s' = sheld (BufLock c) p s" using assms(1) by (simp add: touched_buf_def sheld_def)
  show k: "buf_at b s' = k" and o: "c \<noteq> b \<Longrightarrow> buf_at c s' = buf_at c s" for c
    using assms(1,2) h(1) by (simp_all add: touched_buf_def buf_at_def cache_ok_def)
  show "holds_block n c s' = holds_block n c s"
    using k o [of c] h(2) kb by (cases "c = b") (simp_all add: holds_block_def)
qed

lemma touched_buf_ok:
  assumes "touched_buf b k p s s'" "cache_ok p H s" "b \<in> H"
  shows "cache_ok p H s'"
proof -
  note t = touched_buf_at [OF assms] and h = held_buf [OF assms(2,3)]
  have mo: "n \<noteq> b_blockno (buf_at b s) \<Longrightarrow> medium (ide s') (True, n) = medium (ide s) (True, n)" for n
    using assms(1) by (simp add: touched_buf_def)
  have lk: "sleeplks s' = sleeplks s" and kb: "b_blockno k = b_blockno (buf_at b s)" "b_dev k = 1" "b_valid k"
      "b_refcnt k = 1" "length (b_data k) = BSIZE"
    using assms(1) by (simp_all add: touched_buf_def)
  have "buf_ok p H b s'" using t(1,4) h(5) kb assms(3) by (simp add: buf_ok_def)
  moreover have "buf_ok p H c s'" if c: "c < NBUF" "c \<noteq> b" for c
  proof -
    have "b_blockno (buf_at c s) \<noteq> b_blockno (buf_at b s) \<or> b_dev (buf_at c s) \<noteq> 1"
      using c h(6) cache_okD(7) [OF assms(2), of "b_blockno (buf_at b s)" c b] by (auto simp: holds_block_def)
    then show ?thesis
      using cache_okD(6) [OF assms(2) c(1)] t(2) [OF c(2)] t(4) [of c] lk mo [of "b_blockno (buf_at c s)"]
      by (auto simp: buf_ok_def Let_def)
  qed
  ultimately have "\<forall>c<NBUF. buf_ok p H c s'" by blast
  moreover have "\<forall>d n. length (medium (ide s') (d, n)) = BSIZE"
  proof (intro allI)
    fix d n
    have "length (medium (ide s') (True, b_blockno (buf_at b s))) = BSIZE"
      "(d, n) \<noteq> (True, b_blockno (buf_at b s)) \<Longrightarrow> medium (ide s') (d, n) = medium (ide s) (d, n)"
      using assms(1) by (simp_all add: touched_buf_def)
    then show "length (medium (ide s') (d, n)) = BSIZE"
      using cache_okD(8) [OF assms(2), of d n] by (cases "(d, n) = (True, b_blockno (buf_at b s))") simp_all
  qed
  moreover have "running p s'" "ide_ready s'" "lru (bcache s') = lru (bcache s)" "length (bufs (bcache s')) = length (bufs (bcache s))"
    using assms(1) by (simp_all add: touched_buf_def)
  moreover have "\<forall>c d n. holds_block n c s' \<longrightarrow> holds_block n d s' \<longrightarrow> c = d"
    using t(3) cache_okD(7) [OF assms(2)] by blast
  moreover have "distinct (lru (bcache s))" using assms(2) by (simp add: cache_ok_def)
  ultimately show ?thesis
    unfolding cache_ok_def using cache_okD(3,4,9) [OF assms(2)] by (intro conjI) (assumption | simp only:)+
qed

lemma touched_buf_view:
  assumes "touched_buf b k p s s'" "cache_ok p H s" "b \<in> H"
  shows "cview s' = (cview s)(b_blockno (buf_at b s) := b_data k)"
    "pinned s' = (if b_dirty k then insert (b_blockno (buf_at b s)) (pinned s) else pinned s - {b_blockno (buf_at b s)})"
proof -
  note t = touched_buf_at [OF assms] and h = held_buf [OF assms(2,3)] and c = touched_buf_ok [OF assms]
  have k: "b_blockno k = b_blockno (buf_at b s)" "b_valid k" using assms(1) by (simp_all add: touched_buf_def)
  have own: "c = b" if "holds_block (b_blockno (buf_at b s)) c s" for c
    by (rule cache_okD(7) [OF assms(2) that h(6)])
  show "cview s' = (cview s)(b_blockno (buf_at b s) := b_data k)"
  proof
    fix n
    show "cview s' n = ((cview s)(b_blockno (buf_at b s) := b_data k)) n"
    proof (cases "n = b_blockno (buf_at b s)")
      case True
      then show ?thesis using cview_holds [OF c, of n b] t(1) t(3) [of n b] h(6) k(2) by simp
    next
      case False
      have "cview s' n = cview s n"
      proof (rule cview_eqI [OF assms(2) c])
        fix d assume d: "holds_block n d s" "b_valid (buf_at d s)"
        with False have "d \<noteq> b" by (auto simp: holds_block_def)
        with d show "cview s' n = b_data (buf_at d s)" using cview_holds [OF c, of n d] t(2) [of d] t(3) [of n d] by simp
      next
        assume i: "\<And>d. holds_block n d s \<Longrightarrow> \<not> b_valid (buf_at d s)"
        have "\<not> b_valid (buf_at d s')" if "holds_block n d s'" for d
        proof -
          from that have hd: "holds_block n d s" using t(3) [of n d] by simp
          with False have "d \<noteq> b" by (auto simp: holds_block_def)
          with i [OF hd] t(2) [of d] show ?thesis by simp
        qed
        then have "cview s' n = medium (ide s') (True, n)" by (rule cview_invalid [OF c])
        then show "cview s' n = medium (ide s) (True, n)" using assms(1) False by (simp add: touched_buf_def)
      qed
      then show ?thesis using False by simp
    qed
  qed
  have p: "n \<in> pinned s' \<longleftrightarrow> (\<exists>c. holds_block n c s \<and> b_dirty (buf_at c s'))" for n
    by (simp add: pinned_def t(3))
  have q: "n \<in> pinned s' \<longleftrightarrow> (if n = b_blockno (buf_at b s) then b_dirty k else n \<in> pinned s)" for n
  proof (cases "n = b_blockno (buf_at b s)")
    case True
    with own h(6) have "(\<exists>c. holds_block n c s \<and> b_dirty (buf_at c s')) \<longleftrightarrow> b_dirty (buf_at b s')" by blast
    then show ?thesis using True p t(1) by simp
  next
    case False
    then have "\<not> holds_block n b s" by (auto simp: holds_block_def)
    then have "holds_block n c s \<Longrightarrow> buf_at c s' = buf_at c s" for c using t(2) [of c] by (cases "c = b") auto
    then have "(\<exists>c. holds_block n c s \<and> b_dirty (buf_at c s')) \<longleftrightarrow> n \<in> pinned s"
      unfolding pinned_def by auto
    then show ?thesis using False p by simp
  qed
  show "pinned s' = (if b_dirty k then insert (b_blockno (buf_at b s)) (pinned s) else pinned s - {b_blockno (buf_at b s)})"
  proof (rule set_eqI)
    fix n
    show "n \<in> pinned s' \<longleftrightarrow>
        n \<in> (if b_dirty k then insert (b_blockno (buf_at b s)) (pinned s) else pinned s - {b_blockno (buf_at b s)})"
      unfolding q [of n] by (cases "b_dirty k") auto
  qed
qed


text \<open>Filling a locked buffer.\<close>

lemma set_data_spec:
  assumes "cache_ok p H s" "b \<in> H" "length (f (b_data (buf_at b s))) = BSIZE"
  shows "wpk (set_data b f) (\<lambda>_ s'. cache_ok p H s' \<and> buf_at b s' = (buf_at b s)\<lparr>b_data := f (b_data (buf_at b s))\<rparr> \<and>
    (\<forall>c. c \<noteq> b \<longrightarrow> buf_at c s' = buf_at c s) \<and>
    cview s' = (cview s)(b_blockno (buf_at b s) := f (b_data (buf_at b s))) \<and> pinned s' = pinned s \<and>
    ide s' = ide s \<and> dk.more s' = dk.more s) s"
proof -
  let ?s = "upd_buf b (\<lambda>k. k\<lparr>b_data := f (b_data k)\<rparr>) s" let ?k = "(buf_at b s)\<lparr>b_data := f (b_data (buf_at b s))\<rparr>"
  note h = held_buf [OF assms(1,2)] and c = cache_okD [OF assms(1)]
  have "same_procs s ?s" by (simp add: same_procs_def)
  then have t: "touched_buf b ?k p s ?s"
    using h(2,3,4) c(1,2,8) assms(3) by (simp add: touched_buf_def ide_ready_def)
  have "b_blockno (buf_at b s) \<in> pinned s \<longleftrightarrow> b_dirty (buf_at b s)"
    using h(6) c(7) unfolding pinned_def by blast
  then have "pinned ?s = pinned s" using touched_buf_view(2) [OF t assms(1,2)] by auto
  then show ?thesis
    using touched_buf_ok [OF t assms(1,2)] touched_buf_view(1) [OF t assms(1,2)] touched_buf_at(1,2) [OF t assms(1,2)]
    by (simp add: set_data_def)
qed

text \<open>Writing a locked buffer to the disk: the block joins the journal and is no longer pinned.\<close>

lemma bwrite_spec:
  assumes "cache_ok p H s" "b \<in> H" "b_blockno (buf_at b s) < FSSIZE"
  shows "wpk (bwrite b) (\<lambda>_ s'. cache_ok p H s' \<and> buf_at b s' = (buf_at b s)\<lparr>b_dirty := False\<rparr> \<and>
    (\<forall>c. c \<noteq> b \<longrightarrow> buf_at c s' = buf_at c s) \<and> cview s' = cview s \<and>
    pinned s' = pinned s - {b_blockno (buf_at b s)} \<and> medium0 (ide s') = medium0 (ide s) \<and>
    written (ide s') = written (ide s) @ [((True, b_blockno (buf_at b s)), b_data (buf_at b s))] \<and>
    dk.more s' = dk.more s) s"
proof -
  let ?s = "upd_buf b (\<lambda>k. k\<lparr>b_dirty := True\<rparr>) s" let ?k = "(buf_at b s)\<lparr>b_dirty := False\<rparr>"
  note h = held_buf [OF assms(1,2)] and c = cache_okD [OF assms(1)]
  have k: "buf_at b ?s = (buf_at b s)\<lparr>b_dirty := True\<rparr>" using h(1) c(3) by (simp add: buf_at_upd_buf)
  have "wants_sync b p ?s" using c(1,3) h(1,5) k by (simp add: wants_sync_def)
  moreover have "ide_ready ?s" using c(2) by (simp add: ide_ready_def)
  moreover have "b_blockno (buf_at b ?s) < FSSIZE" using assms(3) k by simp
  ultimately have "wpk (iderw b) (\<lambda>_ s'. synced b p ?s s' \<and> ide_ready s') ?s" by (rule idedrv.rw_syncs)
  then obtain s' where s': "iderw b ?s = Ok ((), s')" "synced b p ?s s'" "ide_ready s'" by (auto elim: wpkE)
  have sec: "sector_of (buf_at b ?s) = (True, b_blockno (buf_at b s))" using k h(2) by (simp add: sector_of_def)
  have w: "written (ide s') = written (ide s) @ [((True, b_blockno (buf_at b s)), b_data (buf_at b s))]" "medium0 (ide s') = medium0 (ide s)"
    using s'(2) sec k by (simp_all add: synced_def)
  have m: "medium (ide s') = (medium (ide s))((True, b_blockno (buf_at b s)) := b_data (buf_at b s))"
    unfolding medium_def w by (rule apply_writes_snoc)
  have "synced_buf (ide ?s) (buf_at b ?s) = ?k" using k h(3) by (intro buf.equality) (simp_all add: synced_buf_def)
  then have "bufs (bcache s') = (bufs (bcache s))[b := ?k]" using s'(2) h(1) c(3) by (simp add: synced_def)
  then have t: "touched_buf b ?k p s s'"
    using s'(2,3) m h by (simp add: touched_buf_def synced_def same_procs_def)
  have "cview s' = cview s" using touched_buf_view(1) [OF t assms(1,2)] h(7) by auto
  moreover have "bwrite b s = Ok ((), s')"
    using c(1) h(5) s'(1) by (simp add: bwrite_def bindk_def thenk_def modk_def holdingsleep_ok)
  moreover have "dk.more s' = dk.more s" using s'(2) by (simp add: synced_def)
  ultimately show ?thesis
    using touched_buf_ok [OF t assms(1,2)] touched_buf_view(2) [OF t assms(1,2)] touched_buf_at(1,2) [OF t assms(1,2)] w
    by (simp add: wpk_def)
qed


text \<open>Giving a buffer back, once its data are on the medium or pinned.\<close>

lemma set_lru_simps [simp]:
  "running p (set_lru f s) = running p s" "ide (set_lru f s) = ide s" "sleeplks (set_lru f s) = sleeplks s"
  "ptable (set_lru f s) = ptable s" "bufs (bcache (set_lru f s)) = bufs (bcache s)" "settled (set_lru f s) = settled s"
  "lru (bcache (set_lru f s)) = f (lru (bcache s))" "dk.more (set_lru f s) = dk.more s" "buf_at b (set_lru f s) = buf_at b s"
  "set_lru f (acquired l s) = acquired l (set_lru f s)" "holds_block n b (set_lru f s) = holds_block n b s"
  by (simp_all add: set_lru_def running_def buf_at_def holds_block_def)

definition brelsed :: "nat \<Rightarrow> 'a dk_scheme \<Rightarrow> 'a dk_scheme" where
  "brelsed b s =
     set_lru (\<lambda>l. b # removeAll b l) (upd_buf b (\<lambda>k. k\<lparr>b_refcnt := 0\<rparr>)
       (wakeup1 (SleepLockChan (BufLock b)) (set_sleeplock (BufLock b) False 0 s)))"

lemma brelse_ok:
  assumes "cache_ok p H s" "b \<in> H"
  shows "brelse b s = Ok ((), brelsed b s)"
proof -
  note h = held_buf [OF assms] and c = cache_okD [OF assms(1)]
  let ?s = "wakeup1 (SleepLockChan (BufLock b)) (set_sleeplock (BufLock b) False 0 s)"
  have "upd_buf b (\<lambda>k. k\<lparr>b_refcnt := b_refcnt k - 1\<rparr>) ?s = upd_buf b (\<lambda>k. k\<lparr>b_refcnt := 0\<rparr>) ?s"
    using h(4) by (intro upd_buf_cong) simp
  then show ?thesis
    using c(1,3,5) h(1,5)
    by (simp add: brelse_def bindk_def thenk_def dok_def getk_def modk_def holdingsleep_ok releasesleep_ok settled_exec
        brelsed_def buf_at_upd_buf)
qed

lemma brelsed_at:
  assumes "cache_ok p H s" "b \<in> H"
  shows "buf_at c (brelsed b s) = (if c = b then (buf_at b s)\<lparr>b_refcnt := 0\<rparr> else buf_at c s)"
    "holds_block n c (brelsed b s) = holds_block n c s"
    "ide (brelsed b s) = ide s" "running p (brelsed b s)" "dk.more (brelsed b s) = dk.more s"
    "sleeplks (brelsed b s) = (sleeplks s)(BufLock b := \<lparr>slocked = False, spid = 0\<rparr>)"
    "c \<noteq> b \<Longrightarrow> sheld (BufLock c) p (brelsed b s) = sheld (BufLock c) p s"
proof -
  note h = held_buf [OF assms] and c = cache_okD [OF assms(1)]
  let ?s = "wakeup1 (SleepLockChan (BufLock b)) (set_sleeplock (BufLock b) False 0 s)"
  show k: "buf_at c (brelsed b s) = (if c = b then (buf_at b s)\<lparr>b_refcnt := 0\<rparr> else buf_at c s)" for c
    using h(1) c(3) by (simp add: brelsed_def buf_at_def)
  show "holds_block n c (brelsed b s) = holds_block n c s" using k [of c] by (simp add: holds_block_def)
  show "ide (brelsed b s) = ide s" "running p (brelsed b s)" "dk.more (brelsed b s) = dk.more s"
    using c(1) by (simp_all add: brelsed_def)
  show lk: "sleeplks (brelsed b s) = (sleeplks s)(BufLock b := \<lparr>slocked = False, spid = 0\<rparr>)"
    by (auto simp: brelsed_def)
  have "pid (ptable (brelsed b s) ! p) = pid (ptable s ! p)"
    using c(1) by (simp add: brelsed_def running_def)
  then show "c \<noteq> b \<Longrightarrow> sheld (BufLock c) p (brelsed b s) = sheld (BufLock c) p s" using lk by (simp add: sheld_def)
qed

lemma brelsed_ok:
  assumes "cache_ok p H s" "b \<in> H"
    and "b_dirty (buf_at b s) \<or> b_data (buf_at b s) = medium (ide s) (True, b_blockno (buf_at b s))"
  shows "cache_ok p (H - {b}) (brelsed b s)"
proof -
  note h = held_buf [OF assms(1,2)] and c = cache_okD [OF assms(1)] and r = brelsed_at [OF assms(1,2)]
  have "buf_ok p (H - {b}) b (brelsed b s)"
    using r(1) [of b] r(3,6) h(2,3,8) assms(3) by (auto simp: buf_ok_def Let_def)
  moreover have "buf_ok p (H - {b}) d (brelsed b s)" if "d < NBUF" "d \<noteq> b" for d
    using c(6) [OF that(1)] r(1) [of d] r(3,6) r(7) [OF that(2)] that(2) by (simp add: buf_ok_def Let_def)
  ultimately have "\<forall>d<NBUF. buf_ok p (H - {b}) d (brelsed b s)" by blast
  moreover have "distinct (lru (bcache (brelsed b s)))" "set (lru (bcache (brelsed b s))) = {..<NBUF}"
    using assms(1) h(1) by (auto simp: brelsed_def cache_ok_def distinct_removeAll)
  moreover have "length (bufs (bcache (brelsed b s))) = NBUF" using c(3) by (simp add: brelsed_def)
  moreover have "\<forall>d e n. holds_block n d (brelsed b s) \<longrightarrow> holds_block n e (brelsed b s) \<longrightarrow> d = e"
    using r(2) c(7) by blast
  moreover have "ide_ready (brelsed b s)" using c(2) r(3) by (simp add: ide_ready_def)
  moreover have "H - {b} \<subseteq> {..<NBUF}" using c(4) by blast
  moreover have "\<forall>d n. length (medium (ide (brelsed b s)) (d, n)) = BSIZE" using c(8) r(3) by simp
  ultimately show ?thesis unfolding cache_ok_def using r(4) by (intro conjI)
qed

lemma brelse_spec:
  assumes "cache_ok p H s" "b \<in> H"
    and "b_dirty (buf_at b s) \<or> b_data (buf_at b s) = medium (ide s) (True, b_blockno (buf_at b s))"
  shows "wpk (brelse b) (\<lambda>_ s'. cache_ok p (H - {b}) s' \<and> (\<forall>c. c \<noteq> b \<longrightarrow> buf_at c s' = buf_at c s) \<and> same_blocks s s' \<and> ide s' = ide s) s"
proof -
  note h = held_buf [OF assms(1,2)] and r = brelsed_at [OF assms(1,2)] and c = brelsed_ok [OF assms]
  have v: "b_valid (buf_at d (brelsed b s)) = b_valid (buf_at d s)" "b_data (buf_at d (brelsed b s)) = b_data (buf_at d s)"
    "b_dirty (buf_at d (brelsed b s)) = b_dirty (buf_at d s)" for d
    using r(1) [of d] by simp_all
  have "cview (brelsed b s) n = cview s n" for n
  proof (rule cview_eqI [OF assms(1) c])
    show "cview (brelsed b s) n = b_data (buf_at d s)" if "holds_block n d s" "b_valid (buf_at d s)" for d
      using cview_holds [OF c, of n d] that v r(2) by simp
    show "cview (brelsed b s) n = medium (ide s) (True, n)" if "\<And>d. holds_block n d s \<Longrightarrow> \<not> b_valid (buf_at d s)"
      using cview_invalid [OF c, of n] that v r(2,3) by simp
  qed
  moreover have "pinned (brelsed b s) = pinned s" by (simp add: pinned_def r(2) v)
  ultimately have "same_blocks s (brelsed b s)" using r(3,5) by (auto simp: same_blocks_def)
  then show ?thesis using brelse_ok [OF assms(1,2)] c r(1,3) by (simp add: wpk_def)
qed


section \<open>Blocks as a store\<close>

text \<open>How the layers above read a block, change one, and copy one to another.\<close>

definition read_block :: "u32 \<Rightarrow> ('a dk_scheme, block) kcode" where
  "read_block n =
     bindk (bread 1 n) (\<lambda>b.
     bindk (buf_data b) (\<lambda>d.
     thenk (brelse b)
     (retk d)))"

definition modify_block :: "u32 \<Rightarrow> (block \<Rightarrow> block) \<Rightarrow> ('a dk_scheme, unit) kcode" where
  "modify_block n f =
     bindk (bread 1 n) (\<lambda>b.
     thenk (set_data b f)
     (thenk (bwrite b)
     (brelse b)))"

text \<open>The effect of writing \<open>d\<close> to block \<open>n\<close>.\<close>

definition stored :: "u32 \<Rightarrow> block \<Rightarrow> 'a dk_scheme \<Rightarrow> 'a dk_scheme \<Rightarrow> bool" where
  "stored n d s s' \<longleftrightarrow> cview s' = (cview s)(n := d) \<and> pinned s' = pinned s - {n} \<and>
     medium0 (ide s') = medium0 (ide s) \<and> written (ide s') = written (ide s) @ [((True, n), d)] \<and> dk.more s' = dk.more s"

lemma medium_snoc:
  "medium0 d' = medium0 d \<Longrightarrow> written d' = written d @ [(k, v)] \<Longrightarrow> medium d' = (medium d)(k := v)"
  by (simp add: medium_def apply_writes_snoc)

lemma stored_medium: "stored n d s s' \<Longrightarrow> medium (ide s') = (medium (ide s))((True, n) := d)"
  unfolding stored_def by (blast intro: medium_snoc)

lemma cview_unpinned:
  assumes "cache_ok p H s" "n \<notin> pinned s" "\<And>b. b \<in> H \<Longrightarrow> b_blockno (buf_at b s) \<noteq> n"
  shows "cview s n = medium (ide s) (True, n)"
proof (cases "\<exists>b. holds_block n b s \<and> b_valid (buf_at b s)")
  case True
  then obtain b where b: "holds_block n b s" "b_valid (buf_at b s)" by blast
  then have "b < NBUF" "b_dev (buf_at b s) = 1" "b_blockno (buf_at b s) = n" by (simp_all add: holds_block_def)
  moreover have "\<not> b_dirty (buf_at b s)" using b(1) assms(2) by (auto simp: pinned_def)
  moreover have "b \<notin> H" using assms(3) calculation(3) by blast
  ultimately have "b_data (buf_at b s) = medium (ide s) (True, n)"
    using cache_okD(6) [OF assms(1)] b(2) by (auto simp: buf_ok_def Let_def)
  then show ?thesis using cview_holds [OF assms(1) b] by simp
next
  case False
  then show ?thesis by (intro cview_invalid [OF assms(1)]) blast
qed

lemma same_blocksD:
  assumes "same_blocks s s'"
  shows "cview s' = cview s" "pinned s' = pinned s" "medium (ide s') = medium (ide s)" "medium0 (ide s') = medium0 (ide s)"
    "written (ide s') = written (ide s)" "dk.more s' = dk.more s"
  using assms by (simp_all add: same_blocks_def medium_def)

lemma read_block_spec:
  assumes "cache_ok p {} s" "n < FSSIZE" "n \<in> pinned s \<or> card (pinned s) < NBUF"
  shows "wpk (read_block n) (\<lambda>d s'. d = cview s n \<and> cache_ok p {} s' \<and> same_blocks s s') s"
proof -
  have "wpk (bread 1 n) (\<lambda>b s1. b \<notin> {} \<and> cache_ok p (insert b {}) s1 \<and> buf_at b s1 = read_buf n s \<and>
      (\<forall>c\<in>{}. buf_at c s1 = buf_at c s) \<and> same_blocks s s1) s"
    using assms by (intro bread_spec) auto
  then show ?thesis
    unfolding read_block_def wpk_bindk
  proof (rule wpk_mono)
    fix b s1
    assume a: "b \<notin> {} \<and> cache_ok p (insert b {}) s1 \<and> buf_at b s1 = read_buf n s \<and>
      (\<forall>c\<in>{}. buf_at c s1 = buf_at c s) \<and> same_blocks s s1"
    then have c: "cache_ok p {b} s1" and k: "buf_at b s1 = read_buf n s" and q: "same_blocks s s1" by simp_all
    have "b_dirty (buf_at b s1) \<or> b_data (buf_at b s1) = medium (ide s1) (True, b_blockno (buf_at b s1))"
      using cview_unpinned [OF assms(1), of n] same_blocksD [OF q] k by (auto simp: read_buf_def)
    then have "wpk (brelse b) (\<lambda>_ s'. cache_ok p ({b} - {b}) s' \<and> (\<forall>c. c \<noteq> b \<longrightarrow> buf_at c s' = buf_at c s1) \<and>
        same_blocks s1 s' \<and> ide s' = ide s1) s1"
      by (intro brelse_spec [OF c]) simp_all
    then show "wpk (buf_data b) (\<lambda>d. wpk (thenk (brelse b) (retk d)) (\<lambda>d s'. d = cview s n \<and> cache_ok p {} s' \<and> same_blocks s s')) s1"
      using k q by (auto simp: buf_data_def read_buf_def same_blocks_def elim!: wpk_mono)
  qed
qed


text \<open>The same rules in forward form, for the longer sequences.\<close>

lemma bread_run:
  assumes "cache_ok p H s" "\<And>b. b \<in> H \<Longrightarrow> b_blockno (buf_at b s) \<noteq> n" "n < FSSIZE"
    and "n \<in> pinned s \<or> card H + card (pinned s) < NBUF"
  obtains b s' where "bread 1 n s = Ok (b, s')" "b \<notin> H" "cache_ok p (insert b H) s'" "buf_at b s' = read_buf n s"
    "\<And>c. c \<in> H \<Longrightarrow> buf_at c s' = buf_at c s" "same_blocks s s'"
  using bread_spec [OF assms] by (auto elim!: wpkE)

lemma set_data_run:
  assumes "cache_ok p H s" "b \<in> H" "length (f (b_data (buf_at b s))) = BSIZE"
  obtains s' where "set_data b f s = Ok ((), s')" "cache_ok p H s'" "buf_at b s' = (buf_at b s)\<lparr>b_data := f (b_data (buf_at b s))\<rparr>"
    "\<And>c. c \<noteq> b \<Longrightarrow> buf_at c s' = buf_at c s" "cview s' = (cview s)(b_blockno (buf_at b s) := f (b_data (buf_at b s)))"
    "pinned s' = pinned s" "ide s' = ide s" "dk.more s' = dk.more s"
  using set_data_spec [where f = f, OF assms] by (auto elim!: wpkE)

lemma bwrite_run:
  assumes "cache_ok p H s" "b \<in> H" "b_blockno (buf_at b s) < FSSIZE"
  obtains s' where "bwrite b s = Ok ((), s')" "cache_ok p H s'" "buf_at b s' = (buf_at b s)\<lparr>b_dirty := False\<rparr>"
    "\<And>c. c \<noteq> b \<Longrightarrow> buf_at c s' = buf_at c s" "stored (b_blockno (buf_at b s)) (b_data (buf_at b s)) s s'"
proof -
  have "cview s = (cview s)(b_blockno (buf_at b s) := b_data (buf_at b s))" using held_buf(7) [OF assms(1,2)] by auto
  then show ?thesis using bwrite_spec [OF assms] that by (auto elim!: wpkE simp: stored_def)
qed

lemma brelse_run:
  assumes "cache_ok p H s" "b \<in> H"
    and "b_dirty (buf_at b s) \<or> b_data (buf_at b s) = medium (ide s) (True, b_blockno (buf_at b s))"
  obtains s' where "brelse b s = Ok ((), s')" "cache_ok p (H - {b}) s'" "\<And>c. c \<noteq> b \<Longrightarrow> buf_at c s' = buf_at c s" "same_blocks s s'"
  using brelse_spec [OF assms] by (auto elim!: wpkE)

text \<open>Changing one block: it is stored, and nothing else is.\<close>

lemma modify_block_spec:
  assumes "cache_ok p {} s" "n < FSSIZE" "n \<in> pinned s \<or> card (pinned s) < NBUF" "length (f (cview s n)) = BSIZE"
  shows "wpk (modify_block n f) (\<lambda>_ s'. cache_ok p {} s' \<and> stored n (f (cview s n)) s s') s"
proof -
  obtain b s1 where 1: "bread 1 n s = Ok (b, s1)" "cache_ok p {b} s1" "buf_at b s1 = read_buf n s" "same_blocks s s1"
    using bread_run [OF assms(1) _ assms(2), of thesis] assms(3) by force
  obtain s2 where 2: "set_data b f s1 = Ok ((), s2)" "cache_ok p {b} s2" "buf_at b s2 = (buf_at b s1)\<lparr>b_data := f (cview s n)\<rparr>"
    "cview s2 = (cview s1)(n := f (cview s n))" "pinned s2 = pinned s1" "ide s2 = ide s1" "dk.more s2 = dk.more s1"
    using set_data_run [OF 1(2), of b f thesis] assms(4) 1(3) by (force simp: read_buf_def)
  obtain s3 where 3: "bwrite b s2 = Ok ((), s3)" "cache_ok p {b} s3" "buf_at b s3 = (buf_at b s2)\<lparr>b_dirty := False\<rparr>"
    "stored n (f (cview s n)) s2 s3"
    using bwrite_run [OF 2(2), of b thesis] 2(3) 1(3) assms(2) by (force simp: read_buf_def)
  have "b_data (buf_at b s3) = medium (ide s3) (True, b_blockno (buf_at b s3))"
    using 3(3) 2(3) 1(3) stored_medium [OF 3(4)] by (simp add: read_buf_def)
  then obtain s4 where 4: "brelse b s3 = Ok ((), s4)" "cache_ok p {} s4" "same_blocks s3 s4"
    using brelse_run [OF 3(2), of b thesis] by force
  have "stored n (f (cview s n)) s s4"
    using 3(4) 1(4) 2(4-7) 4(3) by (simp add: stored_def same_blocks_def)
  then show ?thesis using 1(1) 2(1) 3(1) 4(1,2) by (simp add: wpk_def modify_block_def bindk_def thenk_def)
qed


text \<open>
  The two copying loops of the log lock a source and a destination, in either order, fill the
  destination from the source, write it, and release both, the source first.
\<close>

lemma copy_tail:
  assumes c: "cache_ok p {t, f} s" "t \<noteq> f" "b_blockno (buf_at t s) = n" "n < FSSIZE" "n \<noteq> m" "b_blockno (buf_at f s) = m"
    and d: "b_data (buf_at f s) = d" "m \<in> pinned s \<or> d = medium (ide s) (True, m)"
  shows "wpk (thenk (set_data t (\<lambda>_. d)) (thenk (bwrite t) (thenk (brelse f) (brelse t))))
    (\<lambda>_ s'. cache_ok p {} s' \<and> stored n d s s') s"
proof -
  have l: "length d = BSIZE" using held_buf(8) [OF c(1), of f] d(1) by simp
  obtain s1 where 1: "set_data t (\<lambda>_. d) s = Ok ((), s1)" "cache_ok p {t, f} s1" "buf_at t s1 = (buf_at t s)\<lparr>b_data := d\<rparr>"
    "buf_at f s1 = buf_at f s" "cview s1 = (cview s)(n := d)" "pinned s1 = pinned s" "ide s1 = ide s" "dk.more s1 = dk.more s"
    using set_data_run [OF c(1), of t "\<lambda>_. d" thesis] l c(2,3) by force
  obtain s2 where 2: "bwrite t s1 = Ok ((), s2)" "cache_ok p {t, f} s2" "buf_at t s2 = (buf_at t s1)\<lparr>b_dirty := False\<rparr>"
    "buf_at f s2 = buf_at f s1" "stored n d s1 s2"
    using bwrite_run [OF 1(2), of t thesis] 1(3) c(2,3,4) by force
  have md: "medium (ide s2) = (medium (ide s))((True, n) := d)" using stored_medium [OF 2(5)] 1(7) by simp
  have "b_dirty (buf_at f s) \<longleftrightarrow> m \<in> pinned s"
    using held_buf(6) [OF c(1), of f] cache_okD(7) [OF c(1)] c(6) unfolding pinned_def by auto
  then have "b_dirty (buf_at f s2) \<or> b_data (buf_at f s2) = medium (ide s2) (True, b_blockno (buf_at f s2))"
    using d 2(4) 1(4) md c(5,6) by auto
  then obtain s3 where 3: "brelse f s2 = Ok ((), s3)" "cache_ok p {t} s3" "buf_at t s3 = buf_at t s2" "same_blocks s2 s3"
    using brelse_run [OF 2(2), of f thesis] c(2) by (force simp: insert_Diff_if)
  have "b_data (buf_at t s3) = medium (ide s3) (True, b_blockno (buf_at t s3))"
    using 3(3) 2(3) 1(3) md c(3) same_blocksD(3) [OF 3(4)] by simp
  then obtain s4 where 4: "brelse t s3 = Ok ((), s4)" "cache_ok p {} s4" "same_blocks s3 s4"
    using brelse_run [OF 3(2), of t thesis] by force
  have "stored n d s s4" using 2(5) 1(5-8) 3(4) 4(3) by (simp add: stored_def same_blocks_def)
  then show ?thesis using 1(1) 2(1) 3(1) 4(1,2) by (simp add: wpk_def bindk_def thenk_def)
qed

lemma copy_to_from:
  assumes "cache_ok p {} s" "n < FSSIZE" "m < FSSIZE" "n \<noteq> m"
    and "card (pinned s) < NBUF" "m \<in> pinned s \<or> card (pinned s) + 1 < NBUF"
  shows "wpk (bindk (bread 1 n) (\<lambda>t. bindk (bread 1 m) (\<lambda>f. bindk (buf_data f) (\<lambda>d.
      thenk (set_data t (\<lambda>_. d)) (thenk (bwrite t) (thenk (brelse f) (brelse t)))))))
    (\<lambda>_ s'. cache_ok p {} s' \<and> stored n (cview s m) s s') s"
proof -
  obtain t s1 where 1: "bread 1 n s = Ok (t, s1)" "cache_ok p {t} s1" "buf_at t s1 = read_buf n s" "same_blocks s s1"
    using bread_run [OF assms(1) _ assms(2), of thesis] assms(5) by force
  obtain f s2 where 2: "bread 1 m s1 = Ok (f, s2)" "f \<noteq> t" "cache_ok p {t, f} s2" "buf_at f s2 = read_buf m s1"
    "buf_at t s2 = buf_at t s1" "same_blocks s1 s2"
    using bread_run [OF 1(2) _ assms(3), of thesis] 1(3,4) assms(4,6) same_blocksD(2) [OF 1(4)]
    by (force simp: read_buf_def insert_commute)
  have "m \<notin> pinned s \<Longrightarrow> cview s m = medium (ide s) (True, m)" by (rule cview_unpinned [OF assms(1)]) simp_all
  then have "wpk (thenk (set_data t (\<lambda>_. cview s m)) (thenk (bwrite t) (thenk (brelse f) (brelse t))))
      (\<lambda>_ s'. cache_ok p {} s' \<and> stored n (cview s m) s2 s') s2"
    using 2(2,4,5) 1(3) assms(2,4) same_blocksD [OF 1(4)] same_blocksD [OF 2(6)]
    by (intro copy_tail [OF 2(3)]) (auto simp: read_buf_def)
  moreover have "stored n (cview s m) s s'" if "stored n (cview s m) s2 s'" for s'
    using that 1(4) 2(6) by (simp add: stored_def same_blocks_def)
  moreover have "b_data (buf_at f s2) = cview s m" using 2(4) same_blocksD [OF 1(4)] by (simp add: read_buf_def)
  ultimately show ?thesis
    using 1(1) 2(1) by (simp add: wpk_def bindk_def buf_data_def getk_def) blast
qed

lemma copy_from_to:
  assumes "cache_ok p {} s" "n < FSSIZE" "m < FSSIZE" "n \<noteq> m"
    and "card (pinned s) < NBUF" "n \<in> pinned s \<or> card (pinned s) + 1 < NBUF"
  shows "wpk (bindk (bread 1 m) (\<lambda>f. bindk (bread 1 n) (\<lambda>t. bindk (buf_data f) (\<lambda>d.
      thenk (set_data t (\<lambda>_. d)) (thenk (bwrite t) (thenk (brelse f) (brelse t)))))))
    (\<lambda>_ s'. cache_ok p {} s' \<and> stored n (cview s m) s s') s"
proof -
  obtain f s1 where 1: "bread 1 m s = Ok (f, s1)" "cache_ok p {f} s1" "buf_at f s1 = read_buf m s" "same_blocks s s1"
    using bread_run [OF assms(1) _ assms(3), of thesis] assms(5) by force
  obtain t s2 where 2: "bread 1 n s1 = Ok (t, s2)" "t \<noteq> f" "cache_ok p {t, f} s2" "buf_at t s2 = read_buf n s1"
    "buf_at f s2 = buf_at f s1" "same_blocks s1 s2"
    using bread_run [OF 1(2) _ assms(2), of thesis] 1(3,4) assms(4,6) same_blocksD(2) [OF 1(4)] by (force simp: read_buf_def)
  have "m \<notin> pinned s \<Longrightarrow> cview s m = medium (ide s) (True, m)" by (rule cview_unpinned [OF assms(1)]) simp_all
  then have "wpk (thenk (set_data t (\<lambda>_. cview s m)) (thenk (bwrite t) (thenk (brelse f) (brelse t))))
      (\<lambda>_ s'. cache_ok p {} s' \<and> stored n (cview s m) s2 s') s2"
    using 2(2,4,5) 1(3) assms(2,4) same_blocksD [OF 1(4)] same_blocksD [OF 2(6)]
    by (intro copy_tail [OF 2(3)]) (auto simp: read_buf_def)
  moreover have "stored n (cview s m) s s'" if "stored n (cview s m) s2 s'" for s'
    using that 1(4) 2(6) by (simp add: stored_def same_blocks_def)
  moreover have "b_data (buf_at f s2) = cview s m" using 2(5) 1(3) by (simp add: read_buf_def)
  ultimately show ?thesis
    using 1(1) 2(1) by (simp add: wpk_def bindk_def buf_data_def getk_def) blast
qed


text \<open>
  What the layers above need of the cache: a store of blocks, in which reading returns what
  was written last and writing changes one block.
\<close>

locale block_store =
  fixes rd :: "u32 \<Rightarrow> ('s, block) kcode" and wr :: "u32 \<Rightarrow> (block \<Rightarrow> block) \<Rightarrow> ('s, unit) kcode"
    and sok :: "'s \<Rightarrow> bool" and view :: "'s \<Rightarrow> u32 \<Rightarrow> block" and on_disk :: "'s \<Rightarrow> u32 \<Rightarrow> block" and inside :: "u32 \<Rightarrow> bool"
  assumes rd_law: "sok s \<Longrightarrow> inside n \<Longrightarrow>
      wpk (rd n) (\<lambda>d s'. d = view s n \<and> sok s' \<and> view s' = view s \<and> on_disk s' = on_disk s) s"
    and wr_law: "sok s \<Longrightarrow> inside n \<Longrightarrow> length (f (view s n)) = BSIZE \<Longrightarrow>
      wpk (wr n f) (\<lambda>_ s'. sok s' \<and> view s' = (view s)(n := f (view s n)) \<and> on_disk s' = (on_disk s)(n := f (view s n))) s"
begin

lemma write_then_read:
  assumes "sok s" "inside n" "inside m" "length d = BSIZE"
  shows "wpk (thenk (wr n (\<lambda>_. d)) (rd m)) (\<lambda>e s'. e = (if m = n then d else view s m) \<and> sok s' \<and>
    on_disk s' = (on_disk s)(n := d)) s"
  unfolding wpk_thenk
proof (rule wpk_mono [OF wr_law])
  fix s1
  assume a: "sok s1 \<and> view s1 = (view s)(n := d) \<and> on_disk s1 = (on_disk s)(n := d)"
  then show "wpk (rd m) (\<lambda>e s'. e = (if m = n then d else view s m) \<and> sok s' \<and> on_disk s' = (on_disk s)(n := d)) s1"
    using rd_law [of s1 m] assms(3) by (auto elim!: wpk_mono)
qed (use assms in simp_all)

lemma overwrite:
  assumes "sok s" "inside n" "length d = BSIZE" "length e = BSIZE"
  shows "wpk (thenk (wr n (\<lambda>_. d)) (wr n (\<lambda>_. e))) (\<lambda>_ s'. sok s' \<and> view s' = (view s)(n := e)) s"
  unfolding wpk_thenk
proof (rule wpk_mono [OF wr_law])
  fix s1
  assume a: "sok s1 \<and> view s1 = (view s)(n := d) \<and> on_disk s1 = (on_disk s)(n := d)"
  then show "wpk (wr n (\<lambda>_. e)) (\<lambda>_ s'. sok s' \<and> view s' = (view s)(n := e)) s1"
    using wr_law [of s1 n "\<lambda>_. e"] assms(2,4) by (auto elim!: wpk_mono)
qed (use assms in simp_all)

end

definition disk_blocks :: "'a dk_scheme \<Rightarrow> u32 \<Rightarrow> block" where
  "disk_blocks s n = medium (ide s) (True, n)"

definition room_ok :: "nat \<Rightarrow> 'a dk_scheme \<Rightarrow> bool" where
  "room_ok p s \<longleftrightarrow> cache_ok p {} s \<and> card (pinned s) < NBUF"

lemma finite_pinned: "finite (pinned s)"
proof -
  have "pinned s \<subseteq> (\<lambda>b. b_blockno (buf_at b s)) ` {..<NBUF}" by (auto simp: pinned_def holds_block_def)
  then show ?thesis by (rule finite_subset) simp
qed

lemma stored_blocks:
  assumes "stored n d s s'"
  shows "disk_blocks s' = (disk_blocks s)(n := d)" "cview s' = (cview s)(n := d)" "pinned s' = pinned s - {n}"
proof -
  show "disk_blocks s' = (disk_blocks s)(n := d)"
    by (rule ext) (simp add: disk_blocks_def stored_medium [OF assms])
qed (use assms in \<open>simp_all only: stored_def\<close>)

interpretation bcstore: block_store read_block modify_block "room_ok p" cview disk_blocks "\<lambda>n. n < FSSIZE"
proof
  fix s :: "'a dk_scheme" and n and f :: "block \<Rightarrow> block"
  assume a: "room_ok p s" "n < FSSIZE"
  then show "wpk (read_block n) (\<lambda>d s'. d = cview s n \<and> room_ok p s' \<and> cview s' = cview s \<and> disk_blocks s' = disk_blocks s) s"
    using read_block_spec [of p s n] by (auto simp: room_ok_def disk_blocks_def fun_eq_iff dest: same_blocksD elim!: wpk_mono)
  assume l: "length (f (cview s n)) = BSIZE"
  have "card (pinned s - {n}) \<le> card (pinned s)" by (rule card_mono [OF finite_pinned]) blast
  then show "wpk (modify_block n f) (\<lambda>_ s'. room_ok p s' \<and> cview s' = (cview s)(n := f (cview s n)) \<and>
      disk_blocks s' = (disk_blocks s)(n := f (cview s n))) s"
    using a l modify_block_spec [of p s n f]
    by (auto simp: room_ok_def stored_blocks elim!: wpk_mono)
qed

lemma wpk_seq:
  "wpk (bindk m f) P = wpk m (\<lambda>x. wpk (f x) P)" "wpk (thenk m c) P = wpk m (\<lambda>_. wpk c P)"
  by (simp_all add: fun_eq_iff)

text \<open>
  C31: The buffer cache is a store of blocks: on a cache in order with room for one more
  buffer, reading block \<open>n\<close>, overwriting it with \<open>d\<close>, \<open>bwrite\<close> and \<open>brelse\<close>, followed by
  reading block \<open>m\<close>, does not panic or block for ever and gives \<open>d\<close> when \<open>m = n\<close> and the
  cached or stored contents of \<open>m\<close> otherwise; the disk changes in block \<open>n\<close> only, and the
  cache is in order again.
\<close>

theorem bcache_is_store:
  assumes "cache_ok p {} s" "card (pinned s) < NBUF" "n < FSSIZE" "m < FSSIZE" "length d = BSIZE"
  shows "\<exists>s'. bindk (bread 1 n) (\<lambda>b. thenk (set_data b (\<lambda>_. d)) (thenk (bwrite b) (thenk (brelse b)
      (bindk (bread 1 m) (\<lambda>c. bindk (buf_data c) (\<lambda>e. thenk (brelse c) (retk e))))))) s
      = Ok (if m = n then d else cview s m, s') \<and>
    cache_ok p {} s' \<and> (\<forall>k. medium (ide s') (True, k) = (if k = n then d else medium (ide s) (True, k)))"
proof -
  have "wpk (thenk (modify_block n (\<lambda>_. d)) (read_block m))
    (\<lambda>e s'. e = (if m = n then d else cview s m) \<and> room_ok p s' \<and> disk_blocks s' = (disk_blocks s)(n := d)) s"
    using assms by (intro bcstore.write_then_read) (simp_all add: room_ok_def)
  then have "wpk (bindk (bread 1 n) (\<lambda>b. thenk (set_data b (\<lambda>_. d)) (thenk (bwrite b) (thenk (brelse b)
      (bindk (bread 1 m) (\<lambda>c. bindk (buf_data c) (\<lambda>e. thenk (brelse c) (retk e))))))))
    (\<lambda>e s'. e = (if m = n then d else cview s m) \<and> room_ok p s' \<and> disk_blocks s' = (disk_blocks s)(n := d)) s"
    by (simp only: modify_block_def read_block_def wpk_seq)
  moreover have "\<forall>k. medium (ide s') (True, k) = (if k = n then d else medium (ide s) (True, k))"
    if "disk_blocks s' = (disk_blocks s)(n := d)" for s'
    using fun_cong [OF that] by (simp add: disk_blocks_def)
  ultimately show ?thesis unfolding room_ok_def by (elim wpkE) blast
qed

lemma kernel0_disk [simp]:
  "b < NBUF \<Longrightarrow> buf_at b kernel0 = no_buf" "ide_ready kernel0" "medium (ide kernel0) k = replicate BSIZE 0"
  "bcache kernel0 = \<lparr>bufs = replicate NBUF no_buf, lru = [0..<NBUF]\<rparr>" "sleeplks kernel0 l = \<lparr>slocked = False, spid = 0\<rparr>"
  by (simp_all add: kernel0_def buf_at_def ide_ready_def medium_def)

lemma kernel0_holds_block [simp]: "\<not> holds_block n b kernel0"
  by (cases "b < NBUF") (auto simp: holds_block_def no_buf_def)

lemma kernel0_cache_ok [simp]: "cache_ok 0 {} kernel0"
  by (auto simp: cache_ok_def buf_ok_def Let_def no_buf_def)

lemma kernel0_pinned [simp]: "pinned kernel0 = {}"
  by (simp add: pinned_def)

theorem bcache_is_store_witness:
  "cache_ok 0 {} kernel0 \<and> card (pinned kernel0) < NBUF \<and>
   (\<exists>s'. bindk (bread 1 5) (\<lambda>b. thenk (set_data b (\<lambda>_. replicate BSIZE 7)) (thenk (bwrite b) (thenk (brelse b)
      (bindk (bread 1 5) (\<lambda>c. bindk (buf_data c) (\<lambda>e. thenk (brelse c) (retk e))))))) kernel0
      = Ok (replicate BSIZE 7, s') \<and>
    cache_ok 0 {} s' \<and> (\<forall>k. medium (ide s') (True, k) = (if k = 5 then replicate BSIZE 7 else medium (ide kernel0) (True, k))))"
  using bcache_is_store [of 0 kernel0 5 5 "replicate BSIZE 7"] by simp

end
