(* ===== verification/Log_Props.thy ===== *)
theory Log_Props
  imports Bio_Props
begin

text \<open>
  The write-ahead log: a disk with a log stands for the blocks that recovery makes of it,
  \<open>disk_view\<close>. Recovery computes this view, every write of recovery keeps it, and among the
  writes of a commit only that of the header changes it, from the blocks before the transaction
  to the blocks after it. So a crash at any moment leaves all of a transaction or nothing.
\<close>

section \<open>Words in blocks\<close>

lemma length_put32 [simp]: "length (put32 k w bs) = length bs"
  by (simp add: put32_def)

lemma get32_put32 [simp]: "k + 4 \<le> length bs \<Longrightarrow> get32 (put32 k w bs) k = w"
  by (simp add: get32_def put32_def bytes_of_word)

lemma get32_put32_other: "j + 4 \<le> k \<or> k + 4 \<le> j \<Longrightarrow> get32 (put32 k w bs) j = get32 bs j"
  by (auto simp: get32_def put32_def)

lemma length_put_blocks [simp]: "length (put_blocks k ws bs) = length bs"
  by (induction k ws bs rule: put_blocks.induct) simp_all

lemma get32_put_blocks_before: "j + 4 \<le> k \<Longrightarrow> get32 (put_blocks k ws bs) j = get32 bs j"
  by (induction k ws bs rule: put_blocks.induct) (simp_all add: get32_put32_other)

lemma get32_put_blocks:
  "i < length ws \<Longrightarrow> k + 4 * length ws \<le> length bs \<Longrightarrow> get32 (put_blocks k ws bs) (k + 4 * i) = ws ! i"
proof (induction k ws bs arbitrary: i rule: put_blocks.induct)
  case (2 k w ws bs)
  show ?case
  proof (cases i)
    case 0
    then show ?thesis using 2(3) by (simp add: get32_put_blocks_before)
  next
    case (Suc j)
    then show ?thesis using 2(1) [of j] 2(2,3) by (simp add: algebra_simps)
  qed
qed simp

section \<open>What a disk with a log stands for\<close>

definition log_block :: "u32 \<Rightarrow> nat \<Rightarrow> u32" where
  "log_block st i = st + word_of_nat i + 1"

definition log_area :: "u32 \<Rightarrow> u32 set" where
  "log_area st = {b. unat st \<le> unat b \<and> unat b < unat st + LOGSIZE}"

definition head_n :: "u32 \<Rightarrow> (u32 \<Rightarrow> block) \<Rightarrow> nat" where
  "head_n st M = nat (sint (get32 (M st) 0))"

definition head_blocks :: "u32 \<Rightarrow> (u32 \<Rightarrow> block) \<Rightarrow> u32 list" where
  "head_blocks st M = map (\<lambda>i. get32 (M st) (4 + 4 * i)) [0..<head_n st M]"

definition put_all :: "(u32 \<times> block) list \<Rightarrow> (u32 \<Rightarrow> block) \<Rightarrow> u32 \<Rightarrow> block" where
  "put_all ws M = fold (\<lambda>(n, d) M. M(n := d)) ws M"

definition disk_view :: "u32 \<Rightarrow> (u32 \<Rightarrow> block) \<Rightarrow> u32 \<Rightarrow> block" where
  "disk_view st M = put_all (map (\<lambda>i. (head_blocks st M ! i, M (log_block st i))) [0..<head_n st M]) M"

text \<open>The header on the disk is one that the kernel can work on.\<close>

definition head_ok :: "u32 \<Rightarrow> (u32 \<Rightarrow> block) \<Rightarrow> bool" where
  "head_ok st M \<longleftrightarrow> unat st + LOGSIZE \<le> unat FSSIZE \<and> 0 \<le> sint (get32 (M st) 0) \<and> head_n st M < LOGSIZE \<and>
     (\<forall>h\<in>set (head_blocks st M). h < FSSIZE \<and> h \<notin> log_area st)"

text \<open>Equal blocks outside the log.\<close>

definition eq_off :: "u32 \<Rightarrow> (u32 \<Rightarrow> block) \<Rightarrow> (u32 \<Rightarrow> block) \<Rightarrow> bool" where
  "eq_off st A B \<longleftrightarrow> (\<forall>b. b \<notin> log_area st \<longrightarrow> A b = B b)"

lemma put_all_simps [simp]:
  "put_all [] M = M" "put_all (w # ws) M = put_all ws (M(fst w := snd w))"
  "put_all (ws @ ws') M = put_all ws' (put_all ws M)"
  by (simp_all add: put_all_def split_def)

lemma put_all_other: "n \<notin> fst ` set ws \<Longrightarrow> put_all ws M n = M n"
  by (induction ws arbitrary: M) auto

lemma put_all_nth:
  "distinct (map fst ws) \<Longrightarrow> i < length ws \<Longrightarrow> put_all ws M (fst (ws ! i)) = snd (ws ! i)"
proof (induction ws arbitrary: i M)
  case (Cons w ws)
  then show ?case by (cases i) (auto simp: put_all_other)
qed simp

text \<open>The value of the last write to a block does not depend on the disk before.\<close>

lemma put_all_cong: "n \<in> fst ` set ws \<or> A n = B n \<Longrightarrow> put_all ws A n = put_all ws B n"
proof (induction ws arbitrary: A B)
  case (Cons w ws)
  have "n \<in> fst ` set ws \<or> (A(fst w := snd w)) n = (B(fst w := snd w)) n" using Cons.prems by auto
  then show ?case unfolding put_all_simps by (rule Cons.IH)
qed simp

lemma eq_off_trans: "eq_off st A B \<Longrightarrow> eq_off st B C \<Longrightarrow> eq_off st A C"
  by (simp add: eq_off_def)

lemma log_block_unat:
  assumes "unat st + LOGSIZE \<le> unat FSSIZE" "Suc i < LOGSIZE"
  shows "unat (log_block st i) = unat st + i + 1"
proof -
  have "unat st \<le> 970" using assms(1) by simp
  moreover have "log_block st i = word_of_nat (unat st + i + 1)" by (simp add: log_block_def)
  ultimately show ?thesis using assms(2) by (simp only: unat_of_nat) (simp add: take_bit_nat_eq_self)
qed

lemma log_block_inside:
  assumes "unat st + LOGSIZE \<le> unat FSSIZE" "Suc i < LOGSIZE"
  shows "log_block st i \<in> log_area st" "log_block st i < FSSIZE" "log_block st i \<noteq> st"
    "Suc j < LOGSIZE \<Longrightarrow> log_block st i = log_block st j \<longleftrightarrow> i = j"
proof -
  note u = log_block_unat [OF assms]
  show "log_block st i \<in> log_area st" using u assms(2) by (simp add: log_area_def)
  show "log_block st i < FSSIZE" using u assms by (simp add: word_less_nat_alt)
  show "log_block st i \<noteq> st"
  proof
    assume "log_block st i = st"
    then have "unat st = unat st + i + 1" using u by (simp only:)
    then show False by simp
  qed
  show "log_block st i = log_block st j \<longleftrightarrow> i = j" if "Suc j < LOGSIZE"
    using u log_block_unat [OF assms(1) that] by (metis add_left_cancel add_right_cancel)
qed

lemma start_in_area: "st \<in> log_area st"
  by (simp add: log_area_def)


section \<open>Sequences of writes\<close>

lemma bindk_Ok: "m s = Ok (x, s1) \<Longrightarrow> bindk m f s = f x s1"
  by (simp add: bindk_def)

text \<open>A part of the kernel that writes the blocks of a list in order.\<close>

definition wrote :: "(u32 \<times> block) list \<Rightarrow> 'a dk_scheme \<Rightarrow> 'a dk_scheme \<Rightarrow> bool" where
  "wrote ws s s' \<longleftrightarrow> cview s' = put_all ws (cview s) \<and> pinned s' = pinned s - fst ` set ws \<and>
     medium0 (ide s') = medium0 (ide s) \<and> written (ide s') = written (ide s) @ map (\<lambda>(n, d). ((True, n), d)) ws"

lemma wrote_Nil [simp]: "wrote [] s s"
  by (simp add: wrote_def)

lemma wrote_append: "wrote ws s s1 \<Longrightarrow> wrote ws' s1 s2 \<Longrightarrow> wrote (ws @ ws') s s2"
  unfolding wrote_def by (simp add: Diff_Un image_Un) blast

lemma stored_wrote: "stored n d s s' \<Longrightarrow> wrote [(n, d)] s s'"
  by (simp add: stored_def wrote_def)

lemma stored_wroteD: "stored n d s s' \<Longrightarrow> wrote [(n, d)] s s' \<and> dk.more s' = dk.more s"
  using stored_wrote by (simp add: stored_def)

lemma wrote_pinned:
  assumes "wrote ws s s'"
  shows "pinned s' = pinned s - fst ` set ws" "card (pinned s') \<le> card (pinned s)"
proof -
  show e: "pinned s' = pinned s - fst ` set ws" using assms unfolding wrote_def by blast
  show "card (pinned s') \<le> card (pinned s)" unfolding e by (rule card_mono [OF finite_pinned]) blast
qed

lemma apply_writes_blocks:
  "apply_writes (map (\<lambda>(n, d). ((True, n), d)) ws) m (True, b) = put_all ws (\<lambda>n. m (True, n)) b"
proof (induction ws arbitrary: m)
  case (Cons w ws)
  obtain n d where w: "w = (n, d)" by (cases w)
  have e: "(\<lambda>k. (m((True, n) := d)) (True, k)) = (\<lambda>k. m (True, k))(n := d)" by (simp add: fun_eq_iff)
  show ?case
    by (simp only: w list.map prod.case apply_writes.simps Cons.IH [of "m((True, n) := d)", unfolded e] put_all_simps
        fst_conv snd_conv)
qed simp

lemma wrote_blocks:
  assumes "wrote ws s s'"
  shows "disk_blocks s' = put_all ws (disk_blocks s)"
proof
  fix b
  have "medium (ide s') = apply_writes (map (\<lambda>(n, d). ((True, n), d)) ws) (medium (ide s))"
    using assms unfolding wrote_def medium_def by (simp add: apply_writes_append)
  then show "disk_blocks s' b = put_all ws (disk_blocks s) b"
    by (simp add: disk_blocks_def [abs_def] apply_writes_blocks)
qed

lemma dk_more_log: "dk.more s' = dk.more s \<Longrightarrow> log s' = log s \<and> lg.more s' = lg.more s"
  by (cases s, cases s') simp

text \<open>The log in memory is not looked at by the locks and the cache.\<close>

lemma mach_log [simp]:
  "cur (log_update f s) = cur s"
  "cpu_ok (log_update f s) = cpu_ok s"
  "readeflags (log_update f s) = readeflags s"
  "lock_free l (log_update f s) = lock_free l s"
  "held l (log_update f s) = held l s"
  "in_section (log_update f s) = in_section s"
  "curproc (log_update f s) = curproc s"
  "saved_intena (log_update f s) = saved_intena s"
  "settled (log_update f s) = settled s"
  "log_update f (acquired l s) = acquired l (log_update f s)"
  "log_update f (released l s) = released l (log_update f s)"
  "log_update f (touched s) = touched (log_update f s)"
  "log (acquired l s) = log s"
  "log (released l s) = log s"
  "log (touched s) = log s"
  by (simp_all add: lock_layer_defs settled_def)

lemma set_log_simps [simp]:
  "cache_ok p H (s\<lparr>log := l\<rparr>) = cache_ok p H s" "cview (s\<lparr>log := l\<rparr>) = cview s" "pinned (s\<lparr>log := l\<rparr>) = pinned s"
  "disk_blocks (s\<lparr>log := l\<rparr>) = disk_blocks s" "buf_at b (s\<lparr>log := l\<rparr>) = buf_at b s"
proof -
  show b: "buf_at b (s\<lparr>log := l\<rparr>) = buf_at b s" for b by (simp add: buf_at_def)
  have h: "holds_block n b (s\<lparr>log := l\<rparr>) = holds_block n b s" for n b by (simp add: holds_block_def b)
  show "pinned (s\<lparr>log := l\<rparr>) = pinned s" by (simp add: pinned_def h b)
  show "disk_blocks (s\<lparr>log := l\<rparr>) = disk_blocks s" by (simp add: disk_blocks_def fun_eq_iff)
  show "cview (s\<lparr>log := l\<rparr>) = cview s" by (simp add: cview_def fun_eq_iff bget_cached_def b split: option.split)
  have "running p (s\<lparr>log := l\<rparr>) = running p s" "ide_ready (s\<lparr>log := l\<rparr>) = ide_ready s"
    "sheld k p (s\<lparr>log := l\<rparr>) = sheld k p s" for k
    by (simp_all add: running_def ide_ready_def sheld_def)
  then show "cache_ok p H (s\<lparr>log := l\<rparr>) = cache_ok p H s" by (simp add: cache_ok_def buf_ok_def h b)
qed

lemma wrote_set_log [simp]: "wrote ws s (s'\<lparr>log := l\<rparr>) = wrote ws s s'" "wrote ws (s\<lparr>log := l\<rparr>) s' = wrote ws s s'"
  by (simp_all add: wrote_def)


section \<open>The steps of a commit\<close>

definition log_homes :: "'a lg_scheme \<Rightarrow> u32 list" where
  "log_homes s = take (nat (lh_n (l_lh (log s)))) (lh_block (l_lh (log s)))"

definition log_geom :: "'a lg_scheme \<Rightarrow> bool" where
  "log_geom s \<longleftrightarrow> l_dev (log s) = 1 \<and> unat (l_start (log s)) + LOGSIZE \<le> unat FSSIZE \<and>
     0 \<le> lh_n (l_lh (log s)) \<and> lh_n (l_lh (log s)) < int LOGSIZE \<and> length (lh_block (l_lh (log s))) = LOGSIZE \<and>
     (\<forall>h\<in>set (log_homes s). h < FSSIZE \<and> h \<notin> log_area (l_start (log s)))"

definition log_copies :: "'a lg_scheme \<Rightarrow> (u32 \<times> block) list" where
  "log_copies s = map (\<lambda>i. (log_block (l_start (log s)) i, cview s (log_homes s ! i))) [0..<length (log_homes s)]"

definition home_copies :: "'a lg_scheme \<Rightarrow> (u32 \<times> block) list" where
  "home_copies s = map (\<lambda>i. (log_homes s ! i, cview s (log_block (l_start (log s)) i))) [0..<length (log_homes s)]"

lemma log_geomD:
  assumes "log_geom s"
  shows "l_dev (log s) = 1" "unat (l_start (log s)) + LOGSIZE \<le> unat FSSIZE" "length (log_homes s) = nat (lh_n (l_lh (log s)))"
    "length (log_homes s) < LOGSIZE" "\<And>i. i < length (log_homes s) \<Longrightarrow> lh_block (l_lh (log s)) ! i = log_homes s ! i"
    "\<And>i. i < length (log_homes s) \<Longrightarrow> log_homes s ! i < FSSIZE"
    "\<And>i. i < length (log_homes s) \<Longrightarrow> log_homes s ! i \<notin> log_area (l_start (log s))"
    "l_start (log s) < FSSIZE" "int (length (log_homes s)) = lh_n (l_lh (log s))"
proof -
  show u: "unat (l_start (log s)) + LOGSIZE \<le> unat FSSIZE" using assms by (simp add: log_geom_def)
  then show "l_start (log s) < FSSIZE" by (simp add: word_less_nat_alt)
  have h: "h < FSSIZE \<and> h \<notin> log_area (l_start (log s))" if "h \<in> set (log_homes s)" for h
    using assms that unfolding log_geom_def by blast
  then show "log_homes s ! i < FSSIZE" "log_homes s ! i \<notin> log_area (l_start (log s))" if "i < length (log_homes s)" for i
    using that by simp_all
qed (use assms in \<open>auto simp: log_geom_def log_homes_def\<close>)

lemma pinned_room:
  assumes "wrote ws s s'" "n \<in> pinned s \<and> n \<notin> fst ` set ws \<or> card (pinned s) + 1 < NBUF"
  shows "n \<in> pinned s' \<or> card (pinned s') + 1 < NBUF"
  using wrote_pinned [OF assms(1)] assms(2) by auto

lemma upt_split:
  assumes "[0..<n] = ds @ i # is"
  shows "ds = [0..<i]" "i < n"
proof -
  have l: "length ds < n" using arg_cong [OF assms, of length] by simp
  have "[0..<n] ! length ds = i" unfolding assms by simp
  with l have i: "i = length ds" by simp
  show "ds = [0..<i]" using arg_cong [OF assms, of "take (length ds)"] l i by (simp add: take_upt)
  show "i < n" using l i by simp
qed

lemma copy_loop:
  assumes "cache_ok p {} s" "card (pinned s) < NBUF"
    and body: "\<And>i t. i < n \<Longrightarrow> cache_ok p {} t \<Longrightarrow> card (pinned t) < NBUF \<Longrightarrow> home i \<in> pinned t \<or> card (pinned t) + 1 < NBUF \<Longrightarrow>
      wpk (f i) (\<lambda>_ s'. cache_ok p {} s' \<and> stored (dst i) (cview t (src i)) t s') t"
    and apart: "\<And>i j. i < n \<Longrightarrow> j < n \<Longrightarrow> src i \<noteq> dst j"
    and room: "\<And>i. i < n \<Longrightarrow> home i \<in> pinned s \<and> (\<forall>j<i. home i \<noteq> dst j) \<or> card (pinned s) + 1 < NBUF"
  shows "wpk (foreachk f [0..<n]) (\<lambda>_ s'. cache_ok p {} s' \<and>
    wrote (map (\<lambda>i. (dst i, cview s (src i))) [0..<n]) s s' \<and> dk.more s' = dk.more s) s"
proof (rule wpk_foreachk [where I = "\<lambda>is t. cache_ok p {} t \<and> wrote (map (\<lambda>i. (dst i, cview s (src i))) is) s t \<and> dk.more t = dk.more s"])
  fix ds i "is" t
  let ?ws = "map (\<lambda>i. (dst i, cview s (src i))) ds"
  assume e: "[0..<n] = ds @ i # is" and I: "cache_ok p {} t \<and> wrote ?ws s t \<and> dk.more t = dk.more s"
  note d = upt_split [OF e]
  have fs: "fst ` set ?ws = dst ` {..<i}" by (simp add: d(1) image_image atLeast0LessThan)
  have "src i \<notin> dst ` {..<i}"
  proof
    assume "src i \<in> dst ` {..<i}"
    then obtain j where "src i = dst j" "j < i" by blast
    then show False using apart [OF d(2), of j] d(2) by simp
  qed
  then have "put_all ?ws (cview s) (src i) = cview s (src i)" using put_all_other [of "src i" ?ws "cview s"] unfolding fs by blast
  then have v: "cview t (src i) = cview s (src i)" using I unfolding wrote_def by metis
  have "home i \<in> pinned t \<or> card (pinned t) + 1 < NBUF"
    using pinned_room [of ?ws s t "home i"] I room [OF d(2)] unfolding fs by blast
  moreover have "card (pinned t) < NBUF" using wrote_pinned(2) [of ?ws s t] I assms(2) by linarith
  ultimately have "wpk (f i) (\<lambda>_ s'. cache_ok p {} s' \<and> stored (dst i) (cview t (src i)) t s') t"
    using body d(2) I by blast
  then show "wpk (f i) (\<lambda>_ s'. cache_ok p {} s' \<and> wrote (map (\<lambda>i. (dst i, cview s (src i))) (ds @ [i])) s s' \<and>
      dk.more s' = dk.more s) t"
  proof (rule wpk_mono)
    fix s'
    assume a: "cache_ok p {} s' \<and> stored (dst i) (cview t (src i)) t s'"
    then have "wrote [(dst i, cview s (src i))] t s'" by (simp only: v stored_wrote)
    then have "wrote (?ws @ [(dst i, cview s (src i))]) s s'" using I wrote_append by blast
    moreover have "dk.more s' = dk.more s" using a I unfolding stored_def by metis
    ultimately show "cache_ok p {} s' \<and> wrote (map (\<lambda>i. (dst i, cview s (src i))) (ds @ [i])) s s' \<and> dk.more s' = dk.more s"
      using a by simp
  qed
qed (use assms(1) in simp)

lemma write_log_spec:
  assumes "cache_ok p {} s" "log_geom s" "set (log_homes s) \<subseteq> pinned s" "card (pinned s) < NBUF"
  shows "wpk write_log (\<lambda>_ s'. cache_ok p {} s' \<and> wrote (log_copies s) s s' \<and> dk.more s' = dk.more s) s"
proof -
  note g = log_geomD [OF assms(2)]
  have n: "Suc i < LOGSIZE" if "i < length (log_homes s)" for i using that g(4) by simp
  note in_area = log_block_inside [OF g(2) n]
  show ?thesis unfolding write_log_def log_copies_def wpk_bindk wpk_getk g(1) g(3) [symmetric] log_block_def [symmetric]
  proof (rule copy_loop [where home = "\<lambda>i. log_homes s ! i"])
    fix i t
    assume a: "i < length (log_homes s)" "cache_ok p {} t" "card (pinned t) < NBUF"
      "log_homes s ! i \<in> pinned t \<or> card (pinned t) + 1 < NBUF"
    have "log_block (l_start (log s)) i \<noteq> log_homes s ! i" using g(7) in_area(1) a(1) by metis
    then show "wpk (bindk (bread 1 (log_block (l_start (log s)) i)) (\<lambda>to. bindk (bread 1 (lh_block (l_lh (log s)) ! i)) (\<lambda>from.
        bindk (buf_data from) (\<lambda>bs. thenk (set_data to (\<lambda>_. bs)) (thenk (bwrite to) (thenk (brelse from) (brelse to)))))))
      (\<lambda>_ s'. cache_ok p {} s' \<and> stored (log_block (l_start (log s)) i) (cview t (log_homes s ! i)) t s') t"
      unfolding g(5) [OF a(1)] by (intro copy_to_from a(2-4) in_area(2) g(6) a(1))
  next
    show "log_homes s ! i \<noteq> log_block (l_start (log s)) j" if "i < length (log_homes s)" "j < length (log_homes s)" for i j
      using g(7) in_area(1) that by metis
    then show "log_homes s ! i \<in> pinned s \<and> (\<forall>j<i. log_homes s ! i \<noteq> log_block (l_start (log s)) j) \<or> card (pinned s) + 1 < NBUF"
      if "i < length (log_homes s)" for i
      using that assms(3) by (meson nth_mem order.strict_trans subsetD)
  qed (rule assms)+
qed

lemma install_trans_spec:
  assumes "cache_ok p {} s" "log_geom s" "card (pinned s) < NBUF"
    and "distinct (log_homes s) \<and> set (log_homes s) \<subseteq> pinned s \<or> card (pinned s) + 1 < NBUF"
  shows "wpk install_trans (\<lambda>_ s'. cache_ok p {} s' \<and> wrote (home_copies s) s s' \<and> dk.more s' = dk.more s) s"
proof -
  note g = log_geomD [OF assms(2)]
  have n: "Suc i < LOGSIZE" if "i < length (log_homes s)" for i using that g(4) by simp
  note in_area = log_block_inside [OF g(2) n]
  show ?thesis unfolding install_trans_def home_copies_def wpk_bindk wpk_getk g(1) g(3) [symmetric] log_block_def [symmetric]
  proof (rule copy_loop [where home = "\<lambda>i. log_homes s ! i"])
    fix i t
    assume a: "i < length (log_homes s)" "cache_ok p {} t" "card (pinned t) < NBUF"
      "log_homes s ! i \<in> pinned t \<or> card (pinned t) + 1 < NBUF"
    have "log_homes s ! i \<noteq> log_block (l_start (log s)) i" using g(7) in_area(1) a(1) by metis
    then show "wpk (bindk (bread 1 (log_block (l_start (log s)) i)) (\<lambda>lbuf. bindk (bread 1 (lh_block (l_lh (log s)) ! i)) (\<lambda>dbuf.
        bindk (buf_data lbuf) (\<lambda>bs. thenk (set_data dbuf (\<lambda>_. bs)) (thenk (bwrite dbuf) (thenk (brelse lbuf) (brelse dbuf)))))))
      (\<lambda>_ s'. cache_ok p {} s' \<and> stored (log_homes s ! i) (cview t (log_block (l_start (log s)) i)) t s') t"
      unfolding g(5) [OF a(1)] by (intro copy_from_to a(2-4) in_area(2) g(6) a(1))
  next
    show "log_block (l_start (log s)) i \<noteq> log_homes s ! j" if "i < length (log_homes s)" "j < length (log_homes s)" for i j
      using g(7) in_area(1) that by metis
    show "log_homes s ! i \<in> pinned s \<and> (\<forall>j<i. log_homes s ! i \<noteq> log_homes s ! j) \<or> card (pinned s) + 1 < NBUF"
      if "i < length (log_homes s)" for i
      using that assms(4) by (metis nat_neq_iff nth_eq_iff_index_eq nth_mem order.strict_trans subsetD)
  qed (rule assms)+
qed


section \<open>Crashes\<close>

text \<open>
  The writes of a commit of the blocks \<open>hs\<close> with the contents \<open>V\<close>, over a header block \<open>h0\<close>,
  and those of a recovery.
\<close>

definition head_image :: "u32 list \<Rightarrow> block \<Rightarrow> block" where
  "head_image hs bs = put_blocks 4 hs (put32 0 (word_of_nat (length hs)) bs)"

definition commit_copies :: "u32 \<Rightarrow> u32 list \<Rightarrow> (u32 \<Rightarrow> block) \<Rightarrow> (u32 \<times> block) list" where
  "commit_copies st hs V = map (\<lambda>i. (log_block st i, V (hs ! i))) [0..<length hs]"

definition commit_writes :: "u32 \<Rightarrow> u32 list \<Rightarrow> (u32 \<Rightarrow> block) \<Rightarrow> block \<Rightarrow> (u32 \<times> block) list" where
  "commit_writes st hs V h0 =
     (if hs = [] then []
      else commit_copies st hs V @ [(st, head_image hs h0)] @ map (\<lambda>h. (h, V h)) hs @ [(st, head_image [] (head_image hs h0))])"

definition recovery_writes :: "u32 \<Rightarrow> (u32 \<Rightarrow> block) \<Rightarrow> (u32 \<times> block) list" where
  "recovery_writes st M =
     map (\<lambda>i. (head_blocks st M ! i, M (log_block st i))) [0..<head_n st M] @ [(st, head_image [] (M st))]"

lemma put_all_map: "put_all (map (\<lambda>h. (h, V h)) hs) A b = (if b \<in> set hs then V b else A b)"
  by (induction hs arbitrary: A) auto

lemma length_head_image [simp]: "length (head_image hs bs) = length bs"
  by (simp add: head_image_def)

lemma head_image_n:
  assumes "M st = head_image hs bs" "length bs = BSIZE" "length hs < LOGSIZE"
  shows "sint (get32 (M st) 0) = int (length hs)" "head_n st M = length hs" "head_blocks st M = hs"
proof -
  have w: "sint (word_of_nat (length hs) :: u32) = int (length hs)"
    using assms(3) by (simp add: signed_of_nat signed_take_bit_int_eq_self)
  show n: "sint (get32 (M st) 0) = int (length hs)"
    using w assms by (simp add: head_image_def get32_put_blocks_before)
  then show "head_n st M = length hs" by (simp add: head_n_def)
  then show "head_blocks st M = hs"
    using assms by (intro nth_equalityI) (simp_all add: head_blocks_def head_image_def get32_put_blocks)
qed

text \<open>Writes to blocks that the log holds do not change what the disk stands for.\<close>

lemma disk_view_homes:
  assumes "head_ok st M" "\<And>b. b \<notin> set (head_blocks st M) \<Longrightarrow> M' b = M b"
  shows "disk_view st M' = disk_view st M" "head_ok st M'" "head_n st M' = head_n st M" "head_blocks st M' = head_blocks st M"
proof -
  have area: "M' b = M b" if "b \<in> log_area st" for b
    using assms that unfolding head_ok_def by blast
  show n: "head_n st M' = head_n st M" "head_blocks st M' = head_blocks st M"
    using area [OF start_in_area] by (simp_all add: head_n_def head_blocks_def)
  have "M' (log_block st i) = M (log_block st i)" if "i < head_n st M" for i
    using assms(1) that by (intro area log_block_inside) (simp_all add: head_ok_def)
  then have ws: "map (\<lambda>i. (head_blocks st M' ! i, M' (log_block st i))) [0..<head_n st M'] =
      map (\<lambda>i. (head_blocks st M ! i, M (log_block st i))) [0..<head_n st M]" by (simp add: n)
  have "fst ` set (map (\<lambda>i. (head_blocks st M ! i, M (log_block st i))) [0..<head_n st M]) = set (head_blocks st M)"
    by (simp add: image_image head_blocks_def)
  then show "disk_view st M' = disk_view st M"
    unfolding disk_view_def ws using assms(2) by (intro ext put_all_cong) metis
  show "head_ok st M'" using assms(1) area [OF start_in_area] n by (simp add: head_ok_def)
qed


lemma commit_copies_keep:
  assumes "unat st + LOGSIZE \<le> unat FSSIZE" "length hs < LOGSIZE" "b \<notin> log_area st \<or> b = st"
  shows "put_all (take j (commit_copies st hs V)) M b = M b"
proof (rule put_all_other, rule notI)
  assume "b \<in> fst ` set (take j (commit_copies st hs V))"
  then obtain w where "w \<in> set (commit_copies st hs V)" "b = fst w" using in_set_takeD by fastforce
  then obtain i where "i < length hs" "b = log_block st i" by (auto simp: commit_copies_def)
  then show False using log_block_inside(1,3) [OF assms(1), of i] assms(2,3) by auto
qed

lemma commit_copies_nth:
  assumes "unat st + LOGSIZE \<le> unat FSSIZE" "length hs < LOGSIZE" "i < length hs"
  shows "put_all (commit_copies st hs V) M (log_block st i) = V (hs ! i)"
proof -
  have "inj_on (log_block st) {0..<length hs}"
    by (rule inj_onI) (use log_block_inside(4) [OF assms(1)] assms(2) in auto)
  then have "distinct (map fst (commit_copies st hs V))" by (simp add: commit_copies_def comp_def distinct_map)
  then show ?thesis using put_all_nth [of "commit_copies st hs V" i M] assms(3) by (simp add: commit_copies_def)
qed

text \<open>The disk right after the header has been written.\<close>

lemma committed_view:
  assumes "unat st + LOGSIZE \<le> unat FSSIZE" "length hs < LOGSIZE" "\<forall>h\<in>set hs. h < FSSIZE \<and> h \<notin> log_area st"
    and "length (M st) = BSIZE" "\<And>b. b \<notin> log_area st \<Longrightarrow> b \<notin> set hs \<Longrightarrow> V b = M b"
    and M1: "M1 = put_all (commit_copies st hs V @ [(st, head_image hs (M st))]) M"
  shows "head_ok st M1" "eq_off st (disk_view st M1) V" "head_blocks st M1 = hs" "eq_off st M1 M"
proof -
  have st: "M1 st = head_image hs (M st)" by (simp add: M1)
  note h = head_image_n [where M = M1 and st = st, OF st assms(4,2)]
  then show "head_ok st M1" "head_blocks st M1 = hs" using assms(1-3) by (simp_all add: head_ok_def)
  have "M1 (log_block st i) = V (hs ! i)" if "i < length hs" for i
    using commit_copies_nth [OF assms(1,2) that] log_block_inside(3) [OF assms(1), of i] that assms(2) by (simp add: M1)
  then have "map (\<lambda>i. (head_blocks st M1 ! i, M1 (log_block st i))) [0..<head_n st M1] = map (\<lambda>i. (hs ! i, V (hs ! i))) [0..<length hs]"
    by (simp add: h)
  also have "\<dots> = map (\<lambda>h. (h, V h)) hs" by (intro nth_equalityI) simp_all
  finally have v: "disk_view st M1 b = (if b \<in> set hs then V b else M1 b)" for b by (simp only: disk_view_def put_all_map)
  have "M1 b = M b" if "b \<notin> log_area st" for b
    using commit_copies_keep [OF assms(1,2), of b "length hs" V M] that start_in_area [of st] by (auto simp: M1 commit_copies_def)
  then show "eq_off st (disk_view st M1) V" "eq_off st M1 M" using assms(5) by (simp_all add: eq_off_def v)
qed

text \<open>A disk with an empty log stands for itself.\<close>

lemma cleared_view:
  assumes "unat st + LOGSIZE \<le> unat FSSIZE" "sint (get32 (M st) 0) = 0"
  shows "head_ok st M" "disk_view st M = M" "head_n st M = 0" "head_blocks st M = []"
  using assms by (simp_all add: head_n_def head_ok_def head_blocks_def disk_view_def)

lemma head_image_cleared: "length bs = BSIZE \<Longrightarrow> sint (get32 (head_image [] bs) 0) = 0"
  by (simp add: head_image_def)


text \<open>
  Whatever prefix of the writes of a commit reaches the disk, the disk stands for the old blocks
  up to the write of the header, and for the new ones from then on.
\<close>

lemma commit_prefix_view:
  assumes "unat st + LOGSIZE \<le> unat FSSIZE" "length hs < LOGSIZE" "\<forall>h\<in>set hs. h < FSSIZE \<and> h \<notin> log_area st"
    and "sint (get32 (M st) 0) = 0" "length (M st) = BSIZE" "\<And>b. b \<notin> log_area st \<Longrightarrow> b \<notin> set hs \<Longrightarrow> V b = M b"
    and M': "M' = put_all (take k (commit_writes st hs V (M st))) M"
  shows "head_ok st M' \<and> set (head_blocks st M') \<subseteq> set hs \<and> eq_off st (disk_view st M') (if k \<le> length hs then M else V)"
proof -
  let ?c = "commit_copies st hs V" and ?hd = "head_image hs (M st)" and ?in = "map (\<lambda>h. (h, V h)) hs"
  have lc: "length ?c = length hs" by (simp add: commit_copies_def)
  consider "k \<le> length hs" "hs \<noteq> []" | "hs = []" | "length hs < k" "k \<le> 2 * length hs + 1" "hs \<noteq> []" | "2 * length hs + 1 < k" "hs \<noteq> []"
    by linarith
  then show ?thesis
  proof cases
    case 1
    then have m: "M' = put_all (take k ?c) M" by (simp add: M' commit_writes_def lc)
    have keep: "b \<notin> log_area st \<or> b = st \<Longrightarrow> M' b = M b" for b unfolding m by (rule commit_copies_keep [OF assms(1,2)])
    then show ?thesis using cleared_view [OF assms(1), of M'] assms(4) 1 by (simp add: eq_off_def)
  next
    case 2
    then show ?thesis using cleared_view [where M = M, OF assms(1,4)] assms(6) by (simp add: eq_off_def M' commit_writes_def)
  next
    case 3
    define M1 where "M1 = put_all (?c @ [(st, ?hd)]) M"
    note c = committed_view [OF assms(1-3,5,6) M1_def]
    have "M' = put_all (take (k - length hs - 1) ?in) M1"
      using 3 by (cases "k - length hs") (simp_all add: M' M1_def commit_writes_def lc)
    then have "M' b = M1 b" if "b \<notin> set (head_blocks st M1)" for b
      using that c(3) in_set_takeD [of _ "k - length hs - 1" ?in] by (fastforce intro: put_all_other)
    note h = disk_view_homes [OF c(1) this]
    show ?thesis using h c(2,3) 3(1) by simp
  next
    case 4
    define M1 where "M1 = put_all (?c @ [(st, ?hd)]) M"
    have m: "M' = (put_all ?in M1)(st := head_image [] ?hd)" using 4 by (simp add: M' M1_def commit_writes_def lc)
    have "M' b = V b" if "b \<notin> log_area st" for b
      using committed_view(4) [OF assms(1-3,5,6) M1_def] assms(6) that start_in_area [of st] by (auto simp: m put_all_map eq_off_def)
    moreover have "sint (get32 (M' st) 0) = 0" using head_image_cleared [of ?hd] assms(5) by (simp add: m)
    ultimately show ?thesis using cleared_view [OF assms(1), of M'] 4 by (simp add: eq_off_def)
  qed
qed


text \<open>Recovery writes what the disk stands for, and can itself be cut off anywhere.\<close>

lemma recovery_prefix_view:
  assumes "head_ok st M" "length (M st) = BSIZE" and M': "M' = put_all (take k (recovery_writes st M)) M"
  shows "head_ok st M' \<and> set (head_blocks st M') \<subseteq> set (head_blocks st M) \<and> eq_off st (disk_view st M') (disk_view st M)"
    "length (recovery_writes st M) \<le> k \<Longrightarrow> head_n st M' = 0 \<and> eq_off st M' (disk_view st M)"
proof -
  let ?ws = "map (\<lambda>i. (head_blocks st M ! i, M (log_block st i))) [0..<head_n st M]"
  have end': "head_ok st M' \<and> set (head_blocks st M') \<subseteq> set (head_blocks st M) \<and> eq_off st (disk_view st M') (disk_view st M) \<and> head_n st M' = 0 \<and> eq_off st M' (disk_view st M)"
    if "head_n st M < k"
  proof -
    have m: "M' = (disk_view st M)(st := head_image [] (M st))"
      using that by (simp add: M' recovery_writes_def disk_view_def)
    then have "eq_off st M' (disk_view st M)" using start_in_area [of st] by (auto simp: eq_off_def)
    moreover have "sint (get32 (M' st) 0) = 0" using head_image_cleared [OF assms(2)] by (simp add: m)
    ultimately show ?thesis using cleared_view [of st M'] assms(1) by (simp add: head_ok_def)
  qed
  have "head_ok st M' \<and> set (head_blocks st M') \<subseteq> set (head_blocks st M) \<and> eq_off st (disk_view st M') (disk_view st M)" if "k \<le> head_n st M"
  proof -
    have m: "M' = put_all (take k ?ws) M" using that by (simp add: M' recovery_writes_def)
    have "fst ` set ?ws = set (head_blocks st M)" by (simp add: image_image head_blocks_def)
    moreover have "fst ` set (take k ?ws) \<subseteq> fst ` set ?ws" by (intro image_mono set_take_subset)
    ultimately have "fst ` set (take k ?ws) \<subseteq> set (head_blocks st M)" by (simp only:)
    then have "M' b = M b" if "b \<notin> set (head_blocks st M)" for b
      unfolding m using that by (intro put_all_other) blast
    then show ?thesis using disk_view_homes [OF assms(1), of M'] by (simp add: eq_off_def)
  qed
  then show "head_ok st M' \<and> set (head_blocks st M') \<subseteq> set (head_blocks st M) \<and> eq_off st (disk_view st M') (disk_view st M)"
    using end' by (meson not_le)
  show "head_n st M' = 0 \<and> eq_off st M' (disk_view st M)" if "length (recovery_writes st M) \<le> k"
    using end' that by (simp add: recovery_writes_def)
qed


section \<open>Commit and recovery\<close>

lemma write_head_spec:
  assumes "cache_ok p {} s" "log_geom s" "card (pinned s) < NBUF"
  shows "wpk write_head (\<lambda>_ s'. cache_ok p {} s' \<and>
    wrote [(l_start (log s), head_image (log_homes s) (cview s (l_start (log s))))] s s' \<and> dk.more s' = dk.more s) s"
proof -
  note g = log_geomD [OF assms(2)]
  have "word_of_int (lh_n (l_lh (log s))) = (word_of_nat (length (log_homes s)) :: u32)"
    using g(9) by (metis of_int_of_nat_eq)
  then have e: "write_head s = modify_block (l_start (log s)) (head_image (log_homes s)) s"
    by (simp add: write_head_def modify_block_def bindk_def getk_def g(1) head_image_def [abs_def] log_homes_def)
  have "length (cview s (l_start (log s))) = BSIZE" by (rule length_cview [OF assms(1)])
  then have "wpk (modify_block (l_start (log s)) (head_image (log_homes s)))
      (\<lambda>_ s'. cache_ok p {} s' \<and> stored (l_start (log s)) (head_image (log_homes s) (cview s (l_start (log s)))) s s') s"
    using assms(1,3) g(8) by (intro modify_block_spec) simp_all
  then show ?thesis unfolding wpk_def e using stored_wroteD by blast
qed

lemma dk_more_homes:
  assumes "dk.more s' = dk.more s"
  shows "log s' = log s" "lg.more s' = lg.more s" "log_homes s' = log_homes s" "log_geom s' = log_geom s"
  using dk_more_log [OF assms] by (simp_all add: log_homes_def log_geom_def)

definition log_cleared :: "log_state \<Rightarrow> log_state" where
  "log_cleared l = l\<lparr>l_lh := (l_lh l)\<lparr>lh_n := 0\<rparr>\<rparr>"

lemma log_cleared_start [simp]: "l_start (log_cleared l) = l_start l"
  by (simp add: log_cleared_def)

lemma cleared_homes:
  "log_homes (s\<lparr>log := log_cleared (log s)\<rparr>) = []" "log_geom s \<Longrightarrow> log_geom (s\<lparr>log := log_cleared (log s)\<rparr>)"
  by (simp_all add: log_homes_def log_geom_def log_cleared_def)

text \<open>The end of a commit and of a recovery: the header is written with a count of 0.\<close>

lemma clear_head_spec:
  assumes "cache_ok p {} s" "log_geom s" "card (pinned s) < NBUF"
  shows "wpk (thenk (set_log (\<lambda>l. l\<lparr>l_lh := (l_lh l)\<lparr>lh_n := 0\<rparr>\<rparr>)) write_head) (\<lambda>_ s'. cache_ok p {} s' \<and>
    wrote [(l_start (log s), head_image [] (cview s (l_start (log s))))] s s' \<and>
    log s' = log_cleared (log s) \<and> lg.more s' = lg.more s) s"
proof -
  let ?s = "s\<lparr>log := log_cleared (log s)\<rparr>"
  have "wpk write_head (\<lambda>_ s'. cache_ok p {} s' \<and>
      wrote [(l_start (log ?s), head_image (log_homes ?s) (cview ?s (l_start (log ?s))))] ?s s' \<and> dk.more s' = dk.more ?s) ?s"
    using assms cleared_homes(2) [OF assms(2)] by (intro write_head_spec) simp_all
  then have "wpk write_head (\<lambda>_ s'. cache_ok p {} s' \<and>
    wrote [(l_start (log s), head_image [] (cview s (l_start (log s))))] s s' \<and>
    log s' = log_cleared (log s) \<and> lg.more s' = lg.more s) ?s"
    by (rule wpk_mono) (auto simp: cleared_homes dest!: dk_more_log)
  then show ?thesis by (simp add: set_log_def log_cleared_def)
qed

lemma homes_not_in_area:
  assumes "log_geom s"
  shows "h \<in> set (log_homes s) \<Longrightarrow> h \<notin> log_area (l_start (log s))"
  using assms by (simp add: log_geom_def)

text \<open>Up to the write of the header, which is the commit point.\<close>

lemma commit_point_spec:
  assumes "cache_ok p {} s" "log_geom s" "set (log_homes s) \<subseteq> pinned s" "card (pinned s) < NBUF"
  shows "wpk (thenk write_log write_head) (\<lambda>_ s2. cache_ok p {} s2 \<and> dk.more s2 = dk.more s \<and> set (log_homes s) \<subseteq> pinned s2 \<and>
    wrote (commit_copies (l_start (log s)) (log_homes s) (cview s) @
      [(l_start (log s), head_image (log_homes s) (cview s (l_start (log s))))]) s s2) s"
proof -
  note g = log_geomD [OF assms(2)]
  let ?st = "l_start (log s)" and ?hs = "log_homes s" and ?V = "cview s"
  obtain s1 where 1: "write_log s = Ok ((), s1)" "cache_ok p {} s1" "wrote (log_copies s) s s1" "dk.more s1 = dk.more s"
    using write_log_spec [OF assms] by (auto elim!: wpkE)
  note m1 = dk_more_homes [OF 1(4)]
  have c1: "card (pinned s1) < NBUF" using wrote_pinned(2) [OF 1(3)] assms(4) by simp
  obtain s2 where 2: "write_head s1 = Ok ((), s2)" "cache_ok p {} s2" "wrote [(?st, head_image ?hs (cview s1 ?st))] s1 s2"
    "dk.more s2 = dk.more s1"
    using write_head_spec [OF 1(2) _ c1] assms(2) m1 by (auto elim!: wpkE)
  let ?ws = "commit_copies ?st ?hs ?V @ [(?st, head_image ?hs (?V ?st))]"
  have e1: "log_copies s = commit_copies ?st ?hs ?V" by (simp add: log_copies_def commit_copies_def)
  have "cview s1 ?st = ?V ?st"
    using 1(3) commit_copies_keep [OF g(2,4), of ?st "length ?hs" ?V ?V] unfolding wrote_def e1 by (simp add: commit_copies_def)
  then have w2: "wrote ?ws s s2" using 1(3) 2(3) unfolding e1 by (metis wrote_append)
  have off: "h \<notin> fst ` set ?ws" if "h \<in> set ?hs" for h
    using homes_not_in_area [OF assms(2) that] log_block_inside(1) [OF g(2)] g(4) start_in_area by (force simp: commit_copies_def)
  then have "set ?hs \<subseteq> pinned s2" using assms(3) wrote_pinned(1) [OF w2] by blast
  then show ?thesis using 1(1,4) 2(1,2,4) w2 by (simp add: wpk_def thenk_def bindk_def)
qed

lemma commit_spec:
  assumes "cache_ok p {} s" "log_geom s" "distinct (log_homes s)" "set (log_homes s) = pinned s"
  shows "wpk commit (\<lambda>_ s'. cache_ok p {} s' \<and>
    wrote (commit_writes (l_start (log s)) (log_homes s) (cview s) (cview s (l_start (log s)))) s s' \<and>
    log s' = log_cleared (log s) \<and> lg.more s' = lg.more s) s"
proof (cases "log_homes s = []")
  case True
  moreover from this have "lh_n (l_lh (log s)) = 0" using log_geomD(9) [OF assms(2)] by simp
  ultimately show ?thesis using assms(1) by (simp add: commit_def commit_writes_def log_cleared_def)
next
  case False
  note g = log_geomD [OF assms(2)]
  let ?st = "l_start (log s)" and ?hs = "log_homes s" and ?V = "cview s"
  let ?ws = "commit_copies ?st ?hs ?V @ [(?st, head_image ?hs (?V ?st))]"
  have card: "card (pinned s) < NBUF" using g(4) distinct_card [OF assms(3)] assms(4) by simp
  obtain s2 where 2: "thenk write_log write_head s = Ok ((), s2)" "cache_ok p {} s2" "dk.more s2 = dk.more s" "set ?hs \<subseteq> pinned s2"
    and w2: "wrote ?ws s s2"
    using commit_point_spec [OF assms(1,2) equalityD1 [OF assms(4)] card] unfolding wpk_def by (elim exE conjE) simp
  note m2 = dk_more_homes [OF 2(3)]
  have c2: "card (pinned s2) < NBUF" using wrote_pinned(2) [OF w2] card by simp
  obtain s3 where 3: "install_trans s2 = Ok ((), s3)" "cache_ok p {} s3" "wrote (home_copies s2) s2 s3" "dk.more s3 = dk.more s2"
    using install_trans_spec [OF 2(2) _ c2] assms(2,3) 2(4) m2 by (auto elim!: wpkE)
  note m3 = dk_more_homes [OF 3(4)]
  have "cview s2 (log_block ?st i) = ?V (?hs ! i)" if "i < length ?hs" for i
    using w2 commit_copies_nth [OF g(2,4) that, of ?V ?V] log_block_inside(3) [OF g(2), of i] g(4) that by (simp add: wrote_def)
  then have e3: "home_copies s2 = map (\<lambda>h. (h, ?V h)) ?hs" unfolding home_copies_def m2 by (intro nth_equalityI) simp_all
  have w3: "wrote (?ws @ map (\<lambda>h. (h, ?V h)) ?hs) s s3" using wrote_append [OF w2] 3(3) unfolding e3 by blast
  have c3: "card (pinned s3) < NBUF" using wrote_pinned(2) [OF w3] card by simp
  obtain s4 where 4: "thenk (set_log (\<lambda>l. l\<lparr>l_lh := (l_lh l)\<lparr>lh_n := 0\<rparr>\<rparr>)) write_head s3 = Ok ((), s4)" "cache_ok p {} s4"
    "wrote [(?st, head_image [] (cview s3 ?st))] s3 s4" "log s4 = log_cleared (log s)" "lg.more s4 = lg.more s"
    using clear_head_spec [OF 3(2) _ c3] assms(2) m2 m3 unfolding wpk_def by auto
  have "cview s3 ?st = head_image ?hs (?V ?st)"
    using w3 homes_not_in_area [OF assms(2), of ?st] start_in_area [of ?st] by (auto simp: wrote_def put_all_map)
  then have w4: "wrote (commit_writes ?st ?hs ?V (?V ?st)) s s4" using wrote_append [OF w3] 4(3) False by (simp add: commit_writes_def)
  have "commit s = bindk (thenk write_log write_head) (\<lambda>_. thenk install_trans (thenk (set_log (\<lambda>l. l\<lparr>l_lh := (l_lh l)\<lparr>lh_n := 0\<rparr>\<rparr>)) write_head)) s"
    using False unfolding commit_def thenk_def bindk_assoc by (simp add: bindk_def getk_def flip: g(9))
  then have "commit s = Ok ((), s4)" by (simp only: bindk_Ok [where m = "thenk write_log write_head", OF 2(1)] bindk_Ok [where m = install_trans, OF 3(1)] thenk_def [of install_trans] 4(1))
  then show ?thesis using 4(2,4,5) w4 by (simp add: wpk_def)
qed


lemma logheader_eq: "(h :: logheader)\<lparr>lh_n := n, lh_block := bs\<rparr> = \<lparr>lh_n = n, lh_block = bs\<rparr>"
  by simp

text \<open>Reading the header fills in the log in memory.\<close>

lemma read_head_spec:
  assumes "cache_ok p {} s" "l_dev (log s) = 1" "l_start (log s) < FSSIZE" "card (pinned s) < NBUF"
    and "head_n (l_start (log s)) (cview s) \<le> LOGSIZE"
  shows "wpk read_head (\<lambda>_ s'. cache_ok p {} s' \<and> wrote [] s s' \<and> lg.more s' = lg.more s \<and>
    log s' = (log s)\<lparr>l_lh := \<lparr>lh_n = sint (get32 (cview s (l_start (log s))) 0),
      lh_block = head_blocks (l_start (log s)) (cview s) @
        drop (head_n (l_start (log s)) (cview s)) (lh_block (l_lh (log s)))\<rparr>\<rparr>) s"
proof -
  let ?st = "l_start (log s)"
  obtain b s1 where 1: "bread 1 ?st s = Ok (b, s1)" "cache_ok p {b} s1" "buf_at b s1 = read_buf ?st s" "same_blocks s s1"
    using bread_run [OF assms(1) _ assms(3), of thesis] assms(4) by force
  note q = same_blocksD [OF 1(4)] and m = dk_more_log [OF same_blocksD(6) [OF 1(4)]]
  have "?st \<notin> pinned s \<Longrightarrow> cview s ?st = medium (ide s) (True, ?st)" by (rule cview_unpinned [OF assms(1)]) simp_all
  then have rel: "b_dirty (buf_at b s1) \<or> b_data (buf_at b s1) = medium (ide s1) (True, b_blockno (buf_at b s1))"
    using 1(3) q(3) by (auto simp: read_buf_def)
  define l where "l = (log s)\<lparr>l_lh := \<lparr>lh_n = sint (get32 (cview s ?st) 0),
      lh_block = head_blocks ?st (cview s) @ drop (head_n ?st (cview s)) (lh_block (l_lh (log s)))\<rparr>\<rparr>"
  obtain s3 where 3: "brelse b (s1\<lparr>log := l\<rparr>) = Ok ((), s3)" "cache_ok p {} s3" "same_blocks (s1\<lparr>log := l\<rparr>) s3"
    using brelse_run [of p "{b}" "s1\<lparr>log := l\<rparr>" b thesis] 1(2) rel by force
  have "wrote [] s s3" using q same_blocksD [OF 3(3)] by (simp add: wrote_def)
  moreover have "log s3 = l" "lg.more s3 = lg.more s" using dk_more_log [OF same_blocksD(6) [OF 3(3)]] m by simp_all
  moreover have "read_head s = Ok ((), s3)"
    using 1(1,3) 3(1) assms(2,5) m unfolding read_head_def bindk_def
    by (simp add: getk_def buf_data_def thenk_def bindk_def set_log_def modk_def Let_def read_buf_def head_n_def head_blocks_def l_def logheader_eq)
  ultimately show ?thesis using 3(2) by (simp add: wpk_def l_def)
qed


lemma cview_disk: "cache_ok p {} s \<Longrightarrow> pinned s = {} \<Longrightarrow> cview s = disk_blocks s"
  using cview_unpinned [of p "{}" s] by (simp add: disk_blocks_def fun_eq_iff)

lemma head_blocks_length [simp]: "length (head_blocks st M) = head_n st M"
  by (simp add: head_blocks_def)

lemma recover_spec:
  assumes "cache_ok p {} s" "pinned s = {}" "l_dev (log s) = 1" "length (lh_block (l_lh (log s))) = LOGSIZE"
    and "head_ok (l_start (log s)) (disk_blocks s)"
  shows "wpk recover_from_log (\<lambda>_ s'. cache_ok p {} s' \<and> wrote (recovery_writes (l_start (log s)) (disk_blocks s)) s s' \<and>
    log_geom s' \<and> log_homes s' = [] \<and> (\<exists>h. log s' = (log s)\<lparr>l_lh := h\<rparr>) \<and> lg.more s' = lg.more s) s"
proof -
  let ?st = "l_start (log s)" and ?M = "disk_blocks s"
  note v = cview_disk [OF assms(1,2)]
  have st: "?st < FSSIZE" using assms(5) by (simp add: head_ok_def word_less_nat_alt)
  obtain s1 where 1: "read_head s = Ok ((), s1)" "cache_ok p {} s1" "wrote [] s s1" "lg.more s1 = lg.more s"
    "log s1 = (log s)\<lparr>l_lh := \<lparr>lh_n = sint (get32 (?M ?st) 0), lh_block = head_blocks ?st ?M @ drop (head_n ?st ?M) (lh_block (l_lh (log s)))\<rparr>\<rparr>"
    using read_head_spec [OF assms(1,3) st] assms(2,5) unfolding wpk_def v by (auto simp: head_ok_def)
  have h: "log_homes s1 = head_blocks ?st ?M" by (simp add: log_homes_def 1(5) flip: head_n_def)
  have g: "log_geom s1" using assms(3-5) h unfolding log_geom_def head_ok_def by (auto simp: 1(5) head_n_def)
  have p1: "pinned s1 = {}" "cview s1 = ?M" using wrote_pinned [OF 1(3)] 1(3) assms(2) v by (simp_all add: wrote_def)
  obtain s2 where 2: "install_trans s1 = Ok ((), s2)" "cache_ok p {} s2" "wrote (home_copies s1) s1 s2" "dk.more s2 = dk.more s1"
    using install_trans_spec [OF 1(2) g] p1(1) unfolding wpk_def by auto
  note m = dk_more_homes [OF 2(4)]
  have c: "card (pinned s2) < NBUF" using wrote_pinned(1) [OF 2(3)] p1(1) by simp
  obtain s3 where 3: "thenk (set_log (\<lambda>l. l\<lparr>l_lh := (l_lh l)\<lparr>lh_n := 0\<rparr>\<rparr>)) write_head s2 = Ok ((), s3)" "cache_ok p {} s3"
    "wrote [(?st, head_image [] (cview s2 ?st))] s2 s3" "log s3 = log_cleared (log s1)" "lg.more s3 = lg.more s"
    using clear_head_spec [OF 2(2) _ c] g m 1(4,5) unfolding wpk_def by auto
  have hc: "home_copies s1 = map (\<lambda>i. (head_blocks ?st ?M ! i, ?M (log_block ?st i))) [0..<head_n ?st ?M]"
    by (simp add: home_copies_def h p1(2) 1(5))
  have "fst ` set (home_copies s1) = set (head_blocks ?st ?M)" by (simp add: hc image_image head_blocks_def)
  then have "?st \<notin> fst ` set (home_copies s1)" using homes_not_in_area [OF g, of ?st] start_in_area [of ?st] h 1(5) by auto
  then have "cview s2 ?st = ?M ?st"
    using 2(3) put_all_other p1(2) unfolding wrote_def by metis
  then have "wrote (([] @ home_copies s1) @ [(?st, head_image [] (?M ?st))]) s s3"
    using wrote_append [OF wrote_append [OF 1(3) 2(3)] 3(3)] by (simp only:)
  then have "wrote (recovery_writes ?st ?M) s s3" by (simp only: hc recovery_writes_def append_Nil)
  moreover have "recover_from_log s = Ok ((), s3)"
    unfolding recover_from_log_def thenk_def [of read_head] thenk_def [of install_trans]
    by (simp only: bindk_Ok [where m = read_head, OF 1(1)] bindk_Ok [where m = install_trans, OF 2(1)] 3(1))
  moreover have "\<exists>h. log s3 = (log s)\<lparr>l_lh := h\<rparr>" by (auto simp: 3(4) 1(5) log_cleared_def)
  moreover have "log_geom s3 \<and> log_homes s3 = []" using g by (simp add: 3(4) log_cleared_def log_geom_def log_homes_def)
  ultimately show ?thesis using 3(2,5) by (simp add: wpk_def)
qed


text \<open>The super block on the disk describes the log.\<close>

definition sb_describes :: "u32 \<Rightarrow> int \<Rightarrow> (u32 \<Rightarrow> block) \<Rightarrow> bool" where
  "sb_describes st nlog M \<longleftrightarrow> sb_logstart (decode_sb (M 1)) = st \<and> sint (sb_nlog (decode_sb (M 1))) = nlog \<and> nlog \<le> int LOGSIZE \<and>
     1 \<notin> log_area st"

lemma initlock_free: "settled s \<Longrightarrow> initlock l s = s"
  by (simp add: settled_def lock_free_def initlock_def fun_upd_idem)

lemma initlog_spec:
  assumes "cache_ok p {} s" "pinned s = {}" "length (lh_block (l_lh (log s))) = LOGSIZE"
    and "sb_describes st nlog (disk_blocks s)" "head_ok st (disk_blocks s)"
  shows "wpk (initlog 1) (\<lambda>_ s'. cache_ok p {} s' \<and> wrote (recovery_writes st (disk_blocks s)) s s' \<and>
    log_geom s' \<and> log_homes s' = [] \<and> l_start (log s') = st \<and> l_size (log s') = nlog \<and> l_outstanding (log s') = l_outstanding (log s) \<and>
    l_committing (log s') = l_committing (log s) \<and> lg.more s' = lg.more s) s"
proof -
  have i: "modk (initlock LogLock) s = Ok ((), s)" using cache_okD(5) [OF assms(1)] by (simp add: modk_def initlock_free)
  note v = cview_disk [OF assms(1,2)]
  obtain s1 where 1: "read_block 1 s = Ok (disk_blocks s 1, s1)" "cache_ok p {} s1" "same_blocks s s1"
    using read_block_spec [OF assms(1), of 1] assms(2) unfolding v by (auto elim!: wpkE)
  have r: "readsb 1 s = Ok (decode_sb (disk_blocks s 1), s1)"
    using arg_cong [OF 1(1), of "\<lambda>r. andthen r (\<lambda>(d, t). Ok (decode_sb d, t))"]
    by (simp add: readsb_def read_block_def bindk_def thenk_def retk_def andthen_assoc split_def)
  note q = same_blocksD [OF 1(3)] and m = dk_more_log [OF same_blocksD(6) [OF 1(3)]]
  let ?l = "(log s)\<lparr>l_start := st, l_size := nlog, l_dev := 1\<rparr>"
  have sb: "sb_logstart (decode_sb (disk_blocks s 1)) = st" "sint (sb_nlog (decode_sb (disk_blocks s 1))) = nlog"
    using assms(4) by (simp_all add: sb_describes_def)
  have b: "disk_blocks s1 = disk_blocks s" using q(3) by (simp add: disk_blocks_def fun_eq_iff)
  have w: "wrote [] s s1" using q by (simp add: wrote_def)
  obtain s3 where 3: "recover_from_log (s1\<lparr>log := ?l\<rparr>) = Ok ((), s3)" "cache_ok p {} s3"
    "wrote (recovery_writes st (disk_blocks s)) s1 s3" "log_geom s3" "log_homes s3 = []" "\<exists>h. log s3 = ?l\<lparr>l_lh := h\<rparr>" "lg.more s3 = lg.more s"
    using recover_spec [of p "s1\<lparr>log := ?l\<rparr>"] 1(2) q(2) assms(2,3,5) m unfolding wpk_def by (auto simp: b)
  have "initlog 1 s = Ok ((), s3)" using 3(1) m unfolding initlog_def
    by (simp add: thenk_def bindk_Ok [where m = "modk (initlock LogLock)", OF i] bindk_Ok [where m = "readsb 1", OF r] sb)
      (simp add: set_log_def modk_def bindk_def)
  then show ?thesis using 3 wrote_append [OF w 3(3)] by (auto simp: wpk_def)
qed


section \<open>Crash safety\<close>

text \<open>
  The log in order between two commits: the blocks it lists are the ones that wait in the cache,
  and the disk holds no transaction.
\<close>

definition log_ready :: "nat \<Rightarrow> 'a lg_scheme \<Rightarrow> bool" where
  "log_ready p s \<longleftrightarrow> cache_ok p {} s \<and> log_geom s \<and> distinct (log_homes s) \<and> set (log_homes s) = pinned s \<and> 1 \<notin> pinned s \<and>
     sint (get32 (disk_blocks s (l_start (log s))) 0) = 0 \<and> sb_describes (l_start (log s)) (l_size (log s)) (disk_blocks s)"

text \<open>A kernel that has just been started, on the disk with blocks \<open>M\<close>.\<close>

definition booted :: "nat \<Rightarrow> (u32 \<Rightarrow> block) \<Rightarrow> 'a lg_scheme \<Rightarrow> bool" where
  "booted p M s \<longleftrightarrow> cache_ok p {} s \<and> pinned s = {} \<and> length (lh_block (l_lh (log s))) = LOGSIZE \<and> disk_blocks s = M"

lemma sb_describes_cong: "M' 1 = M 1 \<Longrightarrow> sb_describes st n M' = sb_describes st n M"
  by (simp add: sb_describes_def)

lemma sb_describes_off: "sb_describes st n M \<Longrightarrow> eq_off st M' M \<Longrightarrow> sb_describes st n M'"
  by (simp add: sb_describes_def eq_off_def)

lemma length_disk_blocks: "cache_ok p H s \<Longrightarrow> length (disk_blocks s n) = BSIZE"
  unfolding disk_blocks_def by (rule cache_okD)

text \<open>What starting the kernel makes of a disk.\<close>

lemma initlog_recovers:
  assumes "booted p M s" "sb_describes st nlog M" "head_ok st M" "1 \<notin> set (head_blocks st M)"
  shows "wpk (initlog 1) (\<lambda>_ s'. log_ready p s' \<and> l_start (log s') = st \<and> log_homes s' = [] \<and> eq_off st (disk_blocks s') (disk_view st M) \<and>
     wrote (recovery_writes st M) s s') s"
proof -
  have b: "cache_ok p {} s" "pinned s = {}" "length (lh_block (l_lh (log s))) = LOGSIZE" "disk_blocks s = M"
    using assms(1) by (simp_all add: booted_def)
  have "wpk (initlog 1) (\<lambda>_ s'. cache_ok p {} s' \<and> wrote (recovery_writes st (disk_blocks s)) s s' \<and>
    log_geom s' \<and> log_homes s' = [] \<and> l_start (log s') = st \<and> l_size (log s') = nlog \<and> l_outstanding (log s') = l_outstanding (log s) \<and>
    l_committing (log s') = l_committing (log s) \<and> lg.more s' = lg.more s) s"
    using assms by (intro initlog_spec b(1-3)) (simp_all add: b(4))
  then show ?thesis
  proof (rule wpk_mono, elim conjE)
    fix s'
    assume a: "cache_ok p {} s'" "wrote (recovery_writes st (disk_blocks s)) s s'" "log_geom s'" "log_homes s' = []" "l_start (log s') = st"
      "l_size (log s') = nlog"
    have d: "disk_blocks s' = put_all (take (length (recovery_writes st M)) (recovery_writes st M)) M"
      using wrote_blocks [OF a(2)] by (simp add: b(4))
    have len: "length (M st) = BSIZE" using length_disk_blocks [OF b(1), of st] b(4) by simp
    note r = recovery_prefix_view [where M = M, OF assms(3) len d]
    have "fst ` set (map (\<lambda>i. (head_blocks st M ! i, M (log_block st i))) [0..<head_n st M]) = set (head_blocks st M)"
      by (simp add: image_image head_blocks_def)
    then have "disk_view st M 1 = M 1" unfolding disk_view_def using assms(4) by (intro put_all_other) (simp only: not_False_eq_True)
    then show "log_ready p s' \<and> l_start (log s') = st \<and> log_homes s' = [] \<and> eq_off st (disk_blocks s') (disk_view st M) \<and>
        wrote (recovery_writes st M) s s'"
      using a r wrote_pinned(1) [OF a(2)] b(2,4) assms(2) by (auto simp: log_ready_def sb_describes_def eq_off_def head_ok_def head_n_def)
  qed
qed


lemma commit_writes_area:
  assumes "unat st + LOGSIZE \<le> unat FSSIZE" "length hs < LOGSIZE" "b \<notin> log_area st" "b \<notin> set hs"
  shows "put_all (take k (commit_writes st hs V h0)) M b = M b"
proof (rule put_all_other, rule notI)
  assume "b \<in> fst ` set (take k (commit_writes st hs V h0))"
  then obtain w where w: "w \<in> set (commit_writes st hs V h0)" "b = fst w" using in_set_takeD by fastforce
  show False
  proof (cases "w \<in> set (commit_copies st hs V)")
    case True
    then obtain i where "i < length hs" "b = log_block st i" using w(2) by (auto simp: commit_copies_def)
    then show False using log_block_inside(1) [OF assms(1), of i] assms(2,3) by simp
  next
    case False
    then have "b = st \<or> b \<in> set hs" using w by (auto simp: commit_writes_def split: if_splits)
    then show False using assms(3,4) start_in_area by metis
  qed
qed

lemma recovery_writes_area:
  assumes "b \<noteq> st" "b \<notin> set (head_blocks st M)"
  shows "put_all (take k (recovery_writes st M)) M b = M b"
proof (rule put_all_other, rule notI)
  assume "b \<in> fst ` set (take k (recovery_writes st M))"
  then obtain w where w: "w \<in> set (recovery_writes st M)" "b = fst w" using in_set_takeD by fastforce
  then show False using assms by (auto simp: recovery_writes_def)
qed

text \<open>The disk after a crash: the first \<open>k\<close> of the writes have reached it.\<close>

definition crash_blocks :: "nat \<Rightarrow> ((bool \<times> u32) \<times> block) list \<Rightarrow> 'a dk_scheme \<Rightarrow> u32 \<Rightarrow> block" where
  "crash_blocks k ws s b = apply_writes (take k ws) (medium (ide s)) (True, b)"

lemma crash_blocks_wrote:
  "crash_blocks k (map (\<lambda>(n, d). ((True, n), d)) ws) s = put_all (take k ws) (disk_blocks s)"
  by (rule ext) (simp add: crash_blocks_def take_map apply_writes_blocks disk_blocks_def [abs_def])

lemma log_readyD:
  assumes "log_ready p s"
  shows "cache_ok p {} s" "log_geom s" "distinct (log_homes s)" "set (log_homes s) = pinned s" "1 \<notin> pinned s"
    "sint (get32 (disk_blocks s (l_start (log s))) 0) = 0" "sb_describes (l_start (log s)) (l_size (log s)) (disk_blocks s)"
  using assms by (simp_all add: log_ready_def)

lemma log_ready_view:
  assumes "log_ready p s" "b \<notin> set (log_homes s)"
  shows "cview s b = disk_blocks s b"
  using cview_unpinned [OF log_readyD(1) [OF assms(1)], of b] assms(2) log_readyD(4) [OF assms(1)] by (simp add: disk_blocks_def)

text \<open>A commit that runs to its end.\<close>

lemma commit_ready:
  assumes "log_ready p s"
  shows "wpk commit (\<lambda>_ s'. log_ready p s' \<and> log s' = log_cleared (log s) \<and> eq_off (l_start (log s)) (disk_blocks s') (cview s) \<and>
    wrote (commit_writes (l_start (log s)) (log_homes s) (cview s) (disk_blocks s (l_start (log s)))) s s' \<and> lg.more s' = lg.more s) s"
proof -
  note d = log_readyD [OF assms] and g = log_geomD [OF log_readyD(2) [OF assms]]
  let ?st = "l_start (log s)"
  have nst: "?st \<notin> set (log_homes s)" using homes_not_in_area [OF d(2)] start_in_area by blast
  then have vst: "cview s ?st = disk_blocks s ?st" by (rule log_ready_view [OF assms])
  from commit_spec [OF d(1-4)] show ?thesis unfolding vst
  proof (rule wpk_mono, elim conjE)
    fix s'
    assume a: "cache_ok p {} s'" "wrote (commit_writes ?st (log_homes s) (cview s) (disk_blocks s ?st)) s s'"
      "log s' = log_cleared (log s)" "lg.more s' = lg.more s"
    let ?ws = "commit_writes ?st (log_homes s) (cview s) (disk_blocks s ?st)" and ?M' = "disk_blocks s'"
    have M': "?M' = put_all (take (length ?ws) ?ws) (disk_blocks s)" using wrote_blocks [OF a(2)] by simp
    have z: "sint (get32 (?M' ?st) 0) = 0"
      using d(6) head_image_cleared [of "head_image (log_homes s) (disk_blocks s ?st)"] length_disk_blocks [OF d(1)]
      by (simp add: M' commit_writes_def)
    have V: "cview s b = disk_blocks s b" if "b \<notin> log_area ?st" "b \<notin> set (log_homes s)" for b
      using that(2) by (rule log_ready_view [OF assms])
    have "eq_off ?st (disk_view ?st ?M') (if length ?ws \<le> length (log_homes s) then disk_blocks s else cview s)"
      using commit_prefix_view [OF g(2,4) _ d(6) length_disk_blocks [OF d(1)] V M'] d(2) by (simp add: log_geom_def)
    then have e: "eq_off ?st ?M' (cview s)"
      using cleared_view(2) [where M = ?M', OF g(2) z] V by (auto simp: commit_writes_def commit_copies_def eq_off_def split: if_splits)
    have sb: "sb_describes ?st (l_size (log s)) ?M'"
      unfolding M' using d(4,5,7) commit_writes_area [OF g(2,4), of 1] by (auto simp: sb_describes_def simp del: take_all)
    have pin: "pinned s' = {}" using wrote_pinned(1) [OF a(2)] d(4) by (force simp: commit_writes_def split: if_splits)
    have "log_geom s' \<and> log_homes s' = []" using d(2) by (simp add: a(3) log_cleared_def log_geom_def log_homes_def)
    moreover have "l_size (log s') = l_size (log s)" by (simp add: a(3) log_cleared_def)
    ultimately have "log_ready p s'" using a(1,3) pin z sb by (simp add: log_ready_def)
    then show "log_ready p s' \<and> log s' = log_cleared (log s) \<and> eq_off ?st ?M' (cview s) \<and> wrote ?ws s s' \<and> lg.more s' = lg.more s"
      using a e by simp
  qed
qed

text \<open>Starting the kernel on the disk after a crash in a commit.\<close>

lemma crash_recovers:
  assumes "log_ready p s" "booted q (put_all (take k (commit_writes (l_start (log s)) (log_homes s) (cview s)
      (disk_blocks s (l_start (log s))))) (disk_blocks s)) r"
  shows "wpk (initlog 1) (\<lambda>_ r'. log_ready q r' \<and>
    eq_off (l_start (log s)) (disk_blocks r') (if k \<le> length (log_homes s) then disk_blocks s else cview s)) r"
proof -
  note d = log_readyD [OF assms(1)] and g = log_geomD [OF log_readyD(2) [OF assms(1)]]
  let ?st = "l_start (log s)"
  define M' where "M' = put_all (take k (commit_writes ?st (log_homes s) (cview s) (disk_blocks s ?st))) (disk_blocks s)"
  have V: "cview s b = disk_blocks s b" if "b \<notin> log_area ?st" "b \<notin> set (log_homes s)" for b
    using that(2) by (rule log_ready_view [OF assms(1)])
  have c: "head_ok ?st M' \<and> set (head_blocks ?st M') \<subseteq> set (log_homes s) \<and>
      eq_off ?st (disk_view ?st M') (if k \<le> length (log_homes s) then disk_blocks s else cview s)"
    using commit_prefix_view [OF g(2,4) _ d(6) length_disk_blocks [OF d(1)] V M'_def] d(2) by (simp add: log_geom_def)
  have sb: "sb_describes ?st (l_size (log s)) M'"
    using d(4,5,7) commit_writes_area [OF g(2,4), of 1] by (auto simp: sb_describes_def M'_def)
  have "1 \<notin> set (head_blocks ?st M')" using c d(4,5) by blast
  then have "wpk (initlog 1) (\<lambda>_ s'. log_ready q s' \<and> l_start (log s') = ?st \<and> log_homes s' = [] \<and>
      eq_off ?st (disk_blocks s') (disk_view ?st M') \<and> wrote (recovery_writes ?st M') r s') r"
    using assms(2) c sb by (intro initlog_recovers) (simp_all add: M'_def)
  then show ?thesis by (rule wpk_mono) (use c eq_off_trans in blast)
qed

text \<open>
  C7: A commit is atomic: from a log in order \<open>commit\<close> returns with the log in order, and the blocks
  outside the log on the disk are those of the cache. If the machine stops after any number \<open>k\<close>
  of the block writes of the commit, then the next start of the kernel (\<open>initlog\<close>, with its
  recovery) returns with the log in order, and the disk holds outside the log either exactly the
  blocks from before the commit, if the header was not written, or exactly the new ones.
\<close>

theorem commit_crash_atomic:
  assumes "log_ready p s"
  shows "\<exists>s' ws. commit s = Ok ((), s') \<and> log_ready p s' \<and> written (ide s') = written (ide s) @ ws \<and>
    eq_off (l_start (log s)) (disk_blocks s') (cview s) \<and>
    (\<forall>k q r. booted q (crash_blocks k ws s) r \<longrightarrow>
      (\<exists>r'. initlog 1 r = Ok ((), r') \<and> log_ready q r' \<and>
        eq_off (l_start (log s)) (disk_blocks r') (if k \<le> length (log_homes s) then disk_blocks s else cview s)))"
proof -
  let ?ws = "commit_writes (l_start (log s)) (log_homes s) (cview s) (disk_blocks s (l_start (log s)))"
  obtain s' where s': "commit s = Ok ((), s')" "log_ready p s'" "eq_off (l_start (log s)) (disk_blocks s') (cview s)" "wrote ?ws s s'"
    using commit_ready [OF assms] unfolding wpk_def by auto
  have "\<exists>r'. initlog 1 r = Ok ((), r') \<and> log_ready q r' \<and>
      eq_off (l_start (log s)) (disk_blocks r') (if k \<le> length (log_homes s) then disk_blocks s else cview s)"
    if "booted q (crash_blocks k (map (\<lambda>(n, d). ((True, n), d)) ?ws) s) r" for k q r
    using crash_recovers [OF assms that [unfolded crash_blocks_wrote]] unfolding wpk_def by auto
  then show ?thesis using s' unfolding wrote_def by blast
qed


text \<open>
  C8: Recovery can itself be cut off: starting the kernel on any disk whose log header is sound
  installs what the disk stands for (\<open>disk_view\<close>) and leaves the log in order; and if the machine
  stops after any number of the writes of the recovery, the next start arrives at the same blocks.
\<close>

theorem recovery_restartable:
  assumes "booted p M s" "sb_describes st nlog M" "head_ok st M" "1 \<notin> set (head_blocks st M)"
  shows "\<exists>s' ws. initlog 1 s = Ok ((), s') \<and> log_ready p s' \<and> written (ide s') = written (ide s) @ ws \<and>
    eq_off st (disk_blocks s') (disk_view st M) \<and>
    (\<forall>k q r. booted q (crash_blocks k ws s) r \<longrightarrow>
      (\<exists>r'. initlog 1 r = Ok ((), r') \<and> log_ready q r' \<and> eq_off st (disk_blocks r') (disk_view st M)))"
proof -
  obtain s' where s': "initlog 1 s = Ok ((), s')" "log_ready p s'" "eq_off st (disk_blocks s') (disk_view st M)"
    "wrote (recovery_writes st M) s s'"
    using initlog_recovers [OF assms] unfolding wpk_def by auto
  have M: "disk_blocks s = M" "length (M st) = BSIZE" using assms(1) length_disk_blocks [of p "{}" s st] by (simp_all add: booted_def)
  have "\<exists>r'. initlog 1 r = Ok ((), r') \<and> log_ready q r' \<and> eq_off st (disk_blocks r') (disk_view st M)"
    if "booted q (crash_blocks k (map (\<lambda>(n, d). ((True, n), d)) (recovery_writes st M)) s) r" for k q r
  proof -
    define M' where "M' = put_all (take k (recovery_writes st M)) M"
    note v = recovery_prefix_view(1) [where M = M, OF assms(3) M(2) M'_def]
    have "M' 1 = M 1" unfolding M'_def using assms(2,4) start_in_area by (intro recovery_writes_area) (auto simp: sb_describes_def)
    then have "sb_describes st nlog M'" using assms(2) by (simp add: sb_describes_def)
    moreover have "1 \<notin> set (head_blocks st M')" using v assms(4) by blast
    moreover have "booted q M' r" using that unfolding crash_blocks_wrote M(1) M'_def .
    ultimately obtain r' where "initlog 1 r = Ok ((), r')" "log_ready q r'" "eq_off st (disk_blocks r') (disk_view st M')"
      using initlog_recovers [of q M' r st nlog] v unfolding wpk_def by auto
    then show ?thesis using eq_off_trans v by blast
  qed
  then show ?thesis using s' unfolding wrote_def by blast
qed

section \<open>Examples\<close>

definition demo_sb_block :: block where
  "demo_sb_block = put_blocks 0 [1000, 941, 200, 30, 2, 32, 58] (replicate BSIZE 0)"

definition demo_blocks :: "u32 \<Rightarrow> block" where
  "demo_blocks = (\<lambda>_. replicate BSIZE 0)(1 := demo_sb_block)"

text \<open>A kernel just started on a disk.\<close>

definition boot_kernel :: "(u32 \<Rightarrow> block) \<Rightarrow> pl" where
  "boot_kernel M = kernel0\<lparr>ide := (ide kernel0)\<lparr>medium0 := (\<lambda>(d, n). M n)\<rparr>\<rparr>"

text \<open>The same with block 100 changed in the cache and logged.\<close>

definition logged_kernel :: pl where
  "logged_kernel = (boot_kernel demo_blocks)\<lparr>
     bcache := \<lparr>bufs = (replicate NBUF no_buf)[0 := \<lparr>b_valid = True, b_dirty = True, b_dev = 1, b_blockno = 100, b_refcnt = 0,
       b_data = replicate BSIZE 7\<rparr>], lru = [0..<NBUF]\<rparr>,
     log := (log kernel0)\<lparr>l_lh := \<lparr>lh_n = 1, lh_block = 100 # replicate 29 0\<rparr>\<rparr>\<rparr>"

lemma boot_kernel_booted [simp]:
  assumes "\<And>n. length (M n) = BSIZE"
  shows "booted 0 M (boot_kernel M)"
proof -
  have f: "running 0 (boot_kernel M)" "bcache (boot_kernel M) = bcache kernel0" "sleeplks (boot_kernel M) = sleeplks kernel0"
    "medium (ide (boot_kernel M)) (d, n) = M n" "ide_ready (boot_kernel M)" for d n
    using kernel0_running kernel0_disk(2) 
    by (simp_all add: boot_kernel_def running_def settled_def ide_ready_def cpu_ok_def cur_def curproc_def lock_free_def readeflags_def
        medium_def kernel0_def)
  have b: "buf_at b (boot_kernel M) = buf_at b kernel0" for b by (simp only: buf_at_def f(2))
  have h: "\<not> holds_block n b (boot_kernel M)" for n b using kernel0_holds_block [of n b] by (simp add: holds_block_def b)
  have "buf_ok 0 {} b (boot_kernel M)" if "b < NBUF" for b
    using that by (simp add: buf_ok_def b f(3) no_buf_def)
  then have "cache_ok 0 {} (boot_kernel M)" using f h assms by (simp add: cache_ok_def atLeast0LessThan)
  moreover have "pinned (boot_kernel M) = {}" using h by (simp add: pinned_def)
  moreover have "length (lh_block (l_lh (log (boot_kernel M)))) = LOGSIZE" by (simp add: boot_kernel_def kernel0_def)
  ultimately show ?thesis using f(4) by (simp add: booted_def disk_blocks_def fun_eq_iff)
qed

lemma demo_blocks_length [simp]: "length (demo_blocks n) = BSIZE"
  by (simp add: demo_blocks_def demo_sb_block_def)

lemma demo_sb_describes: "sb_describes 2 30 demo_blocks"
proof -
  have "get32 demo_sb_block (0 + 4 * 4) = [1000, 941, 200, 30, 2, 32, 58] ! 4"
    "get32 demo_sb_block (0 + 4 * 3) = [1000, 941, 200, 30, 2, 32, 58] ! 3"
    unfolding demo_sb_block_def by (rule get32_put_blocks, simp, simp)+
  then show ?thesis by (simp add: sb_describes_def decode_sb_def demo_blocks_def log_area_def)
qed

lemma demo_head: "sint (get32 (demo_blocks 2) 0) = 0"
  by (simp add: demo_blocks_def get32_def)

lemma logged_kernel_fields:
  "running 0 logged_kernel" "sleeplks logged_kernel = sleeplks kernel0" "ide_ready logged_kernel"
  "lru (bcache logged_kernel) = [0..<NBUF]" "length (bufs (bcache logged_kernel)) = NBUF"
  "log logged_kernel = (log kernel0)\<lparr>l_lh := \<lparr>lh_n = 1, lh_block = 100 # replicate 29 0\<rparr>\<rparr>"
  "l_start (log kernel0) = 2" "l_dev (log kernel0) = 1" "l_size (log kernel0) = 30"
  "medium (ide logged_kernel) (d, n) = demo_blocks n"
  by (simp_all add: logged_kernel_def boot_kernel_def running_def settled_def ide_ready_def cpu_ok_def cur_def curproc_def lock_free_def
      readeflags_def medium_def kernel0_def)

lemma logged_kernel_buf: "b < NBUF \<Longrightarrow> buf_at b logged_kernel = (if b = 0 then
    \<lparr>b_valid = True, b_dirty = True, b_dev = 1, b_blockno = 100, b_refcnt = 0, b_data = replicate BSIZE 7\<rparr> else no_buf)"
  by (simp add: logged_kernel_def buf_at_def nth_list_update)

lemma logged_kernel_ready: "log_ready 0 logged_kernel"
proof -
  note f = logged_kernel_fields and b = logged_kernel_buf
  have h: "holds_block n b logged_kernel \<longleftrightarrow> b = 0 \<and> n = 100" for n b by (auto simp: holds_block_def b no_buf_def split: if_splits)
  have "buf_ok 0 {} b logged_kernel" if "b < NBUF" for b
    using that by (simp add: buf_ok_def b f no_buf_def)
  then have "cache_ok 0 {} logged_kernel" using f h by (simp add: cache_ok_def atLeast0LessThan)
  moreover have "pinned logged_kernel = {100}" using h b [of 0] by (auto simp: pinned_def)
  moreover have "log_homes logged_kernel = [100]" by (simp add: log_homes_def f)
  moreover from this have "log_geom logged_kernel" by (simp add: log_geom_def f log_area_def)
  moreover have "disk_blocks logged_kernel = demo_blocks" by (simp add: disk_blocks_def f fun_eq_iff)
  ultimately show ?thesis using demo_sb_describes demo_head by (simp add: log_ready_def f)
qed

lemma logged_kernel_log [simp]:
  "l_start (log logged_kernel) = 2" "log_homes logged_kernel = [100]" "disk_blocks logged_kernel = demo_blocks"
  "crash_blocks 0 ws logged_kernel = demo_blocks"
  by (simp_all add: log_homes_def disk_blocks_def crash_blocks_def fun_eq_iff logged_kernel_fields)

theorem commit_crash_atomic_witness:
  "log_ready 0 logged_kernel \<and> (\<exists>s' ws. commit logged_kernel = Ok ((), s') \<and> eq_off 2 (disk_blocks s') (cview logged_kernel) \<and>
    booted 0 (crash_blocks 0 ws logged_kernel) (boot_kernel demo_blocks) \<and>
    (\<exists>r'. initlog 1 (boot_kernel demo_blocks) = Ok ((), r') \<and> eq_off 2 (disk_blocks r') demo_blocks))"
proof -
  have b: "booted 0 (crash_blocks 0 ws logged_kernel) (boot_kernel demo_blocks)" for ws by simp
  obtain s' ws where s': "commit logged_kernel = Ok ((), s')" "eq_off 2 (disk_blocks s') (cview logged_kernel)"
    and r: "\<And>k q (r :: pl). booted q (crash_blocks k ws logged_kernel) r \<Longrightarrow>
      \<exists>r'. initlog 1 r = Ok ((), r') \<and> log_ready q r' \<and> eq_off 2 (disk_blocks r') (if k \<le> 1 then disk_blocks logged_kernel else cview logged_kernel)"
    using commit_crash_atomic [OF logged_kernel_ready] by auto
  show ?thesis using logged_kernel_ready s' r [OF b [of ws]] b by auto
qed

text \<open>A disk with a transaction that has been committed and not yet installed.\<close>

definition committed_blocks :: "u32 \<Rightarrow> block" where
  "committed_blocks = demo_blocks(2 := head_image [100] (replicate BSIZE 0), 3 := replicate BSIZE 7)"

lemma committed_blocks_ok:
  "\<And>n. length (committed_blocks n) = BSIZE" "sb_describes 2 30 committed_blocks" "head_ok 2 committed_blocks"
  "head_blocks 2 committed_blocks = [100]" "disk_view 2 committed_blocks 100 = replicate BSIZE 7"
proof -
  show "length (committed_blocks n) = BSIZE" for n by (simp add: committed_blocks_def)
  show "sb_describes 2 30 committed_blocks" using demo_sb_describes by (simp add: sb_describes_def committed_blocks_def)
  have "committed_blocks 2 = head_image [100] (replicate BSIZE 0)" by (simp add: committed_blocks_def)
  note h = head_image_n [where M = committed_blocks and st = 2, OF this]
  then show "head_blocks 2 committed_blocks = [100]" "head_ok 2 committed_blocks" by (simp_all add: head_ok_def log_area_def)
  show "disk_view 2 committed_blocks 100 = replicate BSIZE 7" using h by (simp add: disk_view_def log_block_def) (simp add: committed_blocks_def)
qed

theorem recovery_restartable_witness:
  "booted 0 committed_blocks (boot_kernel committed_blocks) \<and> head_ok 2 committed_blocks \<and>
   (\<exists>s'. initlog 1 (boot_kernel committed_blocks) = Ok ((), s') \<and> disk_blocks s' 100 = replicate BSIZE 7)"
proof -
  note c = committed_blocks_ok
  obtain s' where "initlog 1 (boot_kernel committed_blocks) = Ok ((), s')" "eq_off 2 (disk_blocks s') (disk_view 2 committed_blocks)"
    using recovery_restartable [of 0 committed_blocks "boot_kernel committed_blocks" 2 30] c(1-4) by auto
  then show ?thesis using c by (auto simp: eq_off_def log_area_def)
qed

end
