(* ===== verification/Log_Txn.thy ===== *)
theory Log_Txn
  imports Log_Props
begin

text \<open>
  Transactions: a file system call runs between \<open>begin_op\<close> and \<open>end_op\<close> and changes blocks with
  \<open>bread\<close>, \<open>log_write\<close> and \<open>brelse\<close>. The whole of it is atomic with respect to crashes.
\<close>

section \<open>Adding a block to the log\<close>

definition add_home :: "u32 \<Rightarrow> logheader \<Rightarrow> logheader" where
  "add_home bno lh = (let i = log_slot bno lh in
     \<lparr>lh_n = (if int i = lh_n lh then lh_n lh + 1 else lh_n lh), lh_block = (lh_block lh)[i := bno]\<rparr>)"

lemma add_home_blocks:
  assumes "0 \<le> lh_n lh" "lh_n lh < int (length (lh_block lh))"
  shows "take (nat (lh_n (add_home bno lh))) (lh_block (add_home bno lh)) =
      (let hs = take (nat (lh_n lh)) (lh_block lh) in if bno \<in> set hs then hs else hs @ [bno])"
    and "lh_n lh \<le> lh_n (add_home bno lh)" "lh_n (add_home bno lh) \<le> lh_n lh + 1"
    and "length (lh_block (add_home bno lh)) = length (lh_block lh)"
proof -
  let ?hs = "take (nat (lh_n lh)) (lh_block lh)"
  have n: "nat (lh_n lh) < length (lh_block lh)" using assms by linarith
  show "take (nat (lh_n (add_home bno lh))) (lh_block (add_home bno lh)) = (let hs = ?hs in if bno \<in> set hs then hs else hs @ [bno])"
  proof (cases "find_index (\<lambda>w. w = bno) ?hs")
    case None
    then have "bno \<notin> set ?hs" by (auto simp: find_index_None_iff)
    moreover have "nat (lh_n lh + 1) = Suc (nat (lh_n lh))" using assms(1) by simp
    ultimately show ?thesis using None assms(1) n by (simp add: add_home_def log_slot_def take_Suc_conv_app_nth Let_def)
  next
    case (Some i)
    then have i: "i < length ?hs" "?hs ! i = bno" using find_index_SomeD by force+
    then have "bno \<in> set ?hs" by (metis nth_mem)
    moreover have "(lh_block lh)[i := bno] = lh_block lh" using i by (metis list_update_id nth_take length_take min_less_iff_conj)
    ultimately show ?thesis using Some i(1) by (auto simp: add_home_def log_slot_def Let_def)
  qed
qed (auto simp: add_home_def Let_def)

lemma log_write_ok:
  assumes "cache_ok p H s" "b \<in> H" "1 \<le> l_outstanding (log s)" "lh_n (l_lh (log s)) < int LOGSIZE" "lh_n (l_lh (log s)) < l_size (log s) - 1"
  shows "log_write b s = Ok ((), upd_buf b (\<lambda>k. k\<lparr>b_dirty := True\<rparr>)
    (s\<lparr>log := (log s)\<lparr>l_lh := add_home (b_blockno (buf_at b s)) (l_lh (log s))\<rparr>\<rparr>))"
proof -
  note c = cache_okD [OF assms(1)]
  show ?thesis using assms(3-5) c(5) unfolding log_write_def
    by (simp add: bindk_def getk_def thenk_def dok_def set_log_def modk_def settled_exec add_home_def Let_def)
qed

text \<open>Changing a block in a transaction, the way the comment at \<open>log_write\<close> says.\<close>

definition txn_write :: "u32 \<Rightarrow> (block \<Rightarrow> block) \<Rightarrow> ('a lg_scheme, unit) kcode" where
  "txn_write n f =
     bindk (bread 1 n) (\<lambda>b.
     thenk (set_data b f)
     (thenk (log_write b)
     (brelse b)))"

text \<open>The log parameters that a transaction does not change.\<close>

definition same_txn :: "'a lg_scheme \<Rightarrow> 'a lg_scheme \<Rightarrow> bool" where
  "same_txn s s' \<longleftrightarrow> (\<exists>h. log s' = (log s)\<lparr>l_lh := h\<rparr>) \<and> medium0 (ide s') = medium0 (ide s) \<and> written (ide s') = written (ide s) \<and>
     lg.more s' = lg.more s"

lemma same_txnD:
  assumes "same_txn s s'"
  shows "l_start (log s') = l_start (log s)" "l_size (log s') = l_size (log s)" "l_outstanding (log s') = l_outstanding (log s)"
    "l_committing (log s') = l_committing (log s)" "l_dev (log s') = l_dev (log s)" "disk_blocks s' = disk_blocks s" "lg.more s' = lg.more s"
    "medium (ide s') = medium (ide s)"
proof -
  obtain h where "log s' = (log s)\<lparr>l_lh := h\<rparr>" using assms by (auto simp: same_txn_def)
  then show "l_start (log s') = l_start (log s)" "l_size (log s') = l_size (log s)" "l_outstanding (log s') = l_outstanding (log s)"
    "l_committing (log s') = l_committing (log s)" "l_dev (log s') = l_dev (log s)" by simp_all
  show "medium (ide s') = medium (ide s)" using assms unfolding same_txn_def medium_def by metis
  then show "disk_blocks s' = disk_blocks s" by (simp add: disk_blocks_def [abs_def])
qed (use assms in \<open>simp add: same_txn_def\<close>)

lemma same_txn_trans: "same_txn s t \<Longrightarrow> same_txn t u \<Longrightarrow> same_txn s u"
  by (auto simp: same_txn_def)

lemma log_write_run:
  assumes "cache_ok p {b} s" "1 \<le> l_outstanding (log s)" "lh_n (l_lh (log s)) < int LOGSIZE" "lh_n (l_lh (log s)) < l_size (log s) - 1"
  obtains s' where "log_write b s = Ok ((), s')" "cache_ok p {b} s'" "buf_at b s' = (buf_at b s)\<lparr>b_dirty := True\<rparr>"
    "cview s' = cview s" "pinned s' = insert (b_blockno (buf_at b s)) (pinned s)" "same_txn s s'"
    "l_lh (log s') = add_home (b_blockno (buf_at b s)) (l_lh (log s))"
proof -
  let ?l = "(log s)\<lparr>l_lh := add_home (b_blockno (buf_at b s)) (l_lh (log s))\<rparr>"
  let ?t = "s\<lparr>log := ?l\<rparr>" and ?k = "(buf_at b s)\<lparr>b_dirty := True\<rparr>"
  let ?s = "upd_buf b (\<lambda>k. k\<lparr>b_dirty := True\<rparr>) ?t"
  have c: "cache_ok p {b} ?t" using assms(1) by simp
  note h = held_buf [OF c, of b] and d = cache_okD [OF c]
  have "same_procs ?t ?s" by (simp add: same_procs_def)
  then have t: "touched_buf b ?k p ?t ?s"
    using h(2,3,4,8) d(1,2,8) by (simp add: touched_buf_def ide_ready_def)
  have "cview ?s = (cview s)(b_blockno (buf_at b s) := b_data (buf_at b s))" using touched_buf_view(1) [OF t c] by simp
  then have v: "cview ?s = cview s" using held_buf(7) [OF assms(1), of b] by (simp add: fun_upd_idem)
  have "dk.more ?s = dk.more ?t" by simp
  then have l: "log ?s = ?l" "lg.more ?s = lg.more s" using dk_more_log [of ?s ?t] by simp_all
  have i: "ide ?s = ide s" by simp
  show ?thesis
  proof (rule that [OF log_write_ok [OF assms(1) _ assms(2-4)] _ _ v])
    show "cache_ok p {b} ?s" by (rule touched_buf_ok [OF t c]) simp
    show "buf_at b ?s = ?k" by (rule touched_buf_at(1) [OF t c]) simp
    show "pinned ?s = insert (b_blockno (buf_at b s)) (pinned s)" using touched_buf_view(2) [OF t c] by simp
    show "same_txn s ?s" using l i by (auto simp: same_txn_def)
    show "l_lh (log ?s) = add_home (b_blockno (buf_at b s)) (l_lh (log s))" using l(1) by simp
  qed simp
qed

lemma same_txn_blocks: "same_blocks s s' \<Longrightarrow> same_txn s s'"
  using dk_more_log [of s' s] by (auto simp: same_blocks_def same_txn_def intro: exI [of _ "l_lh (log s)"])

lemma homes_added:
  assumes "log_geom s" "lh_n (l_lh (log s)) + 1 < int LOGSIZE" "n < FSSIZE" "n \<notin> log_area (l_start (log s))"
    and "log s' = (log s)\<lparr>l_lh := add_home n (l_lh (log s))\<rparr>"
  shows "log_homes s' = (if n \<in> set (log_homes s) then log_homes s else log_homes s @ [n])" "log_geom s'"
proof -
  have g: "0 \<le> lh_n (l_lh (log s))" "lh_n (l_lh (log s)) < int (length (lh_block (l_lh (log s))))"
    using assms(1) by (simp_all add: log_geom_def)
  note a = add_home_blocks [OF g, of n]
  show h: "log_homes s' = (if n \<in> set (log_homes s) then log_homes s else log_homes s @ [n])"
    using a(1) by (simp add: log_homes_def assms(5) Let_def)
  have "\<forall>h\<in>set (log_homes s'). h < FSSIZE \<and> h \<notin> log_area (l_start (log s))"
    unfolding h using assms(1,3,4) by (auto simp: log_geom_def)
  then show "log_geom s'" using assms(1,2) a(2-4) unfolding log_geom_def by (simp add: assms(5))
qed

lemma txn_write_spec:
  assumes "log_ready p s" "1 \<le> l_outstanding (log s)" "lh_n (l_lh (log s)) + 1 < int LOGSIZE" "lh_n (l_lh (log s)) < l_size (log s) - 1"
    and "n < FSSIZE" "n \<notin> log_area (l_start (log s))" "n \<noteq> 1" "length (f (cview s n)) = BSIZE"
  shows "wpk (txn_write n f) (\<lambda>_ s'. log_ready p s' \<and> cview s' = (cview s)(n := f (cview s n)) \<and> same_txn s s' \<and>
    log_homes s' = (if n \<in> set (log_homes s) then log_homes s else log_homes s @ [n])) s"
proof -
  note d = log_readyD [OF assms(1)] and g = log_geomD [OF log_readyD(2) [OF assms(1)]]
  have card: "card (pinned s) < NBUF" using g(4) distinct_card [OF d(3)] d(4) by simp
  obtain b s1 where 1: "bread 1 n s = Ok (b, s1)" "cache_ok p {b} s1" "buf_at b s1 = read_buf n s" "same_blocks s s1"
    using bread_run [OF d(1) _ assms(5), of thesis] card by force
  note q1 = same_blocksD [OF 1(4)] and m1 = dk_more_homes [OF same_blocksD(6) [OF 1(4)]]
  obtain s2 where 2: "set_data b f s1 = Ok ((), s2)" "cache_ok p {b} s2" "buf_at b s2 = (buf_at b s1)\<lparr>b_data := f (cview s n)\<rparr>"
    "cview s2 = (cview s1)(n := f (cview s n))" "pinned s2 = pinned s1" "ide s2 = ide s1" "dk.more s2 = dk.more s1"
    using set_data_run [OF 1(2), of b f thesis] assms(8) 1(3) by (force simp: read_buf_def)
  note m2 = dk_more_homes [OF 2(7)]
  have bn: "b_blockno (buf_at b s2) = n" using 2(3) 1(3) by (simp add: read_buf_def)
  obtain s3 where 3: "log_write b s2 = Ok ((), s3)" "cache_ok p {b} s3" "buf_at b s3 = (buf_at b s2)\<lparr>b_dirty := True\<rparr>" "cview s3 = cview s2"
    "pinned s3 = insert n (pinned s2)" "same_txn s2 s3" "l_lh (log s3) = add_home n (l_lh (log s2))"
    using log_write_run [OF 2(2), of thesis] assms(2-4) m1(1) m2(1) bn by auto
  obtain s4 where 4: "brelse b s3 = Ok ((), s4)" "cache_ok p {} s4" "same_blocks s3 s4"
    using brelse_run [OF 3(2), of b thesis] 3(3) by force
  note q4 = same_blocksD [OF 4(3)] and m4 = dk_more_homes [OF same_blocksD(6) [OF 4(3)]]
  have "same_txn s s2" using same_txn_blocks [OF 1(4)] 2(6) dk_more_log [OF 2(7)] by (auto simp: same_txn_def)
  then have st: "same_txn s s4" using 3(6) same_txn_blocks [OF 4(3)] same_txn_trans by blast
  then have lh: "log s4 = (log s)\<lparr>l_lh := add_home n (l_lh (log s))\<rparr>"
    using 3(7) m1(1) m2(1) m4(1) by (auto simp: same_txn_def)
  note h = homes_added [OF d(2) assms(3,5,6) lh] and s = same_txnD [OF st]
  have pin: "pinned s4 = insert n (pinned s)" using q4(2) 3(5) 2(5) q1(2) by simp
  have "distinct (log_homes s4)" "set (log_homes s4) = pinned s4" using h(1) d(3,4) pin by auto
  then have "log_ready p s4" using 4(2) h(2) pin d(5-7) assms(7) s by (simp add: log_ready_def)
  moreover have "txn_write n f s = Ok ((), s4)" using 1(1) 2(1) 3(1) 4(1) by (simp add: txn_write_def bindk_def thenk_def)
  ultimately show ?thesis using st h(1) q4(1) 3(4) 2(4) q1(1) by (simp add: wpk_def)
qed


section \<open>Transactions\<close>

lemma log_ready_flags [simp]:
  "log_ready p (s\<lparr>log := (log s)\<lparr>l_outstanding := k\<rparr>\<rparr>) = log_ready p s"
  "log_ready p (s\<lparr>log := (log s)\<lparr>l_committing := c\<rparr>\<rparr>) = log_ready p s"
  "log_ready p (s\<lparr>log := (log s)\<lparr>l_outstanding := k, l_committing := c\<rparr>\<rparr>) = log_ready p s"
  by (simp_all add: log_ready_def log_geom_def log_homes_def)

lemma wakeup1_cache [simp]:
  "cache_ok p H (wakeup1 c s) = cache_ok p H s" "cview (wakeup1 c s) = cview s" "pinned (wakeup1 c s) = pinned s"
  "disk_blocks (wakeup1 c s) = disk_blocks s"
proof -
  have h: "holds_block n b (wakeup1 c s) = holds_block n b s" for n b by (simp add: holds_block_def)
  then show "pinned (wakeup1 c s) = pinned s" by (simp add: pinned_def)
  show "cview (wakeup1 c s) = cview s" by (simp add: cview_def fun_eq_iff bget_cached_def split: option.split)
  show "disk_blocks (wakeup1 c s) = disk_blocks s" by (simp add: disk_blocks_def fun_eq_iff)
  have "ide_ready (wakeup1 c s) = ide_ready s" by (simp add: ide_ready_def)
  moreover have "sheld k p (wakeup1 c s) = sheld k p s" if "running p s" for k
    using that by (simp add: running_def sheld_wakeup1)
  ultimately show "cache_ok p H (wakeup1 c s) = cache_ok p H s"
    by (cases "running p s") (simp_all add: cache_ok_def buf_ok_def h)
qed

lemma wakeup1_log [simp]: "log (wakeup1 c s) = log s" "lg.more (wakeup1 c s) = lg.more s"
  using dk_more_log [of "wakeup1 c s" s] by simp_all

lemma log_ready_wakeup1 [simp]: "log_ready p (wakeup1 c s) = log_ready p s"
  by (simp add: log_ready_def log_geom_def log_homes_def)

lemma log_ready_settled: "log_ready p s \<Longrightarrow> settled s"
  using cache_okD(5) log_readyD(1) by blast

lemma begin_op_ok:
  assumes "settled s" "\<not> l_committing (log s)" "lh_n (l_lh (log s)) + (l_outstanding (log s) + 1) * MAXOPBLOCKS \<le> int LOGSIZE"
  shows "begin_op s = Ok ((), s\<lparr>log := (log s)\<lparr>l_outstanding := l_outstanding (log s) + 1\<rparr>\<rparr>)"
  using assms by (simp add: begin_op_def bindk_def getk_def thenk_def dok_def set_log_def modk_def settled_exec)

text \<open>The last \<open>end_op\<close> commits, between two changes of the flags.\<close>

lemma end_op_commits:
  assumes "settled s" "\<not> l_committing (log s)" "l_outstanding (log s) = 1"
    and "commit (s\<lparr>log := (log s)\<lparr>l_outstanding := 0, l_committing := True\<rparr>\<rparr>) = Ok ((), s')" "settled s'"
  shows "end_op s = Ok ((), wakeup1 LogChan (s'\<lparr>log := (log s')\<lparr>l_committing := False\<rparr>\<rparr>))"
  using assms by (simp add: end_op_def bindk_def getk_def thenk_def dok_def set_log_def modk_def settled_exec Let_def)

definition transaction :: "(u32 \<times> (block \<Rightarrow> block)) list \<Rightarrow> ('a lg_scheme, unit) kcode" where
  "transaction us = thenk begin_op (thenk (foreachk (\<lambda>u. txn_write (fst u) (snd u)) us) end_op)"

text \<open>What the changes mean.\<close>

definition changed :: "(u32 \<times> (block \<Rightarrow> block)) list \<Rightarrow> (u32 \<Rightarrow> block) \<Rightarrow> u32 \<Rightarrow> block" where
  "changed us V = fold (\<lambda>(n, f) V. V(n := f (V n))) us V"

definition change_ok :: "u32 \<Rightarrow> u32 \<times> (block \<Rightarrow> block) \<Rightarrow> bool" where
  "change_ok st u \<longleftrightarrow> fst u < FSSIZE \<and> fst u \<notin> log_area st \<and> fst u \<noteq> 1 \<and> (\<forall>d. length d = BSIZE \<longrightarrow> length (snd u d) = BSIZE)"

lemma txn_writes_spec:
  assumes "log_ready p s" "1 \<le> l_outstanding (log s)" "log_homes s = []" "\<forall>u\<in>set us. change_ok (l_start (log s)) u"
    and "length us < LOGSIZE" "int (length us) < l_size (log s)"
  shows "wpk (foreachk (\<lambda>u. txn_write (fst u) (snd u)) us) (\<lambda>_ s'. log_ready p s' \<and> same_txn s s' \<and> cview s' = changed us (cview s) \<and>
    length (log_homes s') \<le> length us \<and> (distinct (map fst us) \<longrightarrow> log_homes s' = map fst us)) s"
proof (rule wpk_foreachk [where I = "\<lambda>vs t. log_ready p t \<and> same_txn s t \<and> cview t = changed vs (cview s) \<and>
    length (log_homes t) \<le> length vs \<and> (distinct (map fst vs) \<longrightarrow> log_homes t = map fst vs)"], goal_cases)
  case 1
  then show ?case using assms(1,3) by (auto simp: same_txn_def changed_def intro: exI [of _ "l_lh (log s)"])
next
  case (2 vs u ws t)
  then have I: "log_ready p t" "same_txn s t" "cview t = changed vs (cview s)" "length (log_homes t) \<le> length vs"
    "distinct (map fst vs) \<longrightarrow> log_homes t = map fst vs" by blast+
  note d = same_txnD [OF I(2)]
  have u: "change_ok (l_start (log s)) u" using assms(4) 2(1) by simp
  have n: "lh_n (l_lh (log t)) = int (length (log_homes t))" using log_geomD(9) [OF log_readyD(2) [OF I(1)]] by simp
  have len: "length vs < length us" using 2(1) by simp
  have "length (cview t (fst u)) = BSIZE" by (rule length_cview [OF log_readyD(1) [OF I(1)]])
  then have "wpk (txn_write (fst u) (snd u)) (\<lambda>_ s'. log_ready p s' \<and> cview s' = (cview t)(fst u := snd u (cview t (fst u))) \<and> same_txn t s' \<and>
    log_homes s' = (if fst u \<in> set (log_homes t) then log_homes t else log_homes t @ [fst u])) t"
    using I(1,4) u d assms(2,5,6) n len by (intro txn_write_spec) (auto simp: change_ok_def)
  then show ?case
  proof (rule wpk_mono, elim conjE, intro conjI)
    fix s'
    assume a: "same_txn t s'" "cview s' = (cview t)(fst u := snd u (cview t (fst u)))"
      "log_homes s' = (if fst u \<in> set (log_homes t) then log_homes t else log_homes t @ [fst u])"
    show "same_txn s s'" using I(2) a(1) by (rule same_txn_trans)
    show "cview s' = changed (vs @ [u]) (cview s)" using a(2) I(3) by (simp add: changed_def split_def)
    show "length (log_homes s') \<le> length (vs @ [u])" using a(3) I(4) by simp
    show "distinct (map fst (vs @ [u])) \<longrightarrow> log_homes s' = map fst (vs @ [u])" using a(3) I(5) by auto
  qed
qed


lemma log_ready_idle: "log_ready p s \<Longrightarrow> log_homes s = [] \<Longrightarrow> cview s = disk_blocks s"
  using cview_disk log_readyD(1,4) by (metis list.set(1))

lemma transaction_run:
  assumes "log_ready p s" "l_outstanding (log s) = 0" "\<not> l_committing (log s)" "log_homes s = []"
    and "\<forall>u\<in>set us. change_ok (l_start (log s)) u" "int (length us) \<le> MAXOPBLOCKS" "MAXOPBLOCKS < l_size (log s)"
  obtains s2 s' where "log_ready p s2" "same_txn (s\<lparr>log := (log s)\<lparr>l_committing := True\<rparr>\<rparr>) s2" "cview s2 = changed us (disk_blocks s)"
    "commit s2 = Ok ((), s')"
    "transaction us s = Ok ((), wakeup1 LogChan (s'\<lparr>log := (log s')\<lparr>l_committing := False\<rparr>\<rparr>))"
proof -
  let ?s0 = "s\<lparr>log := (log s)\<lparr>l_outstanding := 1\<rparr>\<rparr>"
  have n: "lh_n (l_lh (log s)) = 0" using log_geomD(9) [OF log_readyD(2) [OF assms(1)]] assms(4) by simp
  then have b: "begin_op s = Ok ((), ?s0)" using begin_op_ok [OF log_ready_settled [OF assms(1)] assms(3)] assms(2) by simp
  have r0: "log_ready p ?s0" "log_homes ?s0 = []" "cview ?s0 = disk_blocks s"
    using assms(1,4) log_ready_idle [OF assms(1,4)] by (simp_all add: log_homes_def)
  then obtain s1 where 1: "foreachk (\<lambda>u. txn_write (fst u) (snd u)) us ?s0 = Ok ((), s1)" "log_ready p s1" "same_txn ?s0 s1"
    "cview s1 = changed us (disk_blocks s)"
    using txn_writes_spec [OF r0(1) _ r0(2), of us] assms(5-7) unfolding wpk_def by auto
  note d = same_txnD [OF 1(3)]
  let ?s2 = "s1\<lparr>log := (log s1)\<lparr>l_outstanding := 0, l_committing := True\<rparr>\<rparr>"
  have r2: "log_ready p ?s2" using 1(2) by simp
  have t2: "same_txn (s\<lparr>log := (log s)\<lparr>l_committing := True\<rparr>\<rparr>) ?s2"
  proof -
    obtain h where "log s1 = (log ?s0)\<lparr>l_lh := h\<rparr>" using 1(3) by (auto simp: same_txn_def)
    then have "log ?s2 = (log (s\<lparr>log := (log s)\<lparr>l_committing := True\<rparr>\<rparr>))\<lparr>l_lh := h\<rparr>"
      using assms(2) by (intro log_state.equality) simp_all
    then show ?thesis using 1(3) by (auto simp: same_txn_def)
  qed
  obtain s' where s': "commit ?s2 = Ok ((), s')" "log_ready p s'" using commit_ready [OF r2] unfolding wpk_def by auto
  have "end_op s1 = Ok ((), wakeup1 LogChan (s'\<lparr>log := (log s')\<lparr>l_committing := False\<rparr>\<rparr>))"
    using d(3,4) assms(3) s'(1) by (intro end_op_commits log_ready_settled [OF 1(2)] log_ready_settled [OF s'(2)]) simp_all
  then have "transaction us s = Ok ((), wakeup1 LogChan (s'\<lparr>log := (log s')\<lparr>l_committing := False\<rparr>\<rparr>))"
    using b 1(1) by (simp add: transaction_def thenk_def bindk_def)
  then show ?thesis using that [OF r2 t2 _ s'(1)] 1(4) by simp
qed

text \<open>
  C6: A file system call is atomic: a transaction of up to \<open>MAXOPBLOCKS\<close> logged block changes between
  \<open>begin_op\<close> and \<open>end_op\<close> does not panic or wait and leaves the log empty and in order, with all
  changes on the disk. If the machine stops after any number of its block writes, the next start of
  the kernel arrives at a disk that holds, outside the log, the effect of all the changes or of none.
\<close>

theorem transaction_atomic:
  assumes "log_ready p s" "l_outstanding (log s) = 0" "\<not> l_committing (log s)" "log_homes s = []"
    and "\<forall>u\<in>set us. change_ok (l_start (log s)) u" "int (length us) \<le> MAXOPBLOCKS" "MAXOPBLOCKS < l_size (log s)"
  shows "\<exists>s' ws. transaction us s = Ok ((), s') \<and> log_ready p s' \<and> log_homes s' = [] \<and> \<not> l_committing (log s') \<and>
    eq_off (l_start (log s)) (disk_blocks s') (changed us (disk_blocks s)) \<and> written (ide s') = written (ide s) @ ws \<and>
    (\<forall>k q r. booted q (crash_blocks k ws s) r \<longrightarrow> (\<exists>r'. initlog 1 r = Ok ((), r') \<and> log_ready q r' \<and>
      (eq_off (l_start (log s)) (disk_blocks r') (disk_blocks s) \<or>
       eq_off (l_start (log s)) (disk_blocks r') (changed us (disk_blocks s)))))"
proof -
  obtain s2 s1 where 2: "log_ready p s2" "same_txn (s\<lparr>log := (log s)\<lparr>l_committing := True\<rparr>\<rparr>) s2" "cview s2 = changed us (disk_blocks s)"
    "commit s2 = Ok ((), s1)" "transaction us s = Ok ((), wakeup1 LogChan (s1\<lparr>log := (log s1)\<lparr>l_committing := False\<rparr>\<rparr>))"
    using transaction_run [OF assms] by metis
  let ?st = "l_start (log s)" and ?s' = "wakeup1 LogChan (s1\<lparr>log := (log s1)\<lparr>l_committing := False\<rparr>\<rparr>)"
  have d: "l_start (log s2) = ?st" "disk_blocks s2 = disk_blocks s" "written (ide s2) = written (ide s)"
    using same_txnD [OF 2(2)] 2(2) by (simp_all add: same_txn_def)
  let ?ws = "commit_writes ?st (log_homes s2) (cview s2) (disk_blocks s2 ?st)"
  have c: "log_ready p s1" "log s1 = log_cleared (log s2)" "eq_off ?st (disk_blocks s1) (cview s2)" "wrote ?ws s2 s1"
    using commit_ready [OF 2(1)] 2(4) d(1) by (simp_all add: wpk_def)
  have "log_ready p ?s'" using c(1) by simp
  moreover have "log_homes ?s' = []" "\<not> l_committing (log ?s')" "disk_blocks ?s' = disk_blocks s1"
    using c(2) by (simp_all add: log_homes_def log_cleared_def)
  moreover have "written (ide ?s') = written (ide s) @ map (\<lambda>(n, d). ((True, n), d)) ?ws" using c(4) d(3) by (simp add: wrote_def)
  moreover have "\<exists>r'. initlog 1 r = Ok ((), r') \<and> log_ready q r' \<and>
      (eq_off ?st (disk_blocks r') (disk_blocks s) \<or> eq_off ?st (disk_blocks r') (changed us (disk_blocks s)))"
    if "booted q (crash_blocks k (map (\<lambda>(n, d). ((True, n), d)) ?ws) s) r" for k q r
    using crash_recovers [OF 2(1), of q k r] that d 2(3) unfolding wpk_def crash_blocks_wrote by (auto split: if_splits)
  ultimately show ?thesis using 2(3,5) c(3) by auto
qed


lemma foreachk_append: "foreachk f (xs @ ys) = thenk (foreachk f xs) (foreachk f ys)"
  by (induction xs) (simp_all add: thenk_def bindk_assoc)

text \<open>A logged change that finds the log full.\<close>

lemma txn_write_full:
  assumes "log_ready p s" "lh_n (l_lh (log s)) \<ge> l_size (log s) - 1" "change_ok (l_start (log s)) (n, f)"
  shows "txn_write n f s = Panic ''too big a transaction''"
proof -
  note d = log_readyD [OF assms(1)] and g = log_geomD [OF log_readyD(2) [OF assms(1)]]
  have card: "card (pinned s) < NBUF" using g(4) distinct_card [OF d(3)] d(4) by simp
  have n: "n < FSSIZE" and f: "length (f (cview s n)) = BSIZE"
    using assms(3) length_cview [OF d(1)] by (simp_all add: change_ok_def)
  obtain b s1 where 1: "bread 1 n s = Ok (b, s1)" "cache_ok p {b} s1" "buf_at b s1 = read_buf n s" "same_blocks s s1"
    using bread_run [OF d(1) _ n, of thesis] card by force
  obtain s2 where 2: "set_data b f s1 = Ok ((), s2)" "dk.more s2 = dk.more s1"
    using set_data_run [OF 1(2), of b f thesis] f 1(3) by (force simp: read_buf_def)
  have "log s2 = log s" using dk_more_log [OF 2(2)] dk_more_log [OF same_blocksD(6) [OF 1(4)]] by simp
  then have "log_write b s2 = Panic ''too big a transaction''"
    using assms(2) by (simp add: log_write_def bindk_def getk_def panick_def)
  then show ?thesis using 1(1) 2(1) by (simp add: txn_write_def bindk_def thenk_def)
qed

text \<open>
  C32: The reservation of log space is one block short: with an empty log of \<open>LOGSIZE\<close> blocks
  (which include the header, as \<open>mkfs\<close> lays it out), \<open>begin_op\<close> lets three operations in, each with
  the promise of \<open>MAXOPBLOCKS\<close> blocks; but when they use what they were promised and change 30
  different blocks, the last \<open>log_write\<close> panics.
\<close>

theorem log_reservation_short:
  assumes "log_ready p s" "l_outstanding (log s) = 0" "\<not> l_committing (log s)" "log_homes s = []" "l_size (log s) = int LOGSIZE"
    and "\<forall>u\<in>set us. change_ok (l_start (log s)) u" "distinct (map fst us)" "int (length us) = 3 * MAXOPBLOCKS"
  shows "thenk begin_op (thenk begin_op (thenk begin_op (foreachk (\<lambda>u. txn_write (fst u) (snd u)) us))) s =
    Panic ''too big a transaction''"
proof -
  obtain vs u where us: "us = vs @ [u]" using assms(8) by (cases us rule: rev_cases) auto
  have n: "lh_n (l_lh (log s)) = 0" using log_geomD(9) [OF log_readyD(2) [OF assms(1)]] assms(4) by simp
  let ?s = "s\<lparr>log := (log s)\<lparr>l_outstanding := 3\<rparr>\<rparr>"
  have "thenk begin_op (thenk begin_op (thenk begin_op c)) s = c ?s" for c :: "('a lg_scheme, unit) kcode"
    using log_ready_settled [OF assms(1)] assms(2,3) n by (simp add: thenk_def bindk_def begin_op_ok)
  moreover have "foreachk (\<lambda>u. txn_write (fst u) (snd u)) us ?s = Panic ''too big a transaction''"
  proof -
    have "log_ready p ?s" "log_homes ?s = []" using assms(1,4) by (simp_all add: log_homes_def)
    then obtain t where t: "foreachk (\<lambda>u. txn_write (fst u) (snd u)) vs ?s = Ok ((), t)" "log_ready p t" "same_txn ?s t" "log_homes t = map fst vs"
      using txn_writes_spec [of p ?s vs] assms(5-8) us unfolding wpk_def by auto
    have "lh_n (l_lh (log t)) = 29" using log_geomD(9) [OF log_readyD(2) [OF t(2)]] t(4) assms(8) us by simp
    then have "txn_write (fst u) (snd u) t = Panic ''too big a transaction''"
      using same_txnD(1,2) [OF t(3)] assms(5,6) us by (intro txn_write_full [OF t(2)]) simp_all
    then show ?thesis unfolding us foreachk_append using t(1) by (simp add: thenk_def bindk_def)
  qed
  ultimately show ?thesis by simp
qed


section \<open>Examples\<close>

lemma idle_kernel_log:
  "l_start (log (boot_kernel demo_blocks)) = 2" "l_size (log (boot_kernel demo_blocks)) = int LOGSIZE"
  "l_outstanding (log (boot_kernel demo_blocks)) = 0" "\<not> l_committing (log (boot_kernel demo_blocks))"
  "log_homes (boot_kernel demo_blocks) = []" "log_geom (boot_kernel demo_blocks)"
  by (simp_all add: boot_kernel_def kernel0_def log_homes_def log_geom_def)

lemma idle_kernel_ready: "log_ready 0 (boot_kernel demo_blocks)"
proof -
  have "booted 0 demo_blocks (boot_kernel demo_blocks)" by simp
  then have "cache_ok 0 {} (boot_kernel demo_blocks)" "pinned (boot_kernel demo_blocks) = {}" "disk_blocks (boot_kernel demo_blocks) = demo_blocks"
    by (simp_all only: booted_def)
  then show ?thesis using idle_kernel_log demo_sb_describes demo_head by (simp add: log_ready_def)
qed

theorem transaction_atomic_witness:
  "log_ready 0 (boot_kernel demo_blocks) \<and> change_ok 2 (100, \<lambda>_. replicate BSIZE 7) \<and>
   (\<exists>s'. transaction [(100, \<lambda>_. replicate BSIZE 7)] (boot_kernel demo_blocks) = Ok ((), s') \<and> disk_blocks s' 100 = replicate BSIZE 7)"
proof -
  have c: "change_ok 2 (100, \<lambda>_. replicate BSIZE 7)" by (simp add: change_ok_def log_area_def)
  obtain s' where "transaction [(100, \<lambda>_. replicate BSIZE 7)] (boot_kernel demo_blocks) = Ok ((), s')"
    "eq_off 2 (disk_blocks s') (changed [(100, \<lambda>_. replicate BSIZE 7)] (disk_blocks (boot_kernel demo_blocks)))"
    using transaction_atomic [OF idle_kernel_ready, of "[(100, \<lambda>_. replicate BSIZE 7)]"] c idle_kernel_log by auto
  then show ?thesis using idle_kernel_ready c by (auto simp: eq_off_def log_area_def changed_def)
qed

definition thirty_changes :: "(u32 \<times> (block \<Rightarrow> block)) list" where
  "thirty_changes = map (\<lambda>i. (word_of_nat (100 + i), \<lambda>_. replicate BSIZE 7)) [0..<30]"

lemma thirty_changes_ok:
  "\<forall>u\<in>set thirty_changes. change_ok 2 u" "distinct (map fst thirty_changes)" "length thirty_changes = 30"
  by (simp_all add: thirty_changes_def upt_rec change_ok_def log_area_def)

theorem log_reservation_short_witness:
  "log_ready 0 (boot_kernel demo_blocks) \<and> distinct (map fst thirty_changes) \<and>
   thenk begin_op (thenk begin_op (thenk begin_op (foreachk (\<lambda>u. txn_write (fst u) (snd u)) thirty_changes))) (boot_kernel demo_blocks) =
     Panic ''too big a transaction''"
  using log_reservation_short [OF idle_kernel_ready, of thirty_changes] idle_kernel_ready idle_kernel_log thirty_changes_ok by simp

end
