(* ===== verification/Proc_Props.thy ===== *)
theory Proc_Props
  imports Kernel_State
begin

text \<open>
  Killing processes: \<open>kill\<close> (\<open>proc.c\<close>) in all its cases, between critical sections.
\<close>

text \<open>
  C9: What \<open>kill\<close> does: it returns -1 and changes nothing if no entry of the table has the number;
  a process without sockets is marked as killed and, if it sleeps, made runnable; but to kill a
  process that owns a socket is a panic of the kernel, because the sockets are closed with
  \<open>ptable.lock\<close> held and closing one calls \<open>wakeup\<close>, which takes that lock again.
\<close>

theorem kill_cases:
  assumes "settled s"
  shows "kill i s = (case find_index (\<lambda>q. pid q = i) (ptable s) of
      None \<Rightarrow> Ok (-1, s)
    | Some p \<Rightarrow> if owns_socket p s then Panic ''acquire''
        else Ok (0, upd_proc p (\<lambda>q. q\<lparr>killed := True, pstate := (if pstate q = SLEEPING then RUNNABLE else pstate q)\<rparr>) s))"
  using kill_outcome [of s i] assms
  by (simp add: settled_cpu_ok settled_free settled_touched victim_def split: option.split)

text \<open>Process 2 of the example has a listening socket, and process 3 has none.\<close>

definition server_kernel :: pl where
  "server_kernel = kernel0\<lparr>socks := (socks kernel0)[0 := demo_closed\<lparr>sstate := LISTENING, owner := Some 1\<rparr>]\<rparr>"

lemma server_kernel_fields:
  "settled server_kernel" "ptable server_kernel = [idle_proc 1 RUNNING, idle_proc 2 RUNNABLE, idle_proc 3 RUNNABLE]"
  "owns_socket 1 server_kernel" "\<not> owns_socket 2 server_kernel"
proof -
  have k: "settled kernel0" by simp
  show "settled server_kernel" using k unfolding server_kernel_def settled_def by simp
  show "ptable server_kernel = [idle_proc 1 RUNNING, idle_proc 2 RUNNABLE, idle_proc 3 RUNNABLE]"
    by (simp add: server_kernel_def kernel0_def)
  have "socks server_kernel = demo_closed\<lparr>sstate := LISTENING, owner := Some 1\<rparr> # replicate 31 demo_closed"
    by (simp add: server_kernel_def kernel0_def list_update_def numeral_eq_Suc)
  then show "owns_socket 1 server_kernel" "\<not> owns_socket 2 server_kernel"
    by (simp_all add: owns_socket_def demo_closed_def)
qed

theorem kill_cases_witness:
  "settled server_kernel \<and> kill 2 server_kernel = Panic ''acquire'' \<and> (\<exists>s'. kill 3 server_kernel = Ok (0, s') \<and> killed (ptable s' ! 2)) \<and>
   kill 9 server_kernel = Ok (-1, server_kernel)"
proof -
  note f = server_kernel_fields and k = kill_cases [OF server_kernel_fields(1)]
  have i: "find_index (\<lambda>q. pid q = 2) (ptable server_kernel) = Some 1" "find_index (\<lambda>q. pid q = 3) (ptable server_kernel) = Some 2"
    "find_index (\<lambda>q. pid q = 9) (ptable server_kernel) = None"
    by (simp_all add: f(2) find_index_def)
  show ?thesis using f i by (simp add: k upd_proc_def numeral_2_eq_2)
qed

end
