(* ===== verification/Sock_Locks.thy ===== *)
theory Sock_Locks
  imports Syssock
begin

text \<open>
  Socket calls against locks that another processor holds. A call is a sequence of critical
  sections; \<open>acquire\<close> is one test and set, whose outcome \<open>Block\<close> says that the processor spins.
  Here the state of a reachable system is taken with \<open>stable.lock\<close>, \<open>ptable.lock\<close> or both in the
  hands of another processor, and the calls are run against it.
\<close>

definition busy :: "nat \<Rightarrow> lockid set \<Rightarrow> 'a mach_scheme \<Rightarrow> 'a mach_scheme" where
  "busy c F s = s\<lparr>locks := (\<lambda>l. if l \<in> F then \<lparr>locked = True, lcpu = Some c\<rparr> else locks s l)\<rparr>"

text \<open>The memory that a call names is what the code takes it for.\<close>

fun call_args_ok :: "nat \<Rightarrow> sock_op \<Rightarrow> 'a pt_scheme \<Rightarrow> bool" where
  "call_args_ok p (Listen port) s = True"
| "call_args_ok p (Connect port host) s = (strlen host \<noteq> None)"
| "call_args_ok p (Send port data n) s =
     (\<not> strncpy_overflows n \<and> nat n \<le> SBUFFSIZE \<and> in_uvm p data (strncpy_reads (at (umem s p) data) (nat n)) s)"
| "call_args_ok p (Recv port data n) s =
     (\<not> strncpy_overflows n \<and> nat n \<le> SBUFFSIZE \<and> in_uvm p data (nat n) s)"
| "call_args_ok p (Disconnect port) s = True"

lemma busy_simps [simp]:
  "cpu_ok (busy c F s) = cpu_ok s" "cur (busy c F s) = cur s" "cpus (busy c F s) = cpus s"
  "curproc (busy c F s) = curproc s" "mach.more (busy c F s) = mach.more s"
  by (simp_all add: busy_def cur_def curproc_def)

lemma busy_none [simp]: "busy c {} s = s"
  by (simp add: busy_def)

lemma busy_free: "l \<notin> F \<Longrightarrow> lock_free l (busy c F s) = lock_free l s"
  by (simp add: busy_def lock_free_def)

lemma busy_args [simp]: "call_args_ok p op (busy c F s) = call_args_ok p op (s :: 'a pt_scheme)"
  by (cases op) (simp_all add: busy_def in_uvm_def)

text \<open>A lock in the hands of another processor.\<close>

definition elsewhere :: "lockid \<Rightarrow> 'a mach_scheme \<Rightarrow> bool" where
  "elsewhere l s \<longleftrightarrow> locked (locks s l) \<and> lcpu (locks s l) \<noteq> Some (cur s)"

lemma busy_elsewhere: "l \<in> F \<Longrightarrow> c \<noteq> cur s \<Longrightarrow> elsewhere l (busy c F s)"
  by (simp add: elsewhere_def) (simp add: busy_def)

lemma elsewhere_acquired [simp]: "cpu_ok s \<Longrightarrow> l \<noteq> k \<Longrightarrow> elsewhere l (acquired k s) = elsewhere l s"
  by (simp add: elsewhere_def) (simp add: acquired_def)


lemma acquire_elsewhere: "cpu_ok s \<Longrightarrow> elsewhere l s \<Longrightarrow> acquire l s = Block"
  by (simp add: acquire_cases elsewhere_def held_def)

lemma elsewhere_upd [simp]:
  "elsewhere l (upd_sock i f s) = elsewhere l s" "elsewhere l (umem_update g s) = elsewhere l s"
  "elsewhere l (countSock_update h s) = elsewhere l s" "elsewhere l (nextsid_update h s) = elsewhere l s"
  "elsewhere l (upd_proc p u s) = elsewhere l s"
  by (simp_all add: elsewhere_def upd_sock_def upd_proc_def cur_def)

lemma wakeup_elsewhere: "cpu_ok s \<Longrightarrow> elsewhere PtableLock s \<Longrightarrow> wakeup ch s = Block"
  by (simp add: wakeup_def acquire_elsewhere)

lemma removesock_elsewhere: "cpu_ok s \<Longrightarrow> elsewhere PtableLock s \<Longrightarrow> removesock (Some i) s = Block"
  by (simp add: removesock_def wakeup_elsewhere)

lemma sleep_elsewhere:
  "cpu_ok s \<Longrightarrow> elsewhere PtableLock s \<Longrightarrow> curproc s = Some p \<Longrightarrow>
   sleep ch (Some StableLock) (acquired StableLock s) = Block"
  by (simp add: sleep_def myproc_ok acquire_elsewhere)

section \<open>Calls that meet a lock held elsewhere\<close>

text \<open>While \<open>stable.lock\<close> is held elsewhere, a call looks at its arguments and no further.\<close>

lemma stable_elsewhere:
  assumes "cpu_ok s" "elsewhere StableLock s"
  shows "sock_call op s = Block \<or> sock_call op s = Ok (Return E_INVALID_ARG, s) \<or>
    sock_call op s = Fault \<and> \<not> call_args_ok p op s"
  using acquire_elsewhere [OF assms]
  by (cases op) (auto simp: listen_def connect_def send_def recv_def disconnect_def disconnect_locked_def split: option.split)

definition stalled :: "bool \<Rightarrow> 'a sk_scheme \<Rightarrow> 'a sock_result \<Rightarrow> bool" where
  "stalled a s x \<longleftrightarrow> x = Block \<or> (\<exists>code<0. x = Ok (Return code, s) \<or> x = Ok (Return code, touched s)) \<or> x = Fault \<and> \<not> a"

lemma stalledI:
  "stalled a s Block" "code < 0 \<Longrightarrow> stalled a s (Ok (Return code, s))"
  "code < 0 \<Longrightarrow> stalled a s (Ok (Return code, touched s))" "\<not> a \<Longrightarrow> stalled a s Fault"
  by (auto simp: stalled_def)

lemma ptable_elsewhere:
  assumes c: "cpu_ok s" "lock_free StableLock s" "elsewhere PtableLock s" "curproc s = Some p"
  shows "stalled (call_args_ok p op s) s (sock_call op s)"
proof (cases op)
  case (Listen port)
  then show ?thesis
    using c by (auto simp: listen_def allocsock_def acquire_free retsockfunc_ok myproc_ok Let_def setsockvalue_def
        sleep_elsewhere intro!: stalledI split: option.split)
next
  case (Connect port host)
  then show ?thesis
    using c by (auto simp: connect_def allocsock_def acquire_free retsockfunc_ok myproc_ok Let_def setsockvalue_def
        wakeup_elsewhere intro!: stalledI split: option.split)
next
  case (Send port data n)
  then show ?thesis
    using c by (auto simp: send_def send_tail_def acquire_free retsockfunc_ok myproc_ok sleep_elsewhere
        wakeup_elsewhere removesock_elsewhere intro!: stalledI split: option.split)
next
  case (Recv port data n)
  have "nat n \<le> SBUFFSIZE \<Longrightarrow> \<not> SBUFFSIZE < strncpy_reads t (nat n)" for t
    using strncpy_reads_le [of t "nat n"] by linarith
  then show ?thesis
    using c Recv by (auto simp: recv_def recv_tail_def Let_def acquire_free retsockfunc_ok myproc_ok sleep_elsewhere
        wakeup_elsewhere intro!: stalledI split: option.split)
next
  case (Disconnect port)
  then show ?thesis
    using c by (auto simp: disconnect_def disconnect_locked_def acquire_free retsockfunc_ok myproc_ok removesock_elsewhere
        intro!: stalledI split: option.split)
qed

section \<open>Calls that find both locks free\<close>

lemma recv_not_fault:
  assumes r: "ready p s" and inv: "sock_inv s" and n: "call_args_ok p (Recv lport a n) s"
  shows "recv lport a n s \<noteq> Fault"
proof (cases "endpoint p lport s")
  case (Inl c)
  then show ?thesis using recv_error [OF r] by simp
next
  case (Inr lr)
  then obtain l r' where e: "endpoint p lport s = Inr (l, r')" by (cases lr) simp
  have "readable p l a n s"
    using n order_trans [OF strncpy_reads_le [of _ "nat n"], of SBUFFSIZE] by (simp add: readable_def)
  then show ?thesis
    using recv_entry [OF r e, of a n] recv_tail_cases [OF readyD(1,5,6) [OF r]] by auto
qed

lemma sock_call_not_fault:
  assumes "ready p s" "sock_inv s" "call_args_ok p op s"
  shows "sock_call op s \<noteq> Fault"
proof (cases op)
  case (Disconnect port)
  then show ?thesis using disconnect_cases [OF assms(1), of port] by (auto split: option.split)
qed (use assms listen_not_fault [OF assms(1,2)] connect_not_fault [OF assms(1,2)] recv_not_fault [OF assms(1)]
    send_reads_not_fault [OF assms(1)] in auto)

lemma stalled_only:
  assumes "cpu_ok s" "curproc s = Some p" "lock_free StableLock s \<or> elsewhere StableLock s"
    "elsewhere StableLock s \<or> elsewhere PtableLock s"
  shows "stalled (call_args_ok p op s) s (sock_call op s)"
proof (cases "elsewhere StableLock s")
  case True
  then show ?thesis using stable_elsewhere [OF assms(1), of op p] by (auto intro!: stalledI)
next
  case False
  then show ?thesis using assms by (intro ptable_elsewhere) auto
qed

text \<open>
  C4: In every reachable state, with \<open>stable.lock\<close> and \<open>ptable.lock\<close> free or held by another processor,
  a socket call of the running process never panics. It touches memory it must not touch only if
  its arguments name such memory. It spins only if one of the two locks is held elsewhere, and
  then it either spins or returns an error code with nothing changed but the saved interrupt
  flag of its processor. That the other processor gives the lock back is not claimed.
\<close>

theorem sock_call_no_panic:
  assumes "sys_reachable (s, ks)" and "curproc s = Some p" and "c \<noteq> cur s"
  shows "(\<forall>msg. sock_call op (busy c F s) \<noteq> Panic msg) \<and>
    (call_args_ok p op s \<longrightarrow> sock_call op (busy c F s) \<noteq> Fault) \<and>
    (if StableLock \<in> F \<or> PtableLock \<in> F
     then \<forall>r s'. sock_call op (busy c F s) = Ok (r, s') \<longrightarrow> (\<exists>code<0. r = Return code) \<and> flag_only (busy c F s) s'
     else sock_call op (busy c F s) \<noteq> Block)"
proof -
  let ?b = "busy c F s"
  note inv = sys_reachable_inv [OF assms(1)]
  have r: "ready p s" and si: "sock_inv s" using sys_inv_ready(1) [OF inv assms(2)] sys_invD(4) [OF inv] by blast+
  have sb: "sock_inv ?b" using si by (simp add: busy_def sock_inv_def)
  show ?thesis
  proof (cases "StableLock \<in> F \<or> PtableLock \<in> F")
    case True
    then have "stalled (call_args_ok p op ?b) ?b (sock_call op ?b)"
      using readyD [OF r] busy_elsewhere [OF _ assms(3), of _ F] busy_free [of StableLock F c s]
      by (intro stalled_only) auto
    then show ?thesis using True by (auto simp: stalled_def flag_only_same flag_only_touched)
  next
    case False
    then have "ready p ?b" using r by (simp add: ready_def busy_free) (simp add: busy_def)
    note sock_call_good [OF this sb, of op] sock_call_not_fault [OF this sb, of op]
    then show ?thesis using False by (auto simp: good_outcome_bad)
  qed
qed

theorem sock_call_no_panic_witness:
  "sys_reachable (fst running_sys, snd running_sys) \<and>
   (\<forall>msg. sock_call (Listen 80) (busy 1 {PtableLock} (fst running_sys)) \<noteq> Panic msg) \<and>
   sock_call (Listen 80) (busy 1 {PtableLock} (fst running_sys)) \<noteq> Fault"
proof -
  have "(1 :: nat) \<noteq> cur (fst running_sys)"
    by (simp add: running_sys_def start_sys_def demo_def cur_def enter_def set_cproc_def sti_def upd_cpu_def
        resumed_def upd_proc_def)
  from sock_call_no_panic [OF _ running_reachable(2) this, of "snd running_sys" "Listen 80" "{PtableLock}"]
  show ?thesis using running_reachable(1) by simp
qed

section \<open>The two locks in opposite order\<close>










end
