(* ===== verification/Grep.thy ===== *)
theory Grep
  imports Xv6_Prelude
begin

text \<open>
  The user program \<open>grep.c\<close>: the matcher, with its specification as a language of words, and the
  loop that reads a file and prints the matching lines. A C string is the list of its characters
  before the terminating zero. What \<open>read\<close> returns is a parameter, the list of the pieces it
  delivers; the argument handling of \<open>main\<close> is left out. The buffer of 1024 bytes bounds the
  length of a piece together with the rest of a line before it; the model takes pieces of any
  length, so what holds for all of them holds for those.
\<close>

section \<open>The matcher\<close>

function matchhere :: "string \<Rightarrow> string \<Rightarrow> bool" and matchstar :: "char \<Rightarrow> string \<Rightarrow> string \<Rightarrow> bool" where
  "matchhere re tx =
     (case re of
        [] \<Rightarrow> True
      | c # re1 \<Rightarrow>
          if re1 \<noteq> [] \<and> hd re1 = CHR ''*'' then matchstar c (tl re1) tx
          else if c = CHR ''$'' \<and> re1 = [] then tx = []
          else if tx \<noteq> [] \<and> (c = CHR ''.'' \<or> c = hd tx) then matchhere re1 (tl tx)
          else False)"
| "matchstar c re tx =
     (if matchhere re tx then True
      else if tx \<noteq> [] \<and> (hd tx = c \<or> c = CHR ''.'') then matchstar c re (tl tx)
      else False)"
  by pat_completeness auto

termination
  by (relation "inv_image (less_than <*lex*> less_than <*lex*> less_than)
      (\<lambda>x. case x of Inl (re, tx) \<Rightarrow> (length re, length tx, 0::nat) | Inr (c, re, tx) \<Rightarrow> (length re, length tx, 1))")
    auto

declare matchhere.simps [simp del] matchstar.simps [simp del]

text \<open>The loop of \<open>match\<close> over the suffixes of the text, the empty one included.\<close>

primrec match_from :: "string \<Rightarrow> string \<Rightarrow> bool" where
  "match_from re [] = matchhere re []"
| "match_from re (t # ts) = (if matchhere re (t # ts) then True else match_from re ts)"

definition match :: "string \<Rightarrow> string \<Rightarrow> bool" where
  "match re tx = (if re \<noteq> [] \<and> hd re = CHR ''^'' then matchhere (tl re) tx else match_from re tx)"

section \<open>What a pattern means\<close>

text \<open>A pattern is a sequence of single characters and stars, and may end in a dollar sign.\<close>

datatype atom = One char | Star char

fun atoms :: "string \<Rightarrow> atom list" where
  "atoms [] = []"
| "atoms [c] = (if c = CHR ''$'' then [] else [One c])"
| "atoms (c # d # re) = (if d = CHR ''*'' then Star c # atoms re else One c # atoms (d # re))"

fun dollar :: "string \<Rightarrow> bool" where
  "dollar [] = False"
| "dollar [c] = (c = CHR ''$'')"
| "dollar (c # d # re) = (if d = CHR ''*'' then dollar re else dollar (d # re))"

definition fits :: "char \<Rightarrow> char \<Rightarrow> bool" where
  "fits c t \<longleftrightarrow> c = CHR ''.'' \<or> t = c"

primrec words :: "atom list \<Rightarrow> string set" where
  "words [] = {[]}"
| "words (a # as) = (case a of
     One c \<Rightarrow> {t # w | t w. fits c t \<and> w \<in> words as}
   | Star c \<Rightarrow> {u @ w | u w. (\<forall>t\<in>set u. fits c t) \<and> w \<in> words as})"

text \<open>A prefix of the text is in the language, and all of it if the pattern ends in a dollar sign.\<close>

definition begins :: "string \<Rightarrow> string \<Rightarrow> bool" where
  "begins re tx \<longleftrightarrow> (\<exists>m b. tx = m @ b \<and> m \<in> words (atoms re) \<and> (dollar re \<longrightarrow> b = []))"

definition star_begins :: "char \<Rightarrow> string \<Rightarrow> string \<Rightarrow> bool" where
  "star_begins c re tx \<longleftrightarrow> (\<exists>u v. tx = u @ v \<and> (\<forall>t\<in>set u. fits c t) \<and> begins re v)"

lemma star_begins_unfold:
  "star_begins c re tx \<longleftrightarrow> begins re tx \<or> (\<exists>t ts. tx = t # ts \<and> fits c t \<and> star_begins c re ts)"
proof
  assume "star_begins c re tx"
  then obtain u v where "tx = u @ v" "\<forall>t\<in>set u. fits c t" "begins re v" by (auto simp: star_begins_def)
  then show "begins re tx \<or> (\<exists>t ts. tx = t # ts \<and> fits c t \<and> star_begins c re ts)"
    by (cases u) (auto simp: star_begins_def)
next
  assume "begins re tx \<or> (\<exists>t ts. tx = t # ts \<and> fits c t \<and> star_begins c re ts)"
  then show "star_begins c re tx"
  proof (elim disjE exE conjE)
    assume "begins re tx"
    then show ?thesis unfolding star_begins_def by (metis append_Nil empty_iff empty_set)
  next
    fix t ts
    assume "tx = t # ts" "fits c t" "star_begins c re ts"
    then show ?thesis unfolding star_begins_def by (metis append_Cons set_ConsD)
  qed
qed

lemma begins_star: "begins (c # CHR ''*'' # re) tx \<longleftrightarrow> star_begins c re tx"
proof
  assume "begins (c # CHR ''*'' # re) tx"
  then obtain m b where m: "tx = m @ b" "m \<in> words (Star c # atoms re)" "dollar re \<longrightarrow> b = []" by (auto simp: begins_def)
  then obtain u w where "m = u @ w" "\<forall>t\<in>set u. fits c t" "w \<in> words (atoms re)" by auto
  then have "tx = u @ w @ b" "\<forall>t\<in>set u. fits c t" "w \<in> words (atoms re)" "dollar re \<longrightarrow> b = []" using m by simp_all
  then show "star_begins c re tx" unfolding star_begins_def begins_def by blast
next
  assume "star_begins c re tx"
  then obtain u m b where s: "tx = (u @ m) @ b" "\<forall>t\<in>set u. fits c t" "m \<in> words (atoms re)" "dollar re \<longrightarrow> b = []"
    by (auto simp: star_begins_def begins_def)
  then have "u @ m \<in> words (atoms (c # CHR ''*'' # re))" by auto
  then show "begins (c # CHR ''*'' # re) tx" unfolding begins_def using s by (metis dollar.simps(3))
qed

lemma begins_Nil: "begins [] tx" and begins_dollar: "begins [CHR ''$''] tx \<longleftrightarrow> tx = []"
  by (auto simp: begins_def)

lemma begins_one:
  assumes "re = [] \<or> hd re \<noteq> CHR ''*''" "c \<noteq> CHR ''$'' \<or> re \<noteq> []"
  shows "begins (c # re) tx \<longleftrightarrow> (\<exists>t ts. tx = t # ts \<and> fits c t \<and> begins re ts)"
proof -
  have a: "atoms (c # re) = One c # atoms re" "dollar (c # re) = dollar re"
    using assms by (cases re; auto)+
  show ?thesis
  proof
    assume "begins (c # re) tx"
    then obtain m b where "tx = m @ b" "m \<in> words (One c # atoms re)" "dollar re \<longrightarrow> b = []" unfolding begins_def a by blast
    then obtain t w where "tx = t # w @ b" "fits c t" "w \<in> words (atoms re)" "dollar re \<longrightarrow> b = []" by auto
    then show "\<exists>t ts. tx = t # ts \<and> fits c t \<and> begins re ts" unfolding begins_def by blast
  next
    assume "\<exists>t ts. tx = t # ts \<and> fits c t \<and> begins re ts"
    then obtain t m b where s: "tx = (t # m) @ b" "fits c t" "m \<in> words (atoms re)" "dollar re \<longrightarrow> b = []"
      by (auto simp: begins_def)
    then have "t # m \<in> words (One c # atoms re)" by simp
    then show "begins (c # re) tx" unfolding begins_def a using s(1,4) by blast
  qed
qed

lemma match_spec: "matchhere re tx = begins re tx" "matchstar c re tx = star_begins c re tx"
proof (induction re tx and c re tx rule: matchhere_matchstar.induct)
  case (1 re tx)
  show ?case
  proof (cases re)
    case Nil
    then show ?thesis by (simp add: matchhere.simps begins_Nil)
  next
    case (Cons c re1)
    consider "re1 \<noteq> []" "hd re1 = CHR ''*''" | "re1 = []" "c = CHR ''$''" | "re1 = [] \<or> hd re1 \<noteq> CHR ''*''" "c \<noteq> CHR ''$'' \<or> re1 \<noteq> []"
      by blast
    then show ?thesis
    proof cases
      case 1
      then obtain re2 where "re1 = CHR ''*'' # re2" by (cases re1) auto
      then show ?thesis using "1.IH"(1) [OF Cons] Cons by (simp add: matchhere.simps begins_star)
    next
      case 2
      then show ?thesis using Cons by (simp add: matchhere.simps begins_dollar)
    next
      case 3
      then show ?thesis using "1.IH"(2) [OF Cons] Cons
        by (cases tx) (auto simp: matchhere.simps [of "c # re1"] begins_one fits_def)
    qed
  qed
next
  case (2 c re tx)
  then show ?case unfolding matchstar.simps [of c re tx] star_begins_unfold [of c re tx]
    by (cases tx) (auto simp: fits_def)
qed

lemma match_from_suffix: "match_from re tx \<longleftrightarrow> (\<exists>a v. tx = a @ v \<and> matchhere re v)"
proof (induction tx)
  case (Cons t ts)
  have "(\<exists>a v. t # ts = a @ v \<and> matchhere re v) \<longleftrightarrow> matchhere re (t # ts) \<or> (\<exists>a v. ts = a @ v \<and> matchhere re v)"
    by (auto simp: Cons_eq_append_conv)
  then show ?case using Cons.IH by simp
qed simp

text \<open>
  C33: The matcher of \<open>grep\<close> always returns, and says yes exactly if the text has a part in the
  language of the pattern, which is at its start if the pattern begins with a caret, and at its
  end if the pattern ends with a dollar sign.
\<close>

theorem match_correct:
  "match re tx \<longleftrightarrow> (let anchored = (re \<noteq> [] \<and> hd re = CHR ''^''); body = (if anchored then tl re else re) in
     \<exists>a m b. tx = a @ m @ b \<and> m \<in> words (atoms body) \<and> \<not> (anchored \<and> a \<noteq> []) \<and> \<not> (dollar body \<and> b \<noteq> []))"
  unfolding match_def Let_def match_from_suffix match_spec begins_def by auto


section \<open>The loop over the input\<close>

text \<open>\<open>strchr\<close> of \<open>ulib.c\<close> on a buffer that ends in a zero, as a position.\<close>

definition strchr :: "string \<Rightarrow> char \<Rightarrow> nat option" where
  "strchr s c = find_index (\<lambda>x. x = c) (takeWhile (\<lambda>x. x \<noteq> CHR 0x00) s)"

text \<open>The inner loop: what is printed for the lines of the buffer, and the rest \<open>p\<close> without a line end.\<close>

function grep_lines :: "string \<Rightarrow> string \<Rightarrow> string \<times> string" where
  "grep_lines pattern p =
     (case strchr p (CHR 0x0A) of
        None \<Rightarrow> ([], p)
      | Some q \<Rightarrow>
          let (out, rest) = grep_lines pattern (drop (q + 1) p) in
          ((if match pattern (take q p) then take (q + 1) p else []) @ out, rest))"
  by pat_completeness auto

termination
proof (relation "measure (\<lambda>(pattern, p). length p)")
  fix pattern p q
  assume "strchr p (CHR 0x0A) = Some q"
  then have "q < length (takeWhile (\<lambda>x. x \<noteq> CHR 0x00) p)" unfolding strchr_def by (rule find_index_SomeD)
  then have "q < length p" using length_takeWhile_le [of "\<lambda>x. x \<noteq> CHR 0x00" p] by linarith
  then show "((pattern, drop (q + 1) p), (pattern, p)) \<in> measure (\<lambda>(pattern, p). length p)" by auto
qed simp

declare grep_lines.simps [simp del]

text \<open>
  The outer loop over the pieces that \<open>read\<close> delivers: \<open>held\<close> is the contents of the buffer up to
  \<open>m\<close>. An empty piece is the end of the file or an error. If no line end was found, the position
  \<open>p\<close> is still the start of the buffer, and \<open>m\<close> is set to 0.
\<close>

fun grep :: "string \<Rightarrow> string list \<Rightarrow> string \<Rightarrow> string" where
  "grep pattern [] held = []"
| "grep pattern (piece # pieces) held =
     (if piece = [] then []
      else
        let buf = held @ piece; (out, p) = grep_lines pattern buf in
        out @ grep pattern pieces (if length p = length buf then [] else p))"

definition whole_line :: "string \<Rightarrow> bool" where
  "whole_line l \<longleftrightarrow> CHR 0x0A \<notin> set l \<and> CHR 0x00 \<notin> set l"

lemma strchr_none: "whole_line l \<Longrightarrow> strchr l (CHR 0x0A) = None"
proof -
  assume "whole_line l"
  then have "CHR 0x0A \<notin> set (takeWhile (\<lambda>x. x \<noteq> CHR 0x00) l)" by (auto simp: whole_line_def dest: set_takeWhileD)
  then show ?thesis by (auto simp: strchr_def find_index_None_iff)
qed

lemma strchr_line: "whole_line l \<Longrightarrow> strchr (l @ CHR 0x0A # r) (CHR 0x0A) = Some (length l)"
proof -
  assume l: "whole_line l"
  have "takeWhile (\<lambda>x. x \<noteq> CHR 0x00) (l @ CHR 0x0A # r) = l @ CHR 0x0A # takeWhile (\<lambda>x. x \<noteq> CHR 0x00) r"
    using l by (subst takeWhile_append2) (auto simp: whole_line_def)
  moreover have "find_index (\<lambda>x. x = CHR 0x0A) (l @ CHR 0x0A # r') = Some (length l)" for r'
    using l by (auto simp: find_index_Some_iff whole_line_def nth_append) (metis nth_mem)
  ultimately show ?thesis by (simp add: strchr_def)
qed

lemma grep_lines_concat:
  assumes "\<forall>l\<in>set ls. whole_line l" "whole_line r"
  shows "grep_lines pattern (concat (map (\<lambda>l. l @ [CHR 0x0A]) ls) @ r) =
    (concat (map (\<lambda>l. l @ [CHR 0x0A]) (filter (match pattern) ls)), r)"
  using assms(1)
proof (induction ls)
  case Nil
  then show ?case using strchr_none [OF assms(2)] by (simp add: grep_lines.simps)
next
  case (Cons l ls)
  then have l: "whole_line l" by simp
  let ?rest = "concat (map (\<lambda>l. l @ [CHR 0x0A]) ls) @ r"
  have "grep_lines pattern (l @ CHR 0x0A # ?rest) =
      (let (out, rest) = grep_lines pattern ?rest in ((if match pattern l then l @ [CHR 0x0A] else []) @ out, rest))"
    by (subst grep_lines.simps) (simp add: strchr_line [OF l])
  then show ?case using Cons by simp
qed

text \<open>Pieces that are whole lines are searched line by line.\<close>

lemma grep_whole_lines:
  assumes "\<forall>ls\<in>set lss. ls \<noteq> [] \<and> (\<forall>l\<in>set ls. whole_line l)"
  shows "grep pattern (map (\<lambda>ls. concat (map (\<lambda>l. l @ [CHR 0x0A]) ls)) lss) [] =
    concat (map (\<lambda>l. l @ [CHR 0x0A]) (filter (match pattern) (concat lss)))"
  using assms
proof (induction lss)
  case (Cons ls lss)
  have "whole_line []" by (simp add: whole_line_def)
  then have "grep_lines pattern (concat (map (\<lambda>l. l @ [CHR 0x0A]) ls)) = (concat (map (\<lambda>l. l @ [CHR 0x0A]) (filter (match pattern) ls)), [])"
    using grep_lines_concat [of ls "[]" pattern] Cons.prems by simp
  moreover have "concat (map (\<lambda>l. l @ [CHR 0x0A]) ls) \<noteq> []" using Cons.prems by (cases ls) auto
  ultimately show ?case using Cons by (simp add: Let_def)
qed simp

text \<open>
  C34: \<open>grep\<close> prints exactly the matching lines, in order, if every \<open>read\<close> delivers whole lines; but
  if a \<open>read\<close> ends inside the first line of the buffer, \<open>grep\<close> forgets the part it has read, and
  only the second part of the line is matched and printed.
\<close>

theorem grep_lines_and_pieces:
  assumes "\<forall>ls\<in>set lss. ls \<noteq> [] \<and> (\<forall>l\<in>set ls. whole_line l)" "whole_line l1" "whole_line l2" "l1 \<noteq> []"
  shows "grep pattern (map (\<lambda>ls. concat (map (\<lambda>l. l @ [CHR 0x0A]) ls)) lss) [] =
      concat (map (\<lambda>l. l @ [CHR 0x0A]) (filter (match pattern) (concat lss))) \<and>
    grep pattern [l1, l2 @ [CHR 0x0A]] [] = (if match pattern l2 then l2 @ [CHR 0x0A] else [])"
proof (rule conjI)
  show "grep pattern (map (\<lambda>ls. concat (map (\<lambda>l. l @ [CHR 0x0A]) ls)) lss) [] =
      concat (map (\<lambda>l. l @ [CHR 0x0A]) (filter (match pattern) (concat lss)))"
    by (rule grep_whole_lines [OF assms(1)])
  have "grep_lines pattern l1 = ([], l1)" by (simp add: grep_lines.simps strchr_none [OF assms(2)])
  moreover have "grep_lines pattern (l2 @ [CHR 0x0A]) = (if match pattern l2 then l2 @ [CHR 0x0A] else [], [])"
    using grep_lines_concat [of "[l2]" "[]" pattern] assms(3) by (simp add: whole_line_def)
  ultimately show "grep pattern [l1, l2 @ [CHR 0x0A]] [] = (if match pattern l2 then l2 @ [CHR 0x0A] else [])"
    using assms(4) by simp
qed

theorem grep_lines_and_pieces_witness:
  "grep ''abc'' [''abc'' @ [CHR 0x0A]] [] = ''abc'' @ [CHR 0x0A] \<and> grep ''abc'' [''ab'', ''c'' @ [CHR 0x0A]] [] = [] \<and> match ''a.c'' ''abc''"
proof -
  have m: "match ''abc'' ''abc''" "\<not> match ''abc'' ''c''" "match ''a.c'' ''abc''"
    by (simp_all add: match_def matchhere.simps)
  have w: "whole_line ''abc''" "whole_line ''ab''" "whole_line ''c''" by (simp_all add: whole_line_def)
  show ?thesis
    using grep_lines_and_pieces [of "[[''abc'']]" "''ab''" "''c''" "''abc''"] m w by simp
qed

end
