(* ===== verification/Spec2Isabelle.thy ===== *)
theory Spec2Isabelle
  imports Pipe_Props Log_Txn Proc_Props Sock_Locks Grep
begin

text \<open>
  A verification library for xv6 with a local loopback socket interface: a small Unix kernel in
  C for the x86, to which the system calls \<open>listen\<close>, \<open>connect\<close>, \<open>send\<close>, \<open>recv\<close> and \<open>disconnect\<close>
  have been added (\<open>src/sock.c\<close>, \<open>src/syssock.c\<close>).

  \<^bold>\<open>The model.\<close> The state is one extensible record, and every layer of the kernel adds its fields to
  those of the layers below: the machine with its processors and spin locks (\<open>mach\<close>), the process
  table and the memory of the processes (\<open>pt\<close>), the sockets (\<open>sk\<close>), kernel memory and its free
  list (\<open>km\<close>), sleep locks (\<open>sl\<close>), disk and buffer cache (\<open>dk\<close>), the log (\<open>lg\<close>), super block and
  inodes (\<open>ic\<close>), the console (\<open>cn\<close>), pipes (\<open>pp\<close>), open files (\<open>ft\<close>), and what starts processes
  (\<open>pl\<close>). A function of the kernel is a function of this state, with the name it has in C. Its
  result is an \<open>outcome\<close>: \<open>Ok\<close> with a value and the new state, \<open>Panic\<close> with the message, \<open>Block\<close>
  when it would wait for a lock or for another process, or \<open>Fault\<close> for behaviour that C leaves
  undefined or that would destroy memory. A call that sleeps in its middle (sockets, pipes,
  \<open>wait\<close>, \<open>sys_sleep\<close>, the console) is cut there: it returns \<open>Sleeps\<close> with what it has to remember,
  and a function of its own continues it after the wakeup. Machine integers are words of their width;
  the counts of sockets and of references to inodes and files wrap around (\<open>wrap32\<close>), and signed
  overflow in \<open>strncpy\<close> is a \<open>Fault\<close>; C integers whose overflow the code does not reach are
  integers. The disk keeps the list of its block writes in order, so that the disks a crash can
  leave are the prefixes of this list.

  \<^bold>\<open>The theories\<close>, with the files under \<open>src/\<close> that they model:

  \<^item> \<open>Xv6_Prelude\<close>: outcomes and generic lemmas. \<open>Kcode\<close>: sequencing of kernel code and a weakest
    precondition for total correctness, \<open>wpk\<close>.
  \<^item> \<open>Spinlock\<close> (\<open>spinlock.c\<close>, \<open>proc.c: mycpu, cpuid, myproc\<close>); \<open>Proc_Table\<close> (\<open>proc.c\<close>: \<open>wakeup\<close>,
    \<open>sleep\<close>, \<open>sched\<close>, \<open>yield\<close>, \<open>scheduler\<close>); \<open>Settled\<close>: states between critical sections.
  \<^item> \<open>Cstring\<close> (\<open>string.c\<close>).
  \<^item> \<open>Sock\<close>, with \<open>Sock_Table\<close>, \<open>Sock_Ops\<close>, \<open>Sock_System\<close>, \<open>Sock_Props\<close>, \<open>Sock_Transfer\<close>, \<open>Sock_Locks\<close>
    (\<open>sock.c\<close>); \<open>Kill\<close> (\<open>proc.c\<close>: \<open>kill\<close>); \<open>Syscall_Args\<close> (\<open>syscall.c\<close>: arguments); \<open>Syssock\<close> (\<open>syssock.c\<close>).
  \<^item> \<open>Kalloc\<close> (\<open>kalloc.c\<close>); \<open>Vm\<close> (\<open>vm.c\<close>); \<open>Sleeplock\<close> (\<open>sleeplock.c\<close>).
  \<^item> \<open>Ide\<close> (\<open>ide.c\<close>, \<open>memide.c\<close>), \<open>Disk_Props\<close>; \<open>Bio\<close> (\<open>bio.c\<close>), \<open>Bio_Props\<close>; \<open>Log\<close> (\<open>log.c\<close>),
    \<open>Log_Props\<close>, \<open>Log_Txn\<close>; \<open>Fs_Inode\<close> and \<open>Fs_Data\<close> (\<open>fs.c\<close>).
  \<^item> \<open>Kbd\<close> (\<open>kbd.c\<close>, \<open>kbd.h\<close>); \<open>Console\<close> (\<open>console.c\<close>, \<open>uart.c\<close>); \<open>Pipe\<close> (\<open>pipe.c\<close>), \<open>Pipe_Props\<close>;
    \<open>File\<close> (\<open>file.c\<close>); \<open>Sysfile\<close> (\<open>sysfile.c\<close>).
  \<^item> \<open>Proc_Life\<close> (\<open>proc.c\<close>: \<open>allocproc\<close>, \<open>userinit\<close>, \<open>growproc\<close>, \<open>fork\<close>, \<open>exit\<close>, \<open>wait\<close>,
    \<open>forkret\<close>), \<open>Proc_Props\<close>; \<open>Exec\<close> (\<open>exec.c\<close>); \<open>Trap\<close> (\<open>trap.c\<close>, \<open>sysproc.c\<close>, \<open>syscall.c\<close>: dispatch).
  \<^item> \<open>Kernel_State\<close>: a concrete state for the examples. \<open>Grep\<close> (\<open>grep.c\<close>: matcher and input loop).

  \<^bold>\<open>What is shown.\<close>

  \<^item> \<^emph>\<open>Sockets.\<close> \<open>Sock_System\<close> lets any number of processes on any number of processors make socket
    calls, kill, sleep, be woken, be preempted and end, in any order. In every reachable state the
    table is well formed and the sleeping calls are consistent with it (\<open>sock_table_invariant\<close>). With
    the two locks free or held by another processor no socket call panics, and it spins only on a
    lock held elsewhere (\<open>sock_call_no_panic\<close>). \<open>connect\<close> links both ends and serves a waiting
    \<open>listen\<close>; what is sent is received; which calls are refused, ports and the table as a map have
    their own theorems. Flaws are proved as theorems about the code: a \<open>recv\<close> that returns without
    data, a \<open>send\<close> into a foreign connection, host names by prefix, through the system calls a
    length that is the port and a buffer overrun, and a deadlock of \<open>kill\<close> against \<open>disconnect\<close>, which
    take \<open>ptable.lock\<close> and \<open>stable.lock\<close> in opposite order.
  \<^item> \<^emph>\<open>Locks, memory, strings.\<close> Mutual exclusion of spin locks for any interleaving of processors;
    the page allocator as a set of pages; \<open>memmove\<close> with overlap, \<open>memset\<close> by words, \<open>safestrcpy\<close>.
  \<^item> \<^emph>\<open>Storage.\<close> The two disk drivers satisfy one interface (\<open>block_device\<close>); over it the cache is a
    store of blocks (\<open>block_store\<close>); over it a commit is atomic, recovery can be interrupted and
    repeated, and a transaction between \<open>begin_op\<close> and \<open>end_op\<close> takes effect entirely or not at all,
    whatever prefix of the writes a crash lets reach the disk. A disk error goes unnoticed, and the
    reservation of log space is one block short.
  \<^item> \<^emph>\<open>Pipes, keyboard, processes, grep.\<close> The ring of a pipe is a queue (\<open>byte_queue\<close>) and \<open>pipewrite\<close> and
    \<open>piperead\<close> append to it and take from it; for every sequence of keys the keyboard decoder
    delivers the characters of the layout; \<open>kill\<close> in all cases, which panics on a process with a
    socket; the matcher of \<open>grep\<close> agrees with the language of the pattern.

  \<^bold>\<open>Concurrency.\<close> \<open>acquire\<close> is one test and set of the lock word; the loop in which it spins is the
  outcome \<open>Block\<close>. In \<open>Spinlock\<close> processors interleave between any two lock operations. In \<open>Sock_System\<close> a
  step is a whole call up to its sleep or return: the critical sections of \<open>stable.lock\<close> make a call
  atomic, and a call that panics or spins is no step. \<open>Sock_Locks\<close> looks inside: it runs calls while
  another processor holds a lock, and cuts \<open>kill\<close> and \<open>disconnect\<close> after their first lock. That a
  spinning processor ever gets its lock is nowhere claimed.

  \<^bold>\<open>Termination and bounds.\<close> Loops are structural recursion or carry a measure, and no fuel is used;
  the one exception is \<open>strlen\<close>, whose value is \<open>None\<close> for memory without a zero byte, with a theorem
  that says when it returns. The bounds are those of the source: \<open>NSOCK\<close> = 32, \<open>NBUF\<close> = \<open>LOGSIZE\<close> = 30,
  \<open>FSSIZE\<close> = 1000, \<open>PIPESIZE\<close> = \<open>BSIZE\<close> = 512. The storage theorems are about one running process
  between two context switches, with device 1 as the drive of the file system; the cache in order
  (\<open>cache_ok\<close>) is a hypothesis, kept by every operation shown here.

  \<^bold>\<open>Modelled without theorems of their own.\<close> Virtual memory beyond the page allocator, inodes and
  directories, open files and the file system calls, \<open>fork\<close>, \<open>exit\<close>, \<open>wait\<close>, \<open>exec\<close>, the console and
  traps are definitions that the layers above use; of their properties only the termination of
  their loops is shown.

  \<^bold>\<open>Not modelled.\<close> The segment and gate descriptors of \<open>seginit\<close>, \<open>switchuvm\<close> and \<open>tvinit\<close>, the
  assembler files (boot, entry, context switch, trap entry) and the interrupt controllers
  (\<open>lapic.c\<close>, \<open>ioapic.c\<close>, \<open>picirq.c\<close>, \<open>mp.c\<close>), which are hardware state; the loops that wait for the
  status register of the disk; the messages of \<open>allocuvm\<close>; \<open>main.c\<close>, which calls the
  initialisation functions in order; \<open>mkfs.c\<close>, a program of the host, whose layout appears as the
  hypothesis \<open>sb_describes\<close>; the user programs and the user library except for \<open>grep\<close>; the test
  programs. The order in which caches and processors make memory writes visible is not modelled:
  memory is sequentially consistent.
\<close>

end
